(* ===== verification/Prelude.thy ===== *)
theory Prelude
  imports Main "HOL-Library.Word"
begin

text \<open>
  Shared vocabulary of the development: the machine integers of Go, the errors of package
  \<open>io\<close>, byte readers and writers (\<open>io.Reader\<close> with \<open>io.ReadFull\<close>, \<open>io.Writer\<close>), the
  \<open>copy\<close> builtin, and the big-endian codec of \<open>encoding/binary\<close>. The collection
  \<open>wire_simps\<close> (layout of byte strings) carries the proofs of the wire formats.
\<close>

unbundle bit_operations_syntax

named_theorems wire_simps

type_synonym byte = "8 word"
type_synonym u16 = "16 word"
type_synonym u32 = "32 word"
type_synonym u64 = "64 word"
type_synonym bytes = "byte list"

section \<open>Errors of package io\<close>

datatype io_err = EOF | ErrUnexpectedEOF | ErrClosedPipe | ErrDeadlineExceeded | IOError string

section \<open>Readers\<close>

text \<open>
  A reader is the sequence of bytes that it will still deliver and the error that follows them.
  \<open>io.ReadFull(r, buf)\<close> loops over \<open>Read\<close> until \<open>len(buf)\<close> bytes have arrived, so the
  sizes of the single reads do not show in its result: a stream that ends before the first byte
  gives the error itself, one that ends later gives \<open>io.ErrUnexpectedEOF\<close> in place of
  \<open>io.EOF\<close>.
\<close>

record reader =
  rd_data :: bytes
  rd_end :: io_err

definition ReadFull :: "nat \<Rightarrow> reader \<Rightarrow> (io_err + bytes) \<times> reader" where
  "ReadFull n r =
     (if n \<le> length (rd_data r)
      then (Inr (take n (rd_data r)), r\<lparr>rd_data := drop n (rd_data r)\<rparr>)
      else (Inl (if rd_data r \<noteq> [] \<and> rd_end r = EOF then ErrUnexpectedEOF else rd_end r),
            r\<lparr>rd_data := []\<rparr>))"

definition ReadByte :: "reader \<Rightarrow> (io_err + byte) \<times> reader" where
  "ReadByte r =
     (case rd_data r of
        [] \<Rightarrow> (Inl (rd_end r), r)
      | b # bs \<Rightarrow> (Inr b, r\<lparr>rd_data := bs\<rparr>))"

lemma ReadFull_append [wire_simps]:
  "n = length bs \<Longrightarrow> ReadFull n (r\<lparr>rd_data := bs @ rest\<rparr>) = (Inr bs, r\<lparr>rd_data := rest\<rparr>)"
  by (simp add: ReadFull_def)

lemma ReadFull_end [simp]: "rd_end (snd (ReadFull n r)) = rd_end r"
  by (simp add: ReadFull_def)

lemma ReadFull_Inr:
  "ReadFull n r = (Inr bs, r') \<Longrightarrow>
     length bs = n \<and> rd_data r = bs @ rd_data r' \<and> rd_end r' = rd_end r"
  by (auto simp: ReadFull_def split: if_splits)

lemma ReadFull_Inl:
  "ReadFull n r = (Inl e, r') \<Longrightarrow> length (rd_data r) < n \<and> rd_data r' = []"
  by (auto simp: ReadFull_def split: if_splits)

lemma ReadByte_Inr:
  "ReadByte r = (Inr b, r') \<Longrightarrow> rd_data r = b # rd_data r' \<and> rd_end r' = rd_end r"
  by (auto simp: ReadByte_def split: list.splits)

lemma ReadByte_Cons [wire_simps]:
  "ReadByte (r\<lparr>rd_data := b # bs\<rparr>) = (Inr b, r\<lparr>rd_data := bs\<rparr>)"
  by (simp add: ReadByte_def)

section \<open>Writers\<close>

text \<open>
  An \<open>io.Writer\<close> is a function that takes the writer's state and the bytes of one
  \<open>Write\<close> call and returns the error, if any, with the new state. The contract that the
  program relies on is the one package \<open>io\<close> documents: \<open>Write\<close> returns an error unless
  it has written every byte, and what it has written is a prefix of its argument. The bytes
  that have reached the other end are read off a state by \<open>written\<close>.
\<close>

type_synonym 'w write_fn = "'w \<Rightarrow> bytes \<Rightarrow> io_err option \<times> 'w"

locale io_writer =
  fixes wr :: "'w write_fn"
    and written :: "'w \<Rightarrow> bytes"
  assumes write_ok: "wr w bs = (None, w') \<Longrightarrow> written w' = written w @ bs"
    and write_err: "wr w bs = (Some e, w') \<Longrightarrow> \<exists>k \<le> length bs. written w' = written w @ take k bs"

text \<open>
  The concrete writer of the program's tunnels: one end of a byte stream (\<open>io.PipeWriter\<close>
  in the proxy, the HTTP/2 response body in the relay), which accepts bytes until it is torn
  down and then fails with the error of the tear-down.
\<close>

record stream =
  st_sent :: bytes
  st_broken :: "io_err option"

definition stream_write :: "stream write_fn" where
  "stream_write w bs =
     (case st_broken w of
        Some e \<Rightarrow> (Some e, w)
      | None \<Rightarrow> (None, w\<lparr>st_sent := st_sent w @ bs\<rparr>))"

interpretation tunnel: io_writer stream_write st_sent
proof
  fix w bs w'
  assume "stream_write w bs = (None, w')"
  then show "st_sent w' = st_sent w @ bs"
    by (auto simp: stream_write_def split: option.splits)
next
  fix w bs e w'
  assume "stream_write w bs = (Some e, w')"
  then show "\<exists>k \<le> length bs. st_sent w' = st_sent w @ take k bs"
    by (intro exI [of _ 0]) (auto simp: stream_write_def split: option.splits)
qed

section \<open>Slices\<close>

text \<open>
  \<open>copy(dst[off:off+n], src)\<close> for a source that fits: the bytes of \<open>src\<close> replace those of
  \<open>dst\<close> from position \<open>off\<close>. \<open>go_slice a b xs\<close> is \<open>xs[a:b]\<close>.
\<close>

definition copy_at :: "nat \<Rightarrow> 'a list \<Rightarrow> 'a list \<Rightarrow> 'a list" where
  "copy_at off src dst = take off dst @ src @ drop (off + length src) dst"

definition go_slice :: "nat \<Rightarrow> nat \<Rightarrow> 'a list \<Rightarrow> 'a list" where
  "go_slice a b xs = take (b - a) (drop a xs)"

lemma length_copy_at [simp]:
  "off + length src \<le> length dst \<Longrightarrow> length (copy_at off src dst) = length dst"
  by (simp add: copy_at_def)

lemma length_go_slice [simp]: "b \<le> length xs \<Longrightarrow> length (go_slice a b xs) = b - a"
  by (auto simp: go_slice_def)

lemma slice_prefix [wire_simps]: "b \<le> length xs \<Longrightarrow> go_slice a b (xs @ ys) = go_slice a b xs"
  by (simp add: go_slice_def)

lemma slice_append [wire_simps]:
  "length xs \<le> a \<Longrightarrow> go_slice a b (xs @ ys) = go_slice (a - length xs) (b - length xs) ys"
  by (simp add: go_slice_def)

lemma slice_all [wire_simps]: "b = length xs \<Longrightarrow> go_slice 0 b xs = xs"
  by (simp add: go_slice_def)

lemma slice_cat: "a \<le> b \<Longrightarrow> b \<le> c \<Longrightarrow> go_slice a b xs @ go_slice b c xs = go_slice a c xs"
proof -
  assume "a \<le> b" "b \<le> c"
  then have "drop b xs = drop (b - a) (drop a xs)" "c - a = (b - a) + (c - b)"
    by (simp_all add: add.commute)
  then show ?thesis
    by (simp add: go_slice_def take_add)
qed

section \<open>Package encoding/binary, big-endian\<close>

definition PutUint32 :: "u32 \<Rightarrow> bytes" where
  "PutUint32 v = [ucast (drop_bit 24 v), ucast (drop_bit 16 v), ucast (drop_bit 8 v), ucast v]"

fun Uint32 :: "bytes \<Rightarrow> u32" where
  "Uint32 (b0 # b1 # b2 # b3 # _) =
     ucast b3 OR push_bit 8 (ucast b2) OR push_bit 16 (ucast b1) OR push_bit 24 (ucast b0)"
| "Uint32 _ = 0"

lemma length_PutUint32 [simp]: "length (PutUint32 v) = 4"
  by (simp add: PutUint32_def)

lemma not_bit_byte [simp]: "8 \<le> n \<Longrightarrow> \<not> bit (b :: byte) n"
  by (auto dest: bit_imp_le_length)

lemma less_8_cases: "n < 8 \<Longrightarrow> n = 0 \<or> n = 1 \<or> n = 2 \<or> n = 3 \<or> n = 4 \<or> n = 5 \<or> n = 6 \<or> n = (7::nat)"
  by arith

lemma Uint32_PutUint32 [simp]: "Uint32 (PutUint32 v) = v"
proof (rule bit_word_eqI)
  fix n
  assume "n < LENGTH(32)"
  then consider "n < 8" | "8 \<le> n" "n < 16" | "16 \<le> n" "n < 24" | "24 \<le> n" "n < 32"
    by fastforce
  then show "bit (Uint32 (PutUint32 v)) n \<longleftrightarrow> bit v n"
    by cases (auto simp: PutUint32_def bit_simps)
qed

lemma list_of_length_4: "length xs = 4 \<Longrightarrow> \<exists>a b c d. xs = [a, b, c, d]"
  by (auto simp: length_Suc_conv numeral_eq_Suc)

lemma PutUint32_Uint32: "length bs = 4 \<Longrightarrow> PutUint32 (Uint32 bs) = bs"
  by (auto simp: PutUint32_def bit_simps dest!: list_of_length_4 intro!: bit_word_eqI)

end
