(* ===== verification/Base64.thy ===== *)
theory Base64
  imports Prelude
begin

text \<open>
  \<open>base64.StdEncoding\<close> of Go's standard library: the encoder with padding and the decoder,
  which skips line ends, wants padding and rejects every other character, with the round trip.
\<close>

section \<open>Standard base64 with padding\<close>

definition b64_alphabet :: string where
  "b64_alphabet =
     ''ABCDEFGHIJKLMNOPQRSTUVWXYZabcdefghijklmnopqrstuvwxyz0123456789+/''"

definition b64_char :: "u32 \<Rightarrow> char" where
  "b64_char d = b64_alphabet ! unat d"

definition b64_index :: "char \<Rightarrow> u32 option" where
  "b64_index c = map_of (zip b64_alphabet (map of_nat [0..<64])) c"

text \<open>Three bytes are four groups of six bits, most significant first.\<close>

definition b64_sextets :: "byte \<Rightarrow> byte \<Rightarrow> byte \<Rightarrow> u32 list" where
  "b64_sextets a b c =
     (let val = push_bit 16 (ucast a) OR push_bit 8 (ucast b) OR ucast c :: u32
      in [drop_bit 18 val AND 63, drop_bit 12 val AND 63, drop_bit 6 val AND 63, val AND 63])"

definition b64_bytes :: "u32 \<Rightarrow> u32 \<Rightarrow> u32 \<Rightarrow> u32 \<Rightarrow> bytes" where
  "b64_bytes d0 d1 d2 d3 =
     (let val = push_bit 18 d0 OR push_bit 12 d1 OR push_bit 6 d2 OR d3
      in [ucast (drop_bit 16 val), ucast (drop_bit 8 val), ucast val])"

fun EncodeToString :: "bytes \<Rightarrow> string" where
  "EncodeToString [] = []"
| "EncodeToString [a] = map b64_char (take 2 (b64_sextets a 0 0)) @ ''==''"
| "EncodeToString [a, b] = map b64_char (take 3 (b64_sextets a b 0)) @ ''=''"
| "EncodeToString (a # b # c # rest) = map b64_char (b64_sextets a b c) @ EncodeToString rest"

fun b64_quads :: "string \<Rightarrow> bytes option" where
  "b64_quads [] = Some []"
| "b64_quads (c0 # c1 # c2 # c3 # rest) =
     (case (b64_index c0, b64_index c1) of
        (Some d0, Some d1) \<Rightarrow>
          (if c2 = CHR ''='' then
             (if c3 = CHR ''='' \<and> rest = [] then Some (take 1 (b64_bytes d0 d1 0 0)) else None)
           else
             (case b64_index c2 of
                None \<Rightarrow> None
              | Some d2 \<Rightarrow>
                  (if c3 = CHR ''='' then
                     (if rest = [] then Some (take 2 (b64_bytes d0 d1 d2 0)) else None)
                   else
                     (case b64_index c3 of
                        None \<Rightarrow> None
                      | Some d3 \<Rightarrow> map_option ((@) (b64_bytes d0 d1 d2 d3)) (b64_quads rest)))))
      | _ \<Rightarrow> None)"
| "b64_quads _ = None"

text \<open>The decoder skips carriage returns and line feeds wherever they stand.\<close>

definition DecodeString :: "string \<Rightarrow> bytes option" where
  "DecodeString s = b64_quads (filter (\<lambda>c. c \<noteq> CHR 0x0A \<and> c \<noteq> CHR 0x0D) s)"

lemma b64_table:
  "\<forall>i \<in> set [0..<64]. b64_index (b64_alphabet ! i) = Some (of_nat i) \<and>
     b64_alphabet ! i \<noteq> CHR ''='' \<and> b64_alphabet ! i \<noteq> CHR 0x0A \<and> b64_alphabet ! i \<noteq> CHR 0x0D"
  by code_simp

lemma b64_char_props:
  assumes "d < 64"
  shows "b64_index (b64_char d) = Some d" "b64_char d \<noteq> CHR ''=''"
    "b64_char d \<noteq> CHR 0x0A" "b64_char d \<noteq> CHR 0x0D"
  using assms b64_table by (auto simp: b64_char_def word_less_nat_alt)

lemma and_63: "(x :: u32) AND 63 = take_bit 6 x"
proof -
  have "(63 :: u32) = mask 6"
    by (simp add: mask_eq_exp_minus_1)
  then show ?thesis
    by (simp only: take_bit_eq_mask)
qed

lemma b64_sextets_less: "d \<in> set (b64_sextets a b c) \<Longrightarrow> d < 64"
  by (auto simp: b64_sextets_def Let_def intro: order.strict_trans1 [OF word_and_le1])

lemma b64_bytes_sextets:
  assumes "b64_sextets a b c = [d0, d1, d2, d3]"
  shows "b64_bytes d0 d1 d2 d3 = [a, b, c]"
proof -
  have ds: "d0 = drop_bit 18 (push_bit 16 (ucast a) OR push_bit 8 (ucast b) OR ucast c) AND 63"
    "d1 = drop_bit 12 (push_bit 16 (ucast a) OR push_bit 8 (ucast b) OR ucast c) AND 63"
    "d2 = drop_bit 6 (push_bit 16 (ucast a) OR push_bit 8 (ucast b) OR ucast c) AND 63"
    "d3 = (push_bit 16 (ucast a) OR push_bit 8 (ucast b) OR ucast c) AND 63"
    using assms by (auto simp: b64_sextets_def Let_def)
  show ?thesis
    unfolding b64_bytes_def Let_def ds and_63
    by (auto simp: bit_simps dest!: less_8_cases intro!: bit_word_eqI)
      (simp_all add: numeral_2_eq_2 numeral_3_eq_3)
qed

text \<open>The padded forms of one and of two bytes: the sextets that are not written are zero.\<close>

lemma b64_sextets_pad:
  "\<exists>d0 d1. b64_sextets a 0 0 = [d0, d1, 0, 0]"
  "\<exists>d0 d1 d2. b64_sextets a b 0 = [d0, d1, d2, 0]"
  by (auto simp: b64_sextets_def Let_def and_63 bit_simps intro!: bit_word_eqI)

lemma length_b64_sextets: "\<exists>d0 d1 d2 d3. b64_sextets a b c = [d0, d1, d2, d3]"
  by (simp add: b64_sextets_def Let_def)

lemma b64_quads_EncodeToString: "b64_quads (EncodeToString bs) = Some bs"
proof (induction bs rule: EncodeToString.induct)
  case (2 a)
  obtain d0 d1 where d: "b64_sextets a 0 0 = [d0, d1, 0, 0]"
    using b64_sextets_pad(1) by blast
  then show ?case
    using b64_sextets_less [of _ a 0 0] b64_bytes_sextets [OF d] by (simp add: b64_char_props)
next
  case (3 a b)
  obtain d0 d1 d2 where d: "b64_sextets a b 0 = [d0, d1, d2, 0]"
    using b64_sextets_pad(2) by blast
  then show ?case
    using b64_sextets_less [of _ a b 0] b64_bytes_sextets [OF d] by (simp add: b64_char_props)
next
  case (4 a b c rest)
  obtain d0 d1 d2 d3 where d: "b64_sextets a b c = [d0, d1, d2, d3]"
    using length_b64_sextets by blast
  then show ?case
    using b64_sextets_less [of _ a b c] b64_bytes_sextets [OF d] 4 by (simp add: b64_char_props)
qed simp

lemma EncodeToString_no_newline:
  "c \<in> set (EncodeToString bs) \<Longrightarrow> c \<noteq> CHR 0x0A \<and> c \<noteq> CHR 0x0D"
proof (induction bs rule: EncodeToString.induct)
  case (4 a b c' rest)
  then show ?case by (auto simp: b64_char_props b64_sextets_less)
qed (auto simp: b64_char_props b64_sextets_less dest!: in_set_takeD)

lemma DecodeString_EncodeToString [simp]: "DecodeString (EncodeToString bs) = Some bs"
proof -
  have "filter (\<lambda>c. c \<noteq> CHR 0x0A \<and> c \<noteq> CHR 0x0D) (EncodeToString bs) = EncodeToString bs"
    using EncodeToString_no_newline by (intro filter_True) blast
  then show ?thesis
    by (simp add: DecodeString_def b64_quads_EncodeToString)
qed

end
