(* ===== verification/Sha256.thy ===== *)
theory Sha256
  imports Prelude
begin

text \<open>
  \<open>sha256.Sum256\<close> of Go's standard library, as FIPS 180-4 defines it, with the digest of the
  standard's first test message checked by evaluation.
\<close>

section \<open>SHA-256\<close>

definition sha256_k :: "u32 list" where
  "sha256_k =
     [1116352408, 1899447441, 3049323471, 3921009573, 961987163, 1508970993,
      2453635748, 2870763221, 3624381080, 310598401, 607225278, 1426881987,
      1925078388, 2162078206, 2614888103, 3248222580, 3835390401, 4022224774,
      264347078, 604807628, 770255983, 1249150122, 1555081692, 1996064986,
      2554220882, 2821834349, 2952996808, 3210313671, 3336571891, 3584528711,
      113926993, 338241895, 666307205, 773529912, 1294757372, 1396182291,
      1695183700, 1986661051, 2177026350, 2456956037, 2730485921, 2820302411,
      3259730800, 3345764771, 3516065817, 3600352804, 4094571909, 275423344,
      430227734, 506948616, 659060556, 883997877, 958139571, 1322822218,
      1537002063, 1747873779, 1955562222, 2024104815, 2227730452, 2361852424,
      2428436474, 2756734187, 3204031479, 3329325298]"

definition sha256_init :: "u32 list" where
  "sha256_init =
     [1779033703, 3144134277, 1013904242, 2773480762, 1359893119, 2600822924, 528734635, 1541459225]"

text \<open>The message, a one bit, zeros up to 56 modulo 64 bytes and the length in bits on 64 bits.\<close>

definition sha256_pad :: "bytes \<Rightarrow> bytes" where
  "sha256_pad msg =
     (let bits = 8 * of_nat (length msg) :: u64
      in msg @ [0x80] @ replicate ((119 - length msg mod 64) mod 64) 0
         @ PutUint32 (ucast (drop_bit 32 bits)) @ PutUint32 (ucast bits))"

text \<open>The message schedule, latest word first: sixteen words of the block, then 48 more.\<close>

definition sha256_next :: "u32 list \<Rightarrow> u32" where
  "sha256_next w =
     (let x = w ! 14; y = w ! 1;
          s0 = word_rotr 7 x XOR word_rotr 18 x XOR drop_bit 3 x;
          s1 = word_rotr 17 y XOR word_rotr 19 y XOR drop_bit 10 y
      in w ! 15 + s0 + w ! 6 + s1)"

fun sha256_extend :: "nat \<Rightarrow> u32 list \<Rightarrow> u32 list" where
  "sha256_extend 0 w = w"
| "sha256_extend (Suc n) w = sha256_extend n (sha256_next w # w)"

fun sha256_words :: "bytes \<Rightarrow> u32 list" where
  "sha256_words (a # b # c # d # rest) = Uint32 [a, b, c, d] # sha256_words rest"
| "sha256_words _ = []"

fun sha256_round :: "u32 \<times> u32 \<Rightarrow> u32 list \<Rightarrow> u32 list" where
  "sha256_round (k, w) [a, b, c, d, e, f, g, h] =
     (let s1 = word_rotr 6 e XOR word_rotr 11 e XOR word_rotr 25 e;
          ch = (e AND f) XOR (NOT e AND g);
          t1 = h + s1 + ch + k + w;
          s0 = word_rotr 2 a XOR word_rotr 13 a XOR word_rotr 22 a;
          maj = (a AND b) XOR (a AND c) XOR (b AND c)
      in [t1 + s0 + maj, a, b, c, d + t1, e, f, g])"
| "sha256_round _ hs = hs"

definition sha256_block :: "bytes \<Rightarrow> u32 list \<Rightarrow> u32 list" where
  "sha256_block blk hs =
     (let w = rev (sha256_extend 48 (rev (sha256_words blk)))
      in map2 (+) hs (fold sha256_round (zip sha256_k w) hs))"

fun sha256_blocks :: "nat \<Rightarrow> bytes \<Rightarrow> u32 list \<Rightarrow> u32 list" where
  "sha256_blocks 0 msg hs = hs"
| "sha256_blocks (Suc n) msg hs = sha256_blocks n (drop 64 msg) (sha256_block (take 64 msg) hs)"

definition Sum256 :: "bytes \<Rightarrow> bytes" where
  "Sum256 msg =
     (let m = sha256_pad msg
      in concat (map PutUint32 (sha256_blocks (length m div 64) m sha256_init)))"

lemma sha256_abc:
  "Sum256 [0x61, 0x62, 0x63] =
     [0xba, 0x78, 0x16, 0xbf, 0x8f, 0x01, 0xcf, 0xea, 0x41, 0x41, 0x40, 0xde, 0x5d, 0xae, 0x22, 0x23,
      0xb0, 0x03, 0x61, 0xa3, 0x96, 0x17, 0x7a, 0x9c, 0xb4, 0x10, 0xff, 0x61, 0xf2, 0x00, 0x15, 0xad]"
  by code_simp

lemma length_sha256_round [simp]: "length hs = 8 \<Longrightarrow> length (sha256_round kw hs) = 8"
  by (cases "(kw, hs)" rule: sha256_round.cases) (auto simp: Let_def)

lemma length_sha256_block [simp]: "length hs = 8 \<Longrightarrow> length (sha256_block blk hs) = 8"
proof -
  have "length (fold sha256_round kws hs) = 8" if "length hs = 8" for kws hs
    using that by (induction kws arbitrary: hs) auto
  then show "length hs = 8 \<Longrightarrow> ?thesis"
    by (simp add: sha256_block_def Let_def)
qed

lemma length_sha256_blocks [simp]: "length hs = 8 \<Longrightarrow> length (sha256_blocks n msg hs) = 8"
  by (induction n arbitrary: msg hs) auto

lemma length_Sum256 [simp]: "length (Sum256 msg) = 32"
proof -
  have "length (concat (map PutUint32 ws)) = 4 * length ws" for ws
    by (induction ws) auto
  then show ?thesis
    by (simp add: Sum256_def Let_def) (simp add: sha256_init_def)
qed

end
