(* ===== verification/Identity.thy ===== *)
theory Identity
  imports Base64 Sha256
begin

text \<open>
  Package \<open>internal/identity\<close>: the 32-byte \<open>PeerID\<close>, its derivation from a public key with
  SHA-256 and its base64 text form.
\<close>

section \<open>PeerID\<close>

text \<open>\<open>type PeerID [sha256.Size]byte\<close>: an array of 32 bytes.\<close>

typedef peer_id = "{bs :: bytes. length bs = 32}"
  morphisms id_bytes Abs_peer_id
  by (rule exI [of _ "replicate 32 0"]) simp

text \<open>\<open>var id PeerID; copy(id[:], b)\<close>: the first 32 bytes of \<open>b\<close>, or \<open>b\<close> and zeros.\<close>

definition peer_id_of :: "bytes \<Rightarrow> peer_id" where
  "peer_id_of b = Abs_peer_id (take 32 (b @ replicate 32 0))"

lemma Abs_peer_id_code [code abstype]: "Abs_peer_id (id_bytes p) = p"
  by (rule id_bytes_inverse)

lemma id_bytes_peer_id_of_code [code abstract]:
  "id_bytes (peer_id_of b) = take 32 (b @ replicate 32 0)"
  by (simp add: peer_id_of_def Abs_peer_id_inverse)

instantiation peer_id :: equal
begin

definition equal_peer_id :: "peer_id \<Rightarrow> peer_id \<Rightarrow> bool" where
  "equal_peer_id p q \<longleftrightarrow> id_bytes p = id_bytes q"

instance
  by standard (simp add: equal_peer_id_def id_bytes_inject)

end

lemma length_id_bytes [simp]: "length (id_bytes p) = 32"
  using id_bytes [of p] by simp

lemma id_bytes_peer_id_of [simp]: "length b = 32 \<Longrightarrow> id_bytes (peer_id_of b) = b"
  by (simp add: id_bytes_peer_id_of_code)

lemma peer_id_of_id_bytes [simp]: "peer_id_of (id_bytes p) = p"
  by (simp add: peer_id_of_def id_bytes_inverse)

lemma peer_id_of_eq_iff:
  "length a = 32 \<Longrightarrow> length b = 32 \<Longrightarrow> peer_id_of a = peer_id_of b \<longleftrightarrow> a = b"
  by (metis id_bytes_peer_id_of)

datatype identity_err = InvalidBase64 | InvalidPeerIDLength nat | GenerateKeyFailed

text \<open>\<open>GenerateKeyPair\<close>; the argument is what \<open>ed25519.GenerateKey(nil)\<close> returns.\<close>

definition GenerateKeyPair :: "(bytes \<times> bytes) option \<Rightarrow> identity_err + bytes \<times> bytes" where
  "GenerateKeyPair generated =
     (case generated of
        None \<Rightarrow> Inl GenerateKeyFailed
      | Some (pub, priv) \<Rightarrow> Inr (pub, priv))"

definition PeerID_String :: "peer_id \<Rightarrow> string" where
  "PeerID_String p = EncodeToString (id_bytes p)"

definition PeerIDFromPublicKey :: "bytes \<Rightarrow> peer_id" where
  "PeerIDFromPublicKey pub = peer_id_of (Sum256 pub)"

definition PeerIDFromBase64 :: "string \<Rightarrow> identity_err + peer_id" where
  "PeerIDFromBase64 s =
     (case DecodeString s of
        None \<Rightarrow> Inl InvalidBase64
      | Some b \<Rightarrow>
          if length b \<noteq> 32 then Inl (InvalidPeerIDLength (length b))
          else Inr (peer_id_of b))"

lemma PeerIDFromBase64_String [simp]: "PeerIDFromBase64 (PeerID_String p) = Inr p"
  by (simp add: PeerIDFromBase64_def PeerID_String_def)

lemma PeerID_String_nonempty [simp]: "PeerID_String p \<noteq> []"
  using PeerIDFromBase64_String [of p] by (auto simp: PeerIDFromBase64_def DecodeString_def)

text \<open>
  C33: the text form of a peer identity, as a node sends it in the \<open>X-Peer-Id\<close> header, parses
  back to the same identity, and the parser accepts a text exactly when it is base64 for 32
  bytes, which are then the bytes of the identity.
\<close>

theorem peer_id_text_roundtrip:
  "PeerIDFromBase64 (PeerID_String p) = Inr p \<and>
   (PeerIDFromBase64 s = Inr q \<longleftrightarrow> DecodeString s = Some (id_bytes q))"
  by (auto simp: PeerIDFromBase64_def PeerID_String_def split: option.splits)

end
