(* ===== verification/Envelope.thy ===== *)
theory Envelope
  imports Identity
begin

text \<open>
  Package \<open>internal/envelope\<close>: the 74-byte header and the payload that carry every message
  between a peer and the relay. \<open>Encode\<close> and \<open>Decode\<close> are translated with all their error
  returns; \<open>envelope_frame\<close> names the bytes of one envelope on the wire and
  \<open>decode_stream\<close> is the loop over \<open>Decode\<close> that the proxy's \<open>readLoop\<close> and the
  relay's \<open>handleConnect\<close> both run.
\<close>

section \<open>Data\<close>

definition Version1 :: byte where "Version1 = 1"
definition StreamTypeData :: byte where "StreamTypeData = 0"
definition StreamTypeControl :: byte where "StreamTypeControl = 1"
definition headerSize :: nat where "headerSize = 1 + 1 + 32 + 32 + 4 + 4"

type_synonym SessionID = u32

record envelope =
  Version :: byte
  StreamType :: byte
  SrcPeerID :: peer_id
  DstPeerID :: peer_id
  EnvSessionID :: SessionID
  Payload :: bytes

text \<open>
  Each error return of the package wraps the error of the reader or writer
  (\<open>fmt.Errorf("...: %w", err)\<close>); the constructors are the four messages.
\<close>

datatype envelope_err =
  WriteHeader io_err | WritePayload io_err | ReadHeader io_err | ReadPayload io_err

section \<open>Encode and Decode\<close>

definition envelope_header :: "envelope \<Rightarrow> bytes" where
  "envelope_header env =
     (let hdr = replicate headerSize 0;
          hdr = hdr[0 := Version env];
          hdr = hdr[1 := StreamType env];
          hdr = copy_at 2 (id_bytes (SrcPeerID env)) hdr;
          hdr = copy_at 34 (id_bytes (DstPeerID env)) hdr;
          hdr = copy_at 66 (PutUint32 (EnvSessionID env)) hdr
      in copy_at 70 (PutUint32 (of_nat (length (Payload env)))) hdr)"

definition envelope_Encode :: "'w write_fn \<Rightarrow> 'w \<Rightarrow> envelope \<Rightarrow> envelope_err option \<times> 'w" where
  "envelope_Encode wr w env =
     (case wr w (envelope_header env) of
        (Some e, w') \<Rightarrow> (Some (WriteHeader e), w')
      | (None, w') \<Rightarrow>
          (if length (Payload env) > 0 then
             (case wr w' (Payload env) of
                (Some e, w'') \<Rightarrow> (Some (WritePayload e), w'')
              | (None, w'') \<Rightarrow> (None, w''))
           else (None, w')))"

definition envelope_Decode :: "reader \<Rightarrow> (envelope_err + envelope) \<times> reader" where
  "envelope_Decode r =
     (case ReadFull headerSize r of
        (Inl e, r') \<Rightarrow> (Inl (ReadHeader e), r')
      | (Inr hdr, r') \<Rightarrow>
          (let payloadLen = Uint32 (go_slice 70 74 hdr);
               env = (\<lambda>payload. \<lparr>Version = hdr ! 0, StreamType = hdr ! 1,
                        SrcPeerID = peer_id_of (go_slice 2 34 hdr),
                        DstPeerID = peer_id_of (go_slice 34 66 hdr),
                        EnvSessionID = Uint32 (go_slice 66 70 hdr), Payload = payload\<rparr>)
           in if payloadLen > 0 then
                (case ReadFull (unat payloadLen) r' of
                   (Inl e, r'') \<Rightarrow> (Inl (ReadPayload e), r'')
                 | (Inr payload, r'') \<Rightarrow> (Inr (env payload), r''))
              else (Inr (env []), r')))"

section \<open>Layout\<close>

definition envelope_frame :: "envelope \<Rightarrow> bytes" where
  "envelope_frame env = envelope_header env @ Payload env"

text \<open>Envelopes whose payload length fits the header's 32 bits.\<close>

definition wire_envelope :: "envelope \<Rightarrow> bool" where
  "wire_envelope env \<longleftrightarrow> length (Payload env) < 2 ^ 32"

lemma copy_at_zeros:
  "off = length xs \<Longrightarrow>
     copy_at off src (xs @ replicate n 0) = (xs @ src) @ replicate (n - length src) 0"
  by (simp add: copy_at_def)

lemma envelope_header_layout:
  "envelope_header env =
     [Version env, StreamType env] @ id_bytes (SrcPeerID env) @ id_bytes (DstPeerID env)
       @ PutUint32 (EnvSessionID env) @ PutUint32 (of_nat (length (Payload env)))"
proof -
  have "(replicate headerSize 0)[0 := Version env, 1 := StreamType env] =
      [Version env, StreamType env] @ replicate 72 0"
    using replicate_add [of 2 72 "0 :: byte"] by (simp add: headerSize_def numeral_2_eq_2)
  then show ?thesis
    by (simp only: envelope_header_def Let_def copy_at_zeros length_append length_Cons list.size(3)
        length_id_bytes length_PutUint32) (simp add: copy_at_zeros)
qed

lemma length_envelope_header [simp]: "length (envelope_header env) = headerSize"
  by (simp add: envelope_header_layout headerSize_def)

lemma length_envelope_frame [simp]:
  "length (envelope_frame env) = headerSize + length (Payload env)"
  by (simp add: envelope_frame_def)

lemma envelope_header_fields [wire_simps]:
  "envelope_header env ! 0 = Version env"
  "envelope_header env ! Suc 0 = StreamType env"
  "go_slice 2 34 (envelope_header env) = id_bytes (SrcPeerID env)"
  "go_slice 34 66 (envelope_header env) = id_bytes (DstPeerID env)"
  "go_slice 66 70 (envelope_header env) = PutUint32 (EnvSessionID env)"
  "go_slice 70 74 (envelope_header env) = PutUint32 (of_nat (length (Payload env)))"
  by (simp_all add: envelope_header_layout go_slice_def)

lemma unat_of_nat_wire [wire_simps]:
  "wire_envelope env \<Longrightarrow> unat (of_nat (length (Payload env)) :: u32) = length (Payload env)"
  by (simp add: wire_envelope_def unat_of_nat)

lemma wire_length_pos [wire_simps]:
  "wire_envelope env \<Longrightarrow> (of_nat (length (Payload env)) :: u32) > 0 \<longleftrightarrow> Payload env \<noteq> []"
  by (simp add: word_less_nat_alt wire_simps)

lemma Decode_frame [wire_simps]:
  assumes "wire_envelope env"
  shows "envelope_Decode (r\<lparr>rd_data := envelope_frame env @ rest\<rparr>) = (Inr env, r\<lparr>rd_data := rest\<rparr>)"
proof -
  have "ReadFull headerSize (r\<lparr>rd_data := envelope_frame env @ rest\<rparr>) =
      (Inr (envelope_header env), r\<lparr>rd_data := Payload env @ rest\<rparr>)"
    by (simp add: envelope_frame_def wire_simps)
  then show ?thesis
    using assms by (auto simp: envelope_Decode_def Let_def wire_simps)
qed

text \<open>Conversely every header of 74 bytes is the header of the envelope that \<open>Decode\<close> reads.\<close>

lemma header_split:
  assumes "length hdr = headerSize"
  shows "[hdr ! 0, hdr ! 1] @ go_slice 2 34 hdr @ go_slice 34 66 hdr @ go_slice 66 70 hdr @ go_slice 70 74 hdr = hdr"
proof -
  have "[hdr ! 0, hdr ! 1] = go_slice 0 2 hdr"
    using assms by (intro nth_equalityI) (auto simp: go_slice_def headerSize_def less_Suc_eq nth_Cons')
  then show ?thesis
    using assms by (simp add: slice_cat slice_all headerSize_def)
qed

lemma Decode_Inr:
  assumes "envelope_Decode r = (Inr env, r')"
  shows "wire_envelope env \<and> rd_data r = envelope_frame env @ rd_data r' \<and> rd_end r' = rd_end r"
proof -
  obtain hdr r1 where hdr: "ReadFull headerSize r = (Inr hdr, r1)"
    using assms by (auto simp: envelope_Decode_def split: prod.splits sum.splits)
  let ?len = "Uint32 (go_slice 70 74 hdr)"
  have len: "length hdr = headerSize"
    using ReadFull_Inr [OF hdr] by simp
  have env: "env = \<lparr>Version = hdr ! 0, StreamType = hdr ! 1, SrcPeerID = peer_id_of (go_slice 2 34 hdr),
      DstPeerID = peer_id_of (go_slice 34 66 hdr), EnvSessionID = Uint32 (go_slice 66 70 hdr),
      Payload = Payload env\<rparr>"
    and payload: "length (Payload env) = unat ?len" "rd_data r1 = Payload env @ rd_data r'"
      "rd_end r' = rd_end r1"
    using assms
    by (auto simp: envelope_Decode_def hdr Let_def word_gt_0 split: prod.splits sum.splits if_splits
        dest: ReadFull_Inr)
  have "envelope_header env = hdr"
    using header_split [OF len] len
    by (subst env) (simp add: envelope_header_layout payload PutUint32_Uint32 headerSize_def)
  moreover have "length (Payload env) < 2 ^ 32"
    using payload(1) unsigned_less [of ?len] by simp
  ultimately show ?thesis
    using ReadFull_Inr [OF hdr] payload by (simp add: wire_envelope_def envelope_frame_def)
qed

lemma Decode_consumes:
  "envelope_Decode r = (Inr env, r') \<Longrightarrow> length (rd_data r') < length (rd_data r)"
  by (drule Decode_Inr) (simp add: headerSize_def)

section \<open>The decoding loop\<close>

text \<open>
  \<open>for { env, err := Decode(r); if err != nil { return err }; ... }\<close>: the envelopes that the
  loop hands to its body, in order, and the error that ends it.
\<close>

function decode_stream :: "reader \<Rightarrow> envelope list \<times> envelope_err" where
  "decode_stream r =
     (case envelope_Decode r of
        (Inl e, r') \<Rightarrow> ([], e)
      | (Inr env, r') \<Rightarrow> (case decode_stream r' of (envs, e) \<Rightarrow> (env # envs, e)))"
  by pat_completeness auto
termination
  by (relation "measure (\<lambda>r. length (rd_data r))") (auto dest: Decode_consumes [OF sym])

declare decode_stream.simps [simp del]

definition envelope_wire :: "envelope list \<Rightarrow> bytes" where
  "envelope_wire envs = concat (map envelope_frame envs)"

lemma envelope_wire_simps [simp]:
  "envelope_wire [] = []"
  "envelope_wire (env # envs) = envelope_frame env @ envelope_wire envs"
  "envelope_wire (envs @ envs') = envelope_wire envs @ envelope_wire envs'"
  by (simp_all add: envelope_wire_def)

lemma decode_stream_frame:
  "wire_envelope env \<Longrightarrow>
     decode_stream (r\<lparr>rd_data := envelope_frame env @ rest\<rparr>) =
       (case decode_stream (r\<lparr>rd_data := rest\<rparr>) of (envs, e) \<Rightarrow> (env # envs, e))"
  by (subst decode_stream.simps) (simp add: wire_simps)

lemma decode_stream_wire:
  "\<forall>env \<in> set envs. wire_envelope env \<Longrightarrow>
     decode_stream (r\<lparr>rd_data := envelope_wire envs @ rest\<rparr>) =
       (case decode_stream (r\<lparr>rd_data := rest\<rparr>) of (envs', e) \<Rightarrow> (envs @ envs', e))"
  by (induction envs) (auto simp: decode_stream_frame split: prod.splits)

lemma decode_stream_all:
  assumes "\<forall>env \<in> set envs. wire_envelope env"
  shows "decode_stream \<lparr>rd_data = envelope_wire envs, rd_end = e\<rparr> = (envs, ReadHeader e)"
proof -
  have "decode_stream \<lparr>rd_data = [], rd_end = e\<rparr> = ([], ReadHeader e)"
    by (subst decode_stream.simps) (simp add: envelope_Decode_def ReadFull_def headerSize_def)
  then show ?thesis
    using decode_stream_wire [OF assms, of "[]" "\<lparr>rd_data = [], rd_end = e\<rparr>"] by simp
qed

text \<open>A stream that is cut inside a frame does not decode to a shorter one.\<close>

lemma Decode_truncated:
  assumes "wire_envelope env" "k < length (envelope_frame env)"
  shows "\<exists>e r'. envelope_Decode (r\<lparr>rd_data := take k (envelope_frame env)\<rparr>) = (Inl e, r')"
proof (rule ccontr)
  assume "\<not> ?thesis"
  then obtain env' r' where d: "envelope_Decode (r\<lparr>rd_data := take k (envelope_frame env)\<rparr>) = (Inr env', r')"
    by (metis obj_sumE surj_pair)
  define rest where "rest = rd_data r' @ drop k (envelope_frame env)"
  have w: "wire_envelope env'" and "take k (envelope_frame env) = envelope_frame env' @ rd_data r'"
    using Decode_Inr [OF d] by simp_all
  then have eq: "envelope_frame env @ [] = envelope_frame env' @ rest"
    by (metis append_Nil2 append_take_drop_id append.assoc rest_def)
  have "(Inr env, r\<lparr>rd_data := []\<rparr>) = envelope_Decode (r\<lparr>rd_data := envelope_frame env @ []\<rparr>)"
    using assms(1) by (rule Decode_frame [symmetric])
  also have "\<dots> = (Inr env', r\<lparr>rd_data := rest\<rparr>)"
    unfolding eq using w by (rule Decode_frame)
  finally have "rd_data (r\<lparr>rd_data := []\<rparr>) = rd_data (r\<lparr>rd_data := rest\<rparr>)"
    by (metis prod.inject)
  then have "rest = []"
    by simp
  then show False
    using assms(2) by (simp add: rest_def)
qed

lemma decode_stream_truncated:
  assumes "\<forall>env \<in> set envs. wire_envelope env"
  shows "\<exists>j. fst (decode_stream (r\<lparr>rd_data := take k (envelope_wire envs)\<rparr>)) = take j envs"
  using assms
proof (induction envs arbitrary: k)
  case Nil
  have "envelope_Decode (r\<lparr>rd_data := []\<rparr>) = (Inl (ReadHeader (rd_end r)), r\<lparr>rd_data := []\<rparr>)"
    by (simp add: envelope_Decode_def ReadFull_def headerSize_def)
  then show ?case by (subst decode_stream.simps) simp
next
  case (Cons env envs)
  show ?case
  proof (cases "k < length (envelope_frame env)")
    case True
    then obtain e r' where "envelope_Decode (r\<lparr>rd_data := take k (envelope_frame env)\<rparr>) = (Inl e, r')"
      using Decode_truncated Cons.prems by fastforce
    then have "fst (decode_stream (r\<lparr>rd_data := take k (envelope_frame env)\<rparr>)) = take 0 (env # envs)"
      by (subst decode_stream.simps) simp
    with True show ?thesis
      by (intro exI [of _ 0]) simp
  next
    case False
    let ?k = "k - length (envelope_frame env)"
    obtain j where "fst (decode_stream (r\<lparr>rd_data := take ?k (envelope_wire envs)\<rparr>)) = take j envs"
      using Cons by auto
    with False Cons.prems show ?thesis
      by (intro exI [of _ "Suc j"]) (auto simp: decode_stream_frame split: prod.splits)
  qed
qed

section \<open>What Encode writes\<close>

text \<open>The \<open>Write\<close> calls of one \<open>Encode\<close>, in order.\<close>

definition envelope_writes :: "envelope \<Rightarrow> bytes list" where
  "envelope_writes env = envelope_header env # (if length (Payload env) > 0 then [Payload env] else [])"

lemma concat_envelope_writes [simp]: "concat (envelope_writes env) = envelope_frame env"
  by (simp add: envelope_writes_def envelope_frame_def)

context io_writer
begin

lemma Encode_ok:
  assumes "envelope_Encode wr w env = (None, w')"
  shows "written w' = written w @ envelope_frame env"
  using assms
  by (auto simp: envelope_Encode_def envelope_frame_def split: prod.splits option.splits if_splits
      dest!: write_ok)

lemma Encode_err:
  assumes "envelope_Encode wr w env = (Some e, w')"
  shows "\<exists>k \<le> length (envelope_frame env). written w' = written w @ take k (envelope_frame env)"
proof -
  consider (hdr) e' where "wr w (envelope_header env) = (Some e', w')"
    | (payload) w1 e' where "wr w (envelope_header env) = (None, w1)" "wr w1 (Payload env) = (Some e', w')"
    using assms by (auto simp: envelope_Encode_def split: prod.splits option.splits if_splits)
  then show ?thesis
  proof cases
    case hdr
    then obtain k where "k \<le> headerSize" "written w' = written w @ take k (envelope_header env)"
      using write_err by fastforce
    then show ?thesis
      by (intro exI [of _ k]) (simp add: envelope_frame_def)
  next
    case payload
    then obtain k where "k \<le> length (Payload env)" "written w' = written w1 @ take k (Payload env)"
      using write_err by blast
    moreover have "written w1 = written w @ envelope_header env"
      using payload(1) by (rule write_ok)
    ultimately show ?thesis
      by (intro exI [of _ "headerSize + k"]) (simp add: envelope_frame_def)
  qed
qed

end

lemma Encode_stream:
  "envelope_Encode stream_write w env =
     (case st_broken w of
        Some e \<Rightarrow> (Some (WriteHeader e), w)
      | None \<Rightarrow> (None, w\<lparr>st_sent := st_sent w @ envelope_frame env\<rparr>))"
  by (auto simp: envelope_Encode_def stream_write_def envelope_frame_def split: option.splits)

section \<open>Properties\<close>

text \<open>
  C21: whatever writer the envelope is encoded to, as long as it keeps the contract of
  \<open>io.Writer\<close>, the bytes that have arrived decode to the same envelope and leave the rest of
  the stream untouched, provided the payload is shorter than 4 GiB.
\<close>

theorem envelope_roundtrip:
  assumes "io_writer wr written" and "written w = []"
    and "wire_envelope env" and "envelope_Encode wr w env = (None, w')"
  shows "envelope_Decode (r\<lparr>rd_data := written w' @ rest\<rparr>) = (Inr env, r\<lparr>rd_data := rest\<rparr>)"
  using io_writer.Encode_ok [OF assms(1,4)] assms(2,3) by (simp add: Decode_frame)

definition sample_envelope :: envelope where
  "sample_envelope =
     \<lparr>Version = Version1, StreamType = StreamTypeData, SrcPeerID = peer_id_of [1],
      DstPeerID = peer_id_of [2], EnvSessionID = 7, Payload = [0xde, 0xad]\<rparr>"

theorem envelope_roundtrip_witness:
  "envelope_Decode \<lparr>rd_data = envelope_frame sample_envelope @ [9], rd_end = EOF\<rparr> =
     (Inr sample_envelope, \<lparr>rd_data = [9], rd_end = EOF\<rparr>)"
proof -
  let ?w = "\<lparr>st_sent = [], st_broken = None\<rparr>"
  have enc: "envelope_Encode stream_write ?w sample_envelope =
      (None, \<lparr>st_sent = envelope_frame sample_envelope, st_broken = None\<rparr>)"
    by (simp add: Encode_stream)
  have fits: "wire_envelope sample_envelope"
    by (simp add: wire_envelope_def sample_envelope_def)
  show ?thesis
    using envelope_roundtrip [OF tunnel.io_writer_axioms _ fits enc, of "[9]" "\<lparr>rd_data = [], rd_end = EOF\<rparr>"]
    by simp
qed

text \<open>
  C22: \<open>Decode\<close> succeeds exactly on the frames: it returns an envelope if and only if the
  stream starts with that envelope's encoding, so no two envelopes share an encoding and a
  malformed header cannot be mistaken for another one.
\<close>

theorem envelope_decode_exact:
  "envelope_Decode r = (Inr env, r') \<longleftrightarrow>
     wire_envelope env \<and> rd_data r = envelope_frame env @ rd_data r' \<and> rd_end r' = rd_end r"
proof
  assume "wire_envelope env \<and> rd_data r = envelope_frame env @ rd_data r' \<and> rd_end r' = rd_end r"
  then have "r\<lparr>rd_data := envelope_frame env @ rd_data r'\<rparr> = r" "r\<lparr>rd_data := rd_data r'\<rparr> = r'"
    and "wire_envelope env"
    by simp_all
  then show "envelope_Decode r = (Inr env, r')"
    by (metis Decode_frame)
qed (rule Decode_Inr)

text \<open>
  C23: a sequence of envelopes that was written to one stream is read by the decoding loop as the
  same sequence, which then ends with the stream's error; if the stream breaks after any number of
  bytes, what was read is a prefix of what was sent, never a corrupted envelope.
\<close>

theorem envelope_stream_roundtrip:
  assumes "\<forall>env \<in> set envs. wire_envelope env"
  shows "decode_stream \<lparr>rd_data = envelope_wire envs, rd_end = e\<rparr> = (envs, ReadHeader e) \<and>
    (\<exists>j. fst (decode_stream \<lparr>rd_data = take k (envelope_wire envs), rd_end = e\<rparr>) = take j envs)"
  using decode_stream_all [OF assms] decode_stream_truncated [OF assms, of k "\<lparr>rd_data = [], rd_end = e\<rparr>"]
  by simp

theorem envelope_stream_roundtrip_witness:
  "decode_stream \<lparr>rd_data = envelope_wire [sample_envelope, sample_envelope], rd_end = EOF\<rparr> =
     ([sample_envelope, sample_envelope], ReadHeader EOF)"
proof -
  have "\<forall>env \<in> set [sample_envelope, sample_envelope]. wire_envelope env"
    by (simp add: wire_envelope_def sample_envelope_def)
  from envelope_stream_roundtrip [OF this, of EOF 0] show ?thesis by simp
qed

text \<open>
  The length field has 32 bits: a payload of 4 GiB or more is announced modulo \<open>2 ^ 32\<close>, and
  the receiver decodes, without an error, an envelope with the payload cut to that length.
\<close>

theorem envelope_oversize_cut:
  assumes "length (Payload env) \<ge> 2 ^ 32"
  shows "\<exists>env' r'. envelope_Decode (r\<lparr>rd_data := envelope_frame env\<rparr>) = (Inr env', r') \<and>
    env' = env\<lparr>Payload := take (length (Payload env) mod 2 ^ 32) (Payload env)\<rparr> \<and> env' \<noteq> env"
proof -
  let ?n = "length (Payload env) mod 2 ^ 32"
  define env' where "env' = env\<lparr>Payload := take ?n (Payload env)\<rparr>"
  have "?n < 2 ^ 32"
    by simp
  then have len: "length (Payload env') = ?n" and w: "wire_envelope env'"
    by (auto simp: env'_def wire_envelope_def)
  then have "(of_nat (length (Payload env')) :: u32) = of_nat (length (Payload env))"
    by (simp add: word_of_nat_eq_iff take_bit_nat_def)
  then have "envelope_header env' = envelope_header env"
    by (simp add: envelope_header_layout env'_def)
  then have "envelope_frame env = envelope_frame env' @ drop ?n (Payload env)"
    by (simp add: envelope_frame_def env'_def)
  moreover have "env' \<noteq> env"
    using len assms \<open>?n < 2 ^ 32\<close> by auto
  ultimately show ?thesis
    using Decode_frame [OF w] by (auto simp: env'_def)
qed

theorem envelope_oversize_cut_witness:
  "\<exists>env' r'. envelope_Decode
       \<lparr>rd_data = envelope_frame (sample_envelope\<lparr>Payload := replicate (2 ^ 32 + 1) 0\<rparr>), rd_end = EOF\<rparr> =
       (Inr env', r') \<and> Payload env' = [0]"
proof -
  let ?env = "sample_envelope\<lparr>Payload := replicate (2 ^ 32 + 1) 0\<rparr>"
  have "length (Payload ?env) \<ge> 2 ^ 32"
    by simp
  from envelope_oversize_cut [OF this, of "\<lparr>rd_data = [], rd_end = EOF\<rparr>"] show ?thesis
    by (auto simp: min_def)
qed

end
