(* ===== verification/Relay.thy ===== *)
theory Relay
  imports Envelope
begin

text \<open>
  \<open>internal/relay/relay.go\<close>: the relay server. Each CONNECT request has a handler that
  registers the response writer under the peer's identity, forwards the envelopes of the request
  body by destination, and unregisters the identity at the end. Response writers are shared by
  reference, so they live in a store. The functions of the package come first, run to completion;
  the interleaving of handlers, at the granularity of single \<open>Write\<close> calls, is a step relation.
\<close>

section \<open>State\<close>

record Relay =
  streams :: "peer_id \<rightharpoonup> nat"
  writers :: "nat \<Rightarrow> stream"

definition relay_New :: "(nat \<Rightarrow> stream) \<Rightarrow> Relay" where
  "relay_New ws = \<lparr>streams = Map.empty, writers = ws\<rparr>"

datatype relay_err = PeerNotConnected peer_id | EncodeToDst envelope_err

record http_request =
  rq_Method :: string
  rq_PeerID :: string
  rq_Body :: reader

datatype relay_log =
    LogConnected peer_id | LogDisconnected peer_id | WarnDecode peer_id envelope_err
  | WarnForward peer_id relay_err | ErrorNoFlusher

section \<open>Operations\<close>

definition register :: "peer_id \<Rightarrow> nat \<Rightarrow> Relay \<Rightarrow> Relay" where
  "register p w r = r\<lparr>streams := (streams r)(p \<mapsto> w)\<rparr>"

definition unregister :: "peer_id \<Rightarrow> Relay \<Rightarrow> Relay" where
  "unregister p r = r\<lparr>streams := (streams r)(p := None)\<rparr>"

definition forward :: "envelope \<Rightarrow> Relay \<Rightarrow> relay_err option \<times> Relay" where
  "forward env r =
     (case streams r (DstPeerID env) of
        None \<Rightarrow> (Some (PeerNotConnected (DstPeerID env)), r)
      | Some dst \<Rightarrow>
          (case envelope_Encode stream_write (writers r dst) env of
             (Some e, w') \<Rightarrow> (Some (EncodeToDst e), r\<lparr>writers := (writers r)(dst := w')\<rparr>)
           | (None, w') \<Rightarrow> (None, r\<lparr>writers := (writers r)(dst := w')\<rparr>)))"

text \<open>
  \<open>err != io.EOF\<close> in the loop: every error of \<open>Decode\<close> is a wrapped one, and a wrapped error
  is not equal to \<open>io.EOF\<close>.
\<close>

definition is_io_EOF :: "envelope_err \<Rightarrow> bool" where
  "is_io_EOF e = False"

function relay_loop :: "peer_id \<Rightarrow> reader \<Rightarrow> Relay \<Rightarrow> relay_log list \<times> Relay" where
  "relay_loop p body r =
     (case envelope_Decode body of
        (Inl e, _) \<Rightarrow> (if \<not> is_io_EOF e then [WarnDecode p e] else [], r)
      | (Inr env, body') \<Rightarrow>
          (case forward env r of
             (err, r') \<Rightarrow>
               (case relay_loop p body' r' of
                  (logs, r'') \<Rightarrow>
                    ((case err of None \<Rightarrow> [] | Some e \<Rightarrow> [WarnForward (DstPeerID env) e]) @ logs, r''))))"
  by pat_completeness auto
termination
  by (relation "measure (\<lambda>(_, body, _). length (rd_data body))") (auto dest: Decode_consumes [OF sym])

declare relay_loop.simps [simp del]

text \<open>
  A request that is served without interruption: the status that is written and the log. The
  response writer is the reference \<open>w\<close>; \<open>flusher\<close> tells whether it supports flushing.
\<close>

definition relay_handleConnect ::
  "nat \<Rightarrow> bool \<Rightarrow> http_request \<Rightarrow> Relay \<Rightarrow> nat \<times> relay_log list \<times> Relay" where
  "relay_handleConnect w flusher req r =
     (if rq_PeerID req = [] then (400, [], r)
      else case PeerIDFromBase64 (rq_PeerID req) of
        Inl _ \<Rightarrow> (400, [], r)
      | Inr p \<Rightarrow>
          (if \<not> flusher then (200, [ErrorNoFlusher], r)
           else case relay_loop p (rq_Body req) (register p w r) of
             (logs, r') \<Rightarrow> (200, LogConnected p # logs @ [LogDisconnected p], unregister p r')))"

definition relay_handleHTTP ::
  "nat \<Rightarrow> bool \<Rightarrow> http_request \<Rightarrow> Relay \<Rightarrow> nat \<times> relay_log list \<times> Relay" where
  "relay_handleHTTP w flusher req r =
     (if rq_Method req \<noteq> ''CONNECT'' then (405, [], r) else relay_handleConnect w flusher req r)"

section \<open>Forwarding\<close>

lemma forward_eq:
  "forward env r =
     (case streams r (DstPeerID env) of
        None \<Rightarrow> (Some (PeerNotConnected (DstPeerID env)), r)
      | Some dst \<Rightarrow>
          (case st_broken (writers r dst) of
             Some e \<Rightarrow> (Some (EncodeToDst (WriteHeader e)), r)
           | None \<Rightarrow> (None, r\<lparr>writers := (writers r)(dst :=
               (writers r dst)\<lparr>st_sent := st_sent (writers r dst) @ envelope_frame env\<rparr>)\<rparr>)))"
  by (auto simp: forward_def Encode_stream split: option.splits)

lemma forward_streams [simp]: "streams (snd (forward env r)) = streams r"
  by (auto simp: forward_eq split: option.splits)

lemma forward_broken [simp]: "st_broken (writers (snd (forward env r)) w) = st_broken (writers r w)"
  by (auto simp: forward_eq split: option.splits)

text \<open>What one forwarded envelope adds to the stream of reference \<open>w\<close>.\<close>

definition addressed :: "Relay \<Rightarrow> nat \<Rightarrow> envelope \<Rightarrow> bool" where
  "addressed r w env \<longleftrightarrow> streams r (DstPeerID env) = Some w \<and> st_broken (writers r w) = None"

lemma forward_sent:
  "st_sent (writers (snd (forward env r)) w) =
     st_sent (writers r w) @ (if addressed r w env then envelope_frame env else [])"
  by (auto simp: forward_eq addressed_def split: option.splits)

lemma forward_addressed [simp]: "addressed (snd (forward env r)) = addressed r"
  by (simp add: addressed_def fun_eq_iff)

lemma relay_loop_sent:
  "st_sent (writers (snd (relay_loop p body r)) w) =
     st_sent (writers r w) @ envelope_wire (filter (addressed r w) (fst (decode_stream body))) \<and>
   streams (snd (relay_loop p body r)) = streams r"
proof (induction p body r rule: relay_loop.induct)
  case (1 p body r)
  show ?case
  proof (cases "envelope_Decode body")
    case (Pair res body')
    show ?thesis
    proof (cases res)
      case (Inl e)
      with Pair show ?thesis
        by (subst (1 2) relay_loop.simps, subst decode_stream.simps) simp
    next
      case (Inr env)
      obtain err r' where f: "forward env r = (err, r')"
        by fastforce
      then have r': "addressed r' = addressed r" "streams r' = streams r"
        "st_sent (writers r' w) = st_sent (writers r w) @ (if addressed r w env then envelope_frame env else [])"
        using forward_addressed [of env r] forward_streams [of env r] forward_sent [of env r w] by simp_all
      have "snd (relay_loop p body r) = snd (relay_loop p body' r')"
        using Pair Inr f by (subst relay_loop.simps) (simp split: prod.splits)
      moreover have "fst (decode_stream body) = env # fst (decode_stream body')"
        using Pair Inr by (subst decode_stream.simps) (simp split: prod.splits)
      ultimately show ?thesis
        using "1.IH" [OF Pair [symmetric] Inr f [symmetric]] by (simp add: r')
    qed
  qed
qed

lemma handleHTTP_sent:
  assumes "relay_handleHTTP w True \<lparr>rq_Method = ''CONNECT'', rq_PeerID = PeerID_String p, rq_Body = body\<rparr> r =
      (status, logs, r')"
  shows "st_sent (writers r' d) = st_sent (writers r d) @
    envelope_wire (filter (addressed (register p w r) d) (fst (decode_stream body)))"
  using assms relay_loop_sent [of p body "register p w r" d]
  by (auto simp: relay_handleHTTP_def relay_handleConnect_def register_def unregister_def split: prod.splits)

section \<open>Interleaved handlers\<close>

text \<open>
  The server runs one goroutine per request. A handler is between two envelopes (\<open>Reading\<close>) or
  inside \<open>Encode\<close>, with the destination that \<open>forward\<close> looked up and the \<open>Write\<close> calls that
  remain. The lock covers the lookup only, so other handlers take steps between two writes.
  \<open>broken\<close> is the tear-down of a tunnel by the network. Every request gets
  a new response writer, whose reference also names the handler.
\<close>

datatype hphase = Reading | Writing nat envelope "bytes list"

record handler =
  h_peer :: peer_id
  h_body :: reader
  h_phase :: hphase

record relay_sys =
  rs_relay :: Relay
  rs_handlers :: "nat \<rightharpoonup> handler"
  rs_next :: nat

definition put_handler :: "nat \<Rightarrow> handler option \<Rightarrow> relay_sys \<Rightarrow> relay_sys" where
  "put_handler w h s = s\<lparr>rs_handlers := (rs_handlers s)(w := h)\<rparr>"

definition put_relay :: "Relay \<Rightarrow> relay_sys \<Rightarrow> relay_sys" where
  "put_relay r s = s\<lparr>rs_relay := r\<rparr>"

lemma relay_sys_sel [simp]:
  "rs_relay (put_handler w h s) = rs_relay s"
  "rs_handlers (put_handler w h s) = (rs_handlers s)(w := h)"
  "rs_relay (put_relay r s) = r"
  "rs_handlers (put_relay r s) = rs_handlers s"
  "rs_next (put_handler w h s) = rs_next s"
  "rs_next (put_relay r s) = rs_next s"
  by (simp_all add: put_handler_def put_relay_def)

definition fresh_writer :: stream where
  "fresh_writer = \<lparr>st_sent = [], st_broken = None\<rparr>"

definition relay_sys_init :: relay_sys where
  "relay_sys_init = \<lparr>rs_relay = relay_New (\<lambda>_. fresh_writer), rs_handlers = Map.empty, rs_next = 0\<rparr>"

definition set_writer :: "nat \<Rightarrow> stream \<Rightarrow> Relay \<Rightarrow> Relay" where
  "set_writer w st r = r\<lparr>writers := (writers r)(w := st)\<rparr>"

lemma relay_sel [simp]:
  "streams (set_writer w st r) = streams r"
  "writers (set_writer w st r) = (writers r)(w := st)"
  "streams (register p w r) = (streams r)(p \<mapsto> w)"
  "writers (register p w r) = writers r"
  "streams (unregister p r) = (streams r)(p := None)"
  "writers (unregister p r) = writers r"
  by (simp_all add: set_writer_def register_def unregister_def)

datatype relay_ev = Connected nat peer_id | Forwarding nat envelope | Silent

inductive relay_step :: "relay_sys \<Rightarrow> relay_ev \<Rightarrow> relay_sys \<Rightarrow> bool" where
  connect: "w = rs_next s \<Longrightarrow> rq_Method (req :: http_request) = ''CONNECT'' \<Longrightarrow> rq_PeerID req \<noteq> [] \<Longrightarrow>
    PeerIDFromBase64 (rq_PeerID req) = Inr p \<Longrightarrow>
    relay_step s (Connected w p) (put_handler w (Some \<lparr>h_peer = p, h_body = rq_Body req, h_phase = Reading\<rparr>)
      (put_relay (register p w (rs_relay s)) (s\<lparr>rs_next := Suc w\<rparr>)))"
| lookup: "rs_handlers s w = Some h \<Longrightarrow> h_phase h = Reading \<Longrightarrow>
    envelope_Decode (h_body h) = (Inr env, body) \<Longrightarrow> streams (rs_relay s) (DstPeerID env) = Some d \<Longrightarrow>
    relay_step s (Forwarding d env) (put_handler w (Some (h\<lparr>h_body := body, h_phase := Writing d env (envelope_writes env)\<rparr>)) s)"
| no_peer: "rs_handlers s w = Some h \<Longrightarrow> h_phase h = Reading \<Longrightarrow>
    envelope_Decode (h_body h) = (Inr env, body) \<Longrightarrow> streams (rs_relay s) (DstPeerID env) = None \<Longrightarrow>
    relay_step s Silent (put_handler w (Some (h\<lparr>h_body := body\<rparr>)) s)"
| chunk: "rs_handlers s w = Some h \<Longrightarrow> h_phase h = Writing d env (c # cs) \<Longrightarrow>
    stream_write (writers (rs_relay s) d) c = (None, st) \<Longrightarrow>
    relay_step s Silent (put_handler w (Some (h\<lparr>h_phase := Writing d env cs\<rparr>))
      (put_relay (set_writer d st (rs_relay s)) s))"
| chunk_err: "rs_handlers s w = Some h \<Longrightarrow> h_phase h = Writing d env (c # cs) \<Longrightarrow>
    stream_write (writers (rs_relay s) d) c = (Some e, st) \<Longrightarrow>
    relay_step s Silent (put_handler w (Some (h\<lparr>h_phase := Reading\<rparr>))
      (put_relay (set_writer d st (rs_relay s)) s))"
| flushed: "rs_handlers s w = Some h \<Longrightarrow> h_phase h = Writing d env [] \<Longrightarrow>
    relay_step s Silent (put_handler w (Some (h\<lparr>h_phase := Reading\<rparr>)) s)"
| disconnect: "rs_handlers s w = Some h \<Longrightarrow> h_phase h = Reading \<Longrightarrow>
    envelope_Decode (h_body h) = (Inl e, body) \<Longrightarrow>
    relay_step s Silent (put_handler w None (put_relay (unregister (h_peer h) (rs_relay s)) s))"
| broken: "relay_step s Silent (put_relay (set_writer w ((writers (rs_relay s) w)\<lparr>st_broken := Some e\<rparr>) (rs_relay s)) s)"

inductive relay_run :: "relay_ev list \<Rightarrow> relay_sys \<Rightarrow> bool" where
  init: "relay_run [] relay_sys_init"
| step: "relay_run ls s \<Longrightarrow> relay_step s l t \<Longrightarrow> relay_run (ls @ [l]) t"

text \<open>
  The events name the request that opened a stream and the envelopes that were looked up for it.
  Bookkeeping invariant: a registered writer belongs to a handler of that peer that is still
  running, and every writer that is in use has been handed out.
\<close>

definition relay_inv :: "relay_sys \<Rightarrow> bool" where
  "relay_inv s \<longleftrightarrow>
     (\<forall>p w. streams (rs_relay s) p = Some w \<longrightarrow> (\<exists>h. rs_handlers s w = Some h \<and> h_peer h = p)) \<and>
     (\<forall>w h. rs_handlers s w = Some h \<longrightarrow> w < rs_next s)"

lemma relay_inv_init: "relay_inv relay_sys_init"
  by (simp add: relay_inv_def relay_sys_init_def relay_New_def)

lemma relay_step_inv:
  assumes "relay_step s l t" "relay_inv s"
  shows "relay_inv t"
  using assms
proof (cases rule: relay_step.cases)
  case (connect w req p)
  then show ?thesis
    using assms(2) unfolding relay_inv_def by (auto simp: less_Suc_eq)
qed (fastforce simp: relay_inv_def)+

lemma relay_run_inv: "relay_run ls s \<Longrightarrow> relay_inv s"
  by (induction rule: relay_run.induct) (auto intro: relay_inv_init relay_step_inv)

lemma Connected_old:
  "relay_run ls s \<Longrightarrow> Connected w p \<in> set ls \<Longrightarrow> w < rs_next s"
  by (induction rule: relay_run.induct) (auto elim!: relay_step.cases)

lemma handler_Connected:
  "relay_run ls s \<Longrightarrow> rs_handlers s w = Some h \<Longrightarrow> Connected w (h_peer h) \<in> set ls"
  by (induction arbitrary: h rule: relay_run.induct)
    (auto simp: relay_sys_init_def elim!: relay_step.cases split: if_splits)

lemma Forwarding_Connected:
  "relay_run ls s \<Longrightarrow> Forwarding w env \<in> set ls \<Longrightarrow> Connected w (DstPeerID env) \<in> set ls"
proof (induction rule: relay_run.induct)
  case (step ls s l t)
  show ?case
  proof (cases "Forwarding w env \<in> set ls")
    case False
    with step.prems have "l = Forwarding w env"
      by simp
    then have "streams (rs_relay s) (DstPeerID env) = Some w"
      using step.hyps(2) by (auto elim: relay_step.cases)
    then obtain h where "rs_handlers s w = Some h" "h_peer h = DstPeerID env"
      using relay_run_inv [OF step.hyps(1)] unfolding relay_inv_def by blast
    then show ?thesis
      using handler_Connected [OF step.hyps(1)] by fastforce
  qed (use step.IH in simp)
qed simp

lemma Connected_unique:
  "relay_run ls s \<Longrightarrow> Connected w p \<in> set ls \<Longrightarrow> Connected w q \<in> set ls \<Longrightarrow> p = q"
proof (induction rule: relay_run.induct)
  case (step ls s l t)
  have "Connected w p' \<notin> set ls" if "l = Connected w q'" for p' q'
    using that step.hyps(2) Connected_old [OF step.hyps(1)] by (auto elim!: relay_step.cases)
  with step show ?case
    by auto
qed simp

section \<open>Serialised handlers\<close>

definition writes_to :: "relay_sys \<Rightarrow> nat \<Rightarrow> nat \<Rightarrow> envelope \<Rightarrow> bytes list \<Rightarrow> bool" where
  "writes_to s v d env cs \<longleftrightarrow>
     (case rs_handlers s v of None \<Rightarrow> False | Some h \<Rightarrow> h_phase h = Writing d env cs)"

definition exclusive :: "relay_sys \<Rightarrow> bool" where
  "exclusive s \<longleftrightarrow> (\<forall>d v env cs v' env' cs'. writes_to s v d env cs \<longrightarrow> writes_to s v' d env' cs' \<longrightarrow> v = v')"

inductive relay_run_excl :: "relay_ev list \<Rightarrow> relay_sys \<Rightarrow> bool" where
  init: "relay_run_excl [] relay_sys_init"
| step: "relay_run_excl ls s \<Longrightarrow> relay_step s l t \<Longrightarrow> exclusive t \<Longrightarrow> relay_run_excl (ls @ [l]) t"

fun started :: "nat \<Rightarrow> relay_ev list \<Rightarrow> envelope list" where
  "started w [] = []"
| "started w (Forwarding d env # ls) = (if d = w then env # started w ls else started w ls)"
| "started w (_ # ls) = started w ls"

lemma started_append [simp]: "started w (ls @ ls') = started w ls @ started w ls'"
  by (induction w ls rule: started.induct) auto

lemma started_member: "env \<in> set (started w ls) \<longleftrightarrow> Forwarding w env \<in> set ls"
  by (induction w ls rule: started.induct) auto

lemma relay_run_excl_exclusive: "relay_run_excl ls s \<Longrightarrow> exclusive s"
  by (induction rule: relay_run_excl.induct) (auto simp: exclusive_def writes_to_def relay_sys_init_def)

lemma relay_run_excl_run: "relay_run_excl ls s \<Longrightarrow> relay_run ls s"
  by (induction rule: relay_run_excl.induct) (auto intro: relay_run.intros)

definition framed :: "relay_ev list \<Rightarrow> relay_sys \<Rightarrow> nat \<Rightarrow> bool" where
  "framed ls s w \<longleftrightarrow>
     (let st = writers (rs_relay s) w; wire = envelope_wire (started w ls) in
      (\<exists>k. st_sent st = take k wire) \<and>
      (st_broken st = None \<longrightarrow>
         (\<forall>v env cs. writes_to s v w env cs \<longrightarrow> st_sent st @ concat cs = wire) \<and>
         ((\<nexists>v env cs. writes_to s v w env cs) \<longrightarrow> st_sent st = wire)))"

lemma framed_other:
  assumes "framed ls s w" "writers (rs_relay t) w = writers (rs_relay s) w" "started w ls' = started w ls"
    and "\<And>v env cs. writes_to t v w env cs \<longleftrightarrow> writes_to s v w env cs"
  shows "framed ls' t w"
  using assms by (simp add: framed_def Let_def)

lemma writes_to_put [simp]:
  "writes_to (put_handler w h s) v d env cs \<longleftrightarrow>
     (if v = w then (case h of None \<Rightarrow> False | Some h' \<Rightarrow> h_phase h' = Writing d env cs) else writes_to s v d env cs)"
  "writes_to (put_relay r s) v d env cs \<longleftrightarrow> writes_to s v d env cs"
  "writes_to (rs_next_update f s) v d env cs \<longleftrightarrow> writes_to s v d env cs"
  by (simp_all add: writes_to_def)

lemma writes_toI: "rs_handlers s v = Some h \<Longrightarrow> h_phase h = Writing d env cs \<Longrightarrow> writes_to s v d env cs"
  by (simp add: writes_to_def)

lemma not_writes_to: "rs_handlers s v = Some h \<Longrightarrow> h_phase h = Reading \<Longrightarrow> \<not> writes_to s v d env cs"
  "rs_handlers s v = None \<Longrightarrow> \<not> writes_to s v d env cs"
  by (simp_all add: writes_to_def)

lemma prefix_take_append: "xs = take k ys \<Longrightarrow> \<exists>k'. xs = take k' (ys @ zs)"
  by (cases "k \<le> length ys") (auto intro: exI [of _ k] exI [of _ "length ys"])

lemma exclusiveD: "exclusive s \<Longrightarrow> writes_to s v d env cs \<Longrightarrow> writes_to s v' d env' cs' \<Longrightarrow> v = v'"
  unfolding exclusive_def by blast

lemma framedI:
  assumes "\<exists>k. st_sent (writers (rs_relay s) w) = take k (envelope_wire (started w ls))"
    and "\<And>v env cs. st_broken (writers (rs_relay s) w) = None \<Longrightarrow> writes_to s v w env cs \<Longrightarrow>
      st_sent (writers (rs_relay s) w) @ concat cs = envelope_wire (started w ls)"
    and "st_broken (writers (rs_relay s) w) = None \<Longrightarrow> (\<nexists>v env cs. writes_to s v w env cs) \<Longrightarrow>
      st_sent (writers (rs_relay s) w) = envelope_wire (started w ls)"
  shows "framed ls s w"
  using assms by (simp add: framed_def Let_def)

lemma framedD:
  assumes "framed ls s w"
  shows "\<exists>k. st_sent (writers (rs_relay s) w) = take k (envelope_wire (started w ls))"
    and "st_broken (writers (rs_relay s) w) = None \<Longrightarrow> writes_to s v w env cs \<Longrightarrow>
      st_sent (writers (rs_relay s) w) @ concat cs = envelope_wire (started w ls)"
    and "st_broken (writers (rs_relay s) w) = None \<Longrightarrow> (\<nexists>v env cs. writes_to s v w env cs) \<Longrightarrow>
      st_sent (writers (rs_relay s) w) = envelope_wire (started w ls)"
  using assms by (auto simp: framed_def Let_def)

lemma framed_lookup:
  assumes "framed ls s w" "exclusive t" and h: "rs_handlers s v = Some h" "h_phase h = Reading"
    and t: "t = put_handler v (Some (h\<lparr>h_body := body, h_phase := Writing w env (envelope_writes env)\<rparr>)) s"
  shows "framed (ls @ [Forwarding w env]) t w"
proof (rule framedI)
  have new: "writes_to t v w env (envelope_writes env)"
    by (simp add: t)
  have alone: "\<not> writes_to s v' w env' cs" for v' env' cs
    using exclusiveD [OF assms(2) new, of v' env' cs] h by (cases "v' = v") (auto simp: t not_writes_to)
  show "\<exists>k. st_sent (writers (rs_relay t) w) = take k (envelope_wire (started w (ls @ [Forwarding w env])))"
    using framedD(1) [OF assms(1)] prefix_take_append by (fastforce simp: t)
  show "st_sent (writers (rs_relay t) w) @ concat cs = envelope_wire (started w (ls @ [Forwarding w env]))"
    if "st_broken (writers (rs_relay t) w) = None" "writes_to t v' w env' cs" for v' env' cs
    using that framedD(3) [OF assms(1)] alone by (auto simp: t split: if_splits)
  show "st_sent (writers (rs_relay t) w) = envelope_wire (started w (ls @ [Forwarding w env]))"
    if "\<nexists>v env cs. writes_to t v w env cs"
    using that new by blast
qed

lemma framed_chunk:
  assumes "framed ls s w" "exclusive s" and h: "rs_handlers s v = Some h" "h_phase h = Writing w env (c # cs)"
    and wr: "stream_write (writers (rs_relay s) w) c = (None, st)"
    and t: "t = put_handler v (Some (h\<lparr>h_phase := Writing w env cs\<rparr>)) (put_relay (set_writer w st (rs_relay s)) s)"
  shows "framed (ls @ [Silent]) t w"
proof (rule framedI)
  have old: "writes_to s v w env (c # cs)"
    using h by (simp add: writes_to_def)
  have st: "st_sent st = st_sent (writers (rs_relay s) w) @ c"
    and ok: "st_broken (writers (rs_relay s) w) = None"
    using wr by (auto simp: stream_write_def split: option.splits)
  have sent: "envelope_wire (started w ls) = st_sent st @ concat cs"
    using framedD(2) [OF assms(1) ok old] by (simp add: st)
  show "\<exists>k. st_sent (writers (rs_relay t) w) = take k (envelope_wire (started w (ls @ [Silent])))"
    by (intro exI [of _ "length (st_sent st)"]) (simp add: t sent)
  show "st_sent (writers (rs_relay t) w) @ concat cs' = envelope_wire (started w (ls @ [Silent]))"
    if "writes_to t v' w env' cs'" for v' env' cs'
    using that exclusiveD [OF assms(2) old] by (auto simp: t sent split: if_splits)
  show "st_sent (writers (rs_relay t) w) = envelope_wire (started w (ls @ [Silent]))"
    if "\<nexists>v env cs. writes_to t v w env cs"
    using that by (auto simp: t split: if_splits)
qed

lemma framed_flushed:
  assumes "framed ls s w" "exclusive s" and h: "rs_handlers s v = Some h" "h_phase h = Writing w env []"
    and t: "t = put_handler v (Some (h\<lparr>h_phase := Reading\<rparr>)) s"
  shows "framed (ls @ [Silent]) t w"
proof (rule framedI)
  have old: "writes_to s v w env []"
    using h by (simp add: writes_to_def)
  have none: "\<not> writes_to t v' w env' cs'" for v' env' cs'
    using exclusiveD [OF assms(2) old, of v' env' cs'] by (auto simp: t)
  show "\<exists>k. st_sent (writers (rs_relay t) w) = take k (envelope_wire (started w (ls @ [Silent])))"
    using framedD(1) [OF assms(1)] by (simp add: t)
  show "st_sent (writers (rs_relay t) w) = envelope_wire (started w (ls @ [Silent]))"
    if "st_broken (writers (rs_relay t) w) = None"
    using framedD(2) [OF assms(1) _ old] that by (simp add: t)
  show "st_sent (writers (rs_relay t) w) @ concat cs' = envelope_wire (started w (ls @ [Silent]))"
    if "writes_to t v' w env' cs'" for v' env' cs'
    using that none by blast
qed

lemma framed_step:
  assumes "relay_step s l t" "relay_inv s" "exclusive s" "exclusive t" "framed ls s w"
  shows "framed (ls @ [l]) t w"
  using assms(1)
proof (cases rule: relay_step.cases)
  case (connect v req p)
  then have "rs_handlers s v = None"
    using assms(2) unfolding relay_inv_def by (metis less_irrefl not_Some_eq)
  then show ?thesis
    using connect by (intro framed_other [OF assms(5)]) (auto simp: not_writes_to)
next
  case (lookup v h env body d)
  then show ?thesis
    using framed_lookup [OF assms(5,4)] framed_other [OF assms(5)]
    by (cases "d = w") (auto simp: not_writes_to)
next
  case (chunk v h d env c cs st)
  then show ?thesis
    using framed_chunk [OF assms(5,3)] framed_other [OF assms(5)]
    by (cases "d = w") (auto simp: writes_to_def)
next
  case (chunk_err v h d env c cs e st)
  then show ?thesis
    using framedD(1) [OF assms(5)] framed_other [OF assms(5)]
    by (cases "d = w") (auto simp: writes_to_def stream_write_def intro!: framedI split: option.splits)
next
  case (flushed v h d env)
  then show ?thesis
    using framed_flushed [OF assms(5,3)] framed_other [OF assms(5)]
    by (cases "d = w") (auto simp: writes_to_def)
next
  case (broken v e)
  then show ?thesis
    using framedD(1) [OF assms(5)] framed_other [OF assms(5)]
    by (cases "v = w") (auto intro!: framedI)
qed (intro framed_other [OF assms(5)]; auto simp: not_writes_to)+

lemma relay_run_framed: "relay_run_excl ls s \<Longrightarrow> framed ls s w"
proof (induction rule: relay_run_excl.induct)
  case init
  then show ?case
    by (simp add: framed_def writes_to_def relay_sys_init_def relay_New_def fresh_writer_def)
next
  case (step ls s l t)
  then show ?case
    by (intro framed_step [OF step.hyps(2)] relay_run_inv [OF relay_run_excl_run])
      (auto intro: relay_run_excl_exclusive)
qed

lemma started_wire: "relay_run ls s \<Longrightarrow> Forwarding w env \<in> set ls \<Longrightarrow> wire_envelope env"
  by (induction rule: relay_run.induct) (auto elim!: relay_step.cases dest: Decode_Inr)

section \<open>An executable scheduler\<close>

datatype relay_act = DoConnect http_request | DoRun nat | DoBreak nat io_err

definition relay_run_handler :: "nat \<Rightarrow> handler \<Rightarrow> relay_sys \<Rightarrow> relay_ev \<times> relay_sys" where
  "relay_run_handler w h s =
     (case h_phase h of
        Reading \<Rightarrow>
          (case envelope_Decode (h_body h) of
             (Inl e, body) \<Rightarrow> (Silent, put_handler w None (put_relay (unregister (h_peer h) (rs_relay s)) s))
           | (Inr env, body) \<Rightarrow>
               (case streams (rs_relay s) (DstPeerID env) of
                  None \<Rightarrow> (Silent, put_handler w (Some (h\<lparr>h_body := body\<rparr>)) s)
                | Some d \<Rightarrow> (Forwarding d env,
                    put_handler w (Some (h\<lparr>h_body := body, h_phase := Writing d env (envelope_writes env)\<rparr>)) s)))
      | Writing d env [] \<Rightarrow> (Silent, put_handler w (Some (h\<lparr>h_phase := Reading\<rparr>)) s)
      | Writing d env (c # cs) \<Rightarrow>
          (case stream_write (writers (rs_relay s) d) c of
             (e, st) \<Rightarrow> (Silent, put_handler w
               (Some (h\<lparr>h_phase := (case e of None \<Rightarrow> Writing d env cs | Some _ \<Rightarrow> Reading)\<rparr>))
               (put_relay (set_writer d st (rs_relay s)) s))))"

fun relay_do :: "relay_act \<Rightarrow> relay_sys \<Rightarrow> (relay_ev \<times> relay_sys) option" where
  "relay_do (DoConnect req) s =
     (if rq_Method req \<noteq> ''CONNECT'' \<or> rq_PeerID req = [] then None
      else case PeerIDFromBase64 (rq_PeerID req) of
        Inl _ \<Rightarrow> None
      | Inr p \<Rightarrow> Some (Connected (rs_next s) p,
          put_handler (rs_next s) (Some \<lparr>h_peer = p, h_body = rq_Body req, h_phase = Reading\<rparr>)
            (put_relay (register p (rs_next s) (rs_relay s)) (s\<lparr>rs_next := Suc (rs_next s)\<rparr>))))"
| "relay_do (DoRun w) s = map_option (\<lambda>h. relay_run_handler w h s) (rs_handlers s w)"
| "relay_do (DoBreak w e) s =
     Some (Silent, put_relay (set_writer w ((writers (rs_relay s) w)\<lparr>st_broken := Some e\<rparr>) (rs_relay s)) s)"

lemma relay_run_handler_step:
  assumes "rs_handlers s w = Some h" "relay_run_handler w h s = (l, t)"
  shows "relay_step s l t"
proof (cases "h_phase h")
  case Reading
  with assms show ?thesis
    by (auto simp: relay_run_handler_def split: prod.splits sum.splits option.splits intro: relay_step.intros)
next
  case (Writing d env cs)
  with assms show ?thesis
    by (cases cs) (auto simp: relay_run_handler_def split: prod.splits option.splits intro: relay_step.intros)
qed

lemma relay_do_step: "relay_do a s = Some (l, t) \<Longrightarrow> relay_step s l t"
  by (cases a) (auto split: if_splits sum.splits intro: relay_step.intros relay_run_handler_step)

lemma DoRun_ex:
  "rs_handlers s w = Some h \<Longrightarrow> relay_run_handler w h s = (l, t) \<Longrightarrow> \<exists>a. relay_do a s = Some (l, t)"
  by (rule exI [of _ "DoRun w"]) simp

lemma relay_step_do: "relay_step s l t \<Longrightarrow> \<exists>a. relay_do a s = Some (l, t)"
proof (induction rule: relay_step.induct)
  case (connect w s req p)
  then show ?case
    by (intro exI [of _ "DoConnect req"]) simp
next
  case (broken s w e)
  then show ?case
    by (intro exI [of _ "DoBreak w e"]) simp
qed (erule DoRun_ex, simp add: relay_run_handler_def)+

fun relay_exec :: "relay_act list \<Rightarrow> relay_ev list \<Rightarrow> relay_sys \<Rightarrow> (relay_ev list \<times> relay_sys) option" where
  "relay_exec [] ls s = Some (ls, s)"
| "relay_exec (a # as) ls s =
     (case relay_do a s of None \<Rightarrow> None | Some (l, t) \<Rightarrow> relay_exec as (ls @ [l]) t)"

lemma relay_exec_run: "relay_exec as ls s = Some (ls', t) \<Longrightarrow> relay_run ls s \<Longrightarrow> relay_run ls' t"
  by (induction as arbitrary: ls s)
    (auto split: option.splits dest: relay_do_step intro: relay_run.step)

lemma relay_exec_ex:
  assumes "case relay_exec as [] relay_sys_init of None \<Rightarrow> False | Some (ls, s) \<Rightarrow> P ls s"
  shows "\<exists>ls s. relay_run ls s \<and> P ls s"
  using assms relay_exec_run [OF _ relay_run.init] by (fastforce split: option.splits)

text \<open>The same with a check, in every state, that no two handlers write to the same destination.\<close>

definition dest_of :: "relay_sys \<Rightarrow> nat \<Rightarrow> nat option" where
  "dest_of s v =
     (case rs_handlers s v of
        None \<Rightarrow> None
      | Some h \<Rightarrow> (case h_phase h of Reading \<Rightarrow> None | Writing d _ _ \<Rightarrow> Some d))"

definition exclusive_upto :: "relay_sys \<Rightarrow> bool" where
  "exclusive_upto s \<longleftrightarrow>
     (let vs = [0..<rs_next s] in
      list_all (\<lambda>v. list_all (\<lambda>v'. v = v' \<or> dest_of s v = None \<or> dest_of s v \<noteq> dest_of s v') vs) vs)"

lemma exclusive_uptoD: "relay_inv s \<Longrightarrow> exclusive_upto s \<Longrightarrow> exclusive s"
  unfolding exclusive_def
proof (intro allI impI)
  fix d v env cs v' env' cs'
  assume inv: "relay_inv s" "exclusive_upto s" and w: "writes_to s v d env cs" "writes_to s v' d env' cs'"
  then have "dest_of s v = Some d" "dest_of s v' = Some d" "v < rs_next s" "v' < rs_next s"
    by (auto simp: dest_of_def writes_to_def relay_inv_def split: option.splits)
  then show "v = v'"
    using inv(2) by (fastforce simp: exclusive_upto_def list_all_iff)
qed

fun relay_exec_excl :: "relay_act list \<Rightarrow> relay_ev list \<Rightarrow> relay_sys \<Rightarrow> (relay_ev list \<times> relay_sys) option" where
  "relay_exec_excl [] ls s = Some (ls, s)"
| "relay_exec_excl (a # as) ls s =
     (case relay_do a s of
        None \<Rightarrow> None
      | Some (l, t) \<Rightarrow> if exclusive_upto t then relay_exec_excl as (ls @ [l]) t else None)"

lemma relay_exec_excl_run:
  "relay_exec_excl as ls s = Some (ls', t) \<Longrightarrow> relay_run_excl ls s \<Longrightarrow> relay_run_excl ls' t"
proof (induction as arbitrary: ls s)
  case (Cons a as)
  from Cons.prems(1) obtain l u where u: "relay_do a s = Some (l, u)" "exclusive_upto u"
    "relay_exec_excl as (ls @ [l]) u = Some (ls', t)"
    by (auto split: option.splits if_splits)
  have "relay_step s l u" "relay_inv s"
    using u(1) relay_do_step Cons.prems(2) relay_run_inv relay_run_excl_run by blast+
  then have "relay_run_excl (ls @ [l]) u"
    using Cons.prems(2) u(2) relay_step_inv exclusive_uptoD by (blast intro: relay_run_excl.step)
  with u(3) show ?case
    by (rule Cons.IH)
qed simp

lemma relay_exec_excl_ex:
  assumes "case relay_exec_excl as [] relay_sys_init of None \<Rightarrow> False | Some (ls, s) \<Rightarrow> P ls s"
  shows "\<exists>ls s. relay_run_excl ls s \<and> P ls s"
  using assms relay_exec_excl_run [OF _ relay_run_excl.init] by (fastforce split: option.splits)

definition sample_request :: "bytes \<Rightarrow> envelope list \<Rightarrow> http_request" where
  "sample_request b envs =
     \<lparr>rq_Method = ''CONNECT'', rq_PeerID = PeerID_String (peer_id_of b),
      rq_Body = \<lparr>rd_data = envelope_wire envs, rd_end = EOF\<rparr>\<rparr>"

section \<open>Properties\<close>

text \<open>
  C8: a CONNECT request of peer \<open>p\<close> that is served to its end answers 200 and adds to the stream
  of every connected peer exactly the frames of those envelopes of the request body that name it
  as destination, in the order in which they were sent and unmodified; a peer whose tunnel is
  broken gets nothing, and no other registration changes.
\<close>

theorem relay_forwards_by_destination:
  assumes "rq_Method req = ''CONNECT''" and "PeerIDFromBase64 (rq_PeerID req) = Inr p"
    and "rq_PeerID req \<noteq> []" and "relay_handleHTTP w True req r = (status, logs, r')"
  shows "status = 200 \<and> streams r' = (streams r)(p := None) \<and>
    st_sent (writers r' d) = st_sent (writers r d) @
      envelope_wire (filter (addressed (register p w r) d) (fst (decode_stream (rq_Body req))))"
  using assms relay_loop_sent [of p "rq_Body req" "register p w r" d]
  by (auto simp: relay_handleHTTP_def relay_handleConnect_def split: prod.splits)

theorem relay_forwards_by_destination_witness:
  "st_sent (writers (snd (snd (relay_handleHTTP 0 True
       \<lparr>rq_Method = ''CONNECT'', rq_PeerID = PeerID_String (peer_id_of [1]),
        rq_Body = \<lparr>rd_data = envelope_wire [sample_envelope], rd_end = EOF\<rparr>\<rparr>
       \<lparr>streams = [peer_id_of [2] \<mapsto> 5], writers = \<lambda>_. fresh_writer\<rparr>))) 5) = envelope_frame sample_envelope"
proof -
  let ?r = "\<lparr>streams = [peer_id_of [2] \<mapsto> 5], writers = \<lambda>_. fresh_writer\<rparr>"
  let ?req = "\<lparr>rq_Method = ''CONNECT'', rq_PeerID = PeerID_String (peer_id_of [1]),
    rq_Body = \<lparr>rd_data = envelope_wire [sample_envelope], rd_end = EOF\<rparr>\<rparr>"
  obtain status logs r' where h: "relay_handleHTTP 0 True ?req ?r = (status, logs, r')"
    by (metis surj_pair)
  have "peer_id_of [1] \<noteq> peer_id_of [2]"
    by code_simp
  then have "addressed (register (peer_id_of [1]) 0 ?r) 5 sample_envelope"
    by (simp add: addressed_def sample_envelope_def fresh_writer_def)
  moreover have "fst (decode_stream \<lparr>rd_data = envelope_wire [sample_envelope], rd_end = EOF\<rparr>) = [sample_envelope]"
    by code_simp
  ultimately show ?thesis
    using relay_forwards_by_destination [of ?req "peer_id_of [1]" 0 ?r status logs r' 5] h
    by (simp add: fresh_writer_def)
qed

text \<open>
  C9: envelopes never reach a third party: in every interleaving of the handlers, an envelope is
  written only to a stream that was opened by a request under the envelope's destination
  identity, and the stream that is registered for an identity belongs to a handler of that
  identity that is still running.
\<close>

theorem relay_isolation:
  assumes "relay_run ls s"
  shows "(Forwarding w env \<in> set ls \<longrightarrow> (\<forall>p. Connected w p \<in> set ls \<longleftrightarrow> p = DstPeerID env)) \<and>
    (streams (rs_relay s) p = Some w \<longrightarrow> (\<exists>h. rs_handlers s w = Some h \<and> h_peer h = p))"
  using Forwarding_Connected [OF assms] Connected_unique [OF assms] relay_run_inv [OF assms]
  by (auto simp: relay_inv_def)

theorem relay_isolation_witness:
  "\<exists>ls s. relay_run ls s \<and> Forwarding 0 sample_envelope \<in> set ls \<and> Connected 0 (peer_id_of [2]) \<in> set ls"
proof -
  have "\<exists>ls s. relay_run ls s \<and> started 0 ls = [sample_envelope]"
    by (rule relay_exec_ex [where as = "[DoConnect (sample_request [2] []),
        DoConnect (sample_request [1] [sample_envelope]), DoRun 1]"]) code_simp
  then obtain ls s where s: "relay_run ls s" "Forwarding 0 sample_envelope \<in> set ls"
    by (metis list.set_intros(1) started_member)
  moreover have "DstPeerID sample_envelope = peer_id_of [2]"
    by (simp add: sample_envelope_def)
  ultimately show ?thesis
    using relay_isolation [OF s(1), of 0 sample_envelope] by metis
qed

text \<open>
  C10: as long as no two handlers are inside \<open>Encode\<close> for the same destination at the same time,
  what a receiver sees is a prefix of the frames that were forwarded to it; when no handler is
  writing and the tunnel is intact, it decodes exactly the forwarded envelopes, in order.
\<close>

theorem relay_serialised_streams:
  assumes "relay_run_excl ls s"
  shows "(\<exists>k. st_sent (writers (rs_relay s) w) = take k (envelope_wire (started w ls))) \<and>
    (st_broken (writers (rs_relay s) w) = None \<longrightarrow> (\<nexists>v env cs. writes_to s v w env cs) \<longrightarrow>
       fst (decode_stream \<lparr>rd_data = st_sent (writers (rs_relay s) w), rd_end = e\<rparr>) = started w ls)"
proof -
  have "\<forall>env \<in> set (started w ls). wire_envelope env"
    using started_wire [OF relay_run_excl_run [OF assms]] by (simp add: started_member)
  then have "fst (decode_stream \<lparr>rd_data = envelope_wire (started w ls), rd_end = e\<rparr>) = started w ls"
    using decode_stream_all by simp
  then show ?thesis
    using relay_run_framed [OF assms] framedD(1,3) by metis
qed

theorem relay_serialised_streams_witness:
  "\<exists>ls s k. relay_run_excl ls s \<and> started 0 ls = [sample_envelope, sample_envelope] \<and>
     st_sent (writers (rs_relay s) 0) = take k (envelope_wire [sample_envelope, sample_envelope]) \<and>
     length (st_sent (writers (rs_relay s) 0)) = 150"
proof -
  have "\<exists>ls s. relay_run_excl ls s \<and> started 0 ls = [sample_envelope, sample_envelope] \<and>
     length (st_sent (writers (rs_relay s) 0)) = 150"
    by (rule relay_exec_excl_ex [where as = "[DoConnect (sample_request [2] []), DoConnect (sample_request [1] [sample_envelope]),
        DoConnect (sample_request [3] [sample_envelope]), DoRun 1, DoRun 1, DoRun 1, DoRun 1, DoRun 2, DoRun 2]"])
      code_simp
  then obtain ls s where s: "relay_run_excl ls s" "started 0 ls = [sample_envelope, sample_envelope]"
    "length (st_sent (writers (rs_relay s) 0)) = 150"
    by blast
  with relay_serialised_streams [OF s(1), of 0 EOF] show ?thesis
    by (metis s)
qed

text \<open>
  C39: two handlers that forward to the same peer at the same time corrupt its stream: there is a
  run in which two envelopes are written completely to an intact tunnel and the receiver decodes,
  as the first of them, an envelope that nobody sent (\<open>Encode\<close> issues two \<open>Write\<close> calls and
  \<open>forward\<close> holds no lock around them).
\<close>

theorem relay_interleaving_corrupts:
  "\<exists>ls s. relay_run ls s \<and>
     map (\<lambda>v. map_option h_phase (rs_handlers s v)) [0, 1, 2] = [Some Reading, Some Reading, Some Reading] \<and>
     st_broken (writers (rs_relay s) 0) = None \<and> started 0 ls = [sample_envelope, sample_envelope] \<and>
     Payload sample_envelope = [0xde, 0xad] \<and>
     fst (envelope_Decode \<lparr>rd_data = st_sent (writers (rs_relay s) 0), rd_end = EOF\<rparr>) =
       Inr (sample_envelope\<lparr>Payload := [1, 0]\<rparr>)"
  by (rule relay_exec_ex [where as = "[DoConnect (sample_request [2] []), DoConnect (sample_request [1] [sample_envelope]),
      DoConnect (sample_request [3] [sample_envelope]), DoRun 1, DoRun 2, DoRun 1, DoRun 2, DoRun 1, DoRun 2, DoRun 1, DoRun 2]"])
    code_simp

text \<open>
  C40: a peer that reconnects before the relay has noticed the end of its old tunnel becomes
  unreachable: the old handler's \<open>unregister\<close> removes the registration of the new one, which
  keeps running (\<open>unregister\<close> deletes by identity and does not compare the writer).
\<close>

theorem relay_stale_disconnect:
  "\<exists>ls s. relay_run ls s \<and> map_option h_peer (rs_handlers s 1) = Some (peer_id_of [2]) \<and>
     st_broken (writers (rs_relay s) 1) = None \<and>
     fst (forward sample_envelope (rs_relay s)) = Some (PeerNotConnected (peer_id_of [2]))"
  by (rule relay_exec_ex [where as = "[DoConnect (sample_request [2] []), DoConnect (sample_request [2] []), DoRun 0]"])
    code_simp

text \<open>
  A handler can be inside \<open>Encode\<close> with a response writer whose own handler has returned,
  which the contract of \<open>http.ResponseWriter\<close> forbids: the destination disconnects between the
  lookup and the write.
\<close>

theorem relay_writes_after_return:
  "\<exists>ls s. relay_run ls s \<and> rs_handlers s 0 = None \<and>
     map_option h_phase (rs_handlers s 1) = Some (Writing 0 sample_envelope (envelope_writes sample_envelope))"
  by (rule relay_exec_ex [where as = "[DoConnect (sample_request [2] []), DoConnect (sample_request [1] [sample_envelope]),
      DoRun 1, DoRun 0]"])
    code_simp

end
