(* ===== verification/Netip.thy ===== *)
theory Netip
  imports Prelude
begin

text \<open>
  The parts of Go's \<open>net/netip\<close> that the program uses: addresses of both families, prefixes and
  their \<open>Contains\<close>, address-and-port pairs, and the parser and printer of their text forms. An
  IPv6 address that maps an IPv4 one stays an IPv6 address until \<open>Unmap\<close>.
\<close>

section \<open>Addresses\<close>

type_synonym u128 = "128 word"

datatype addr = AddrZero | Addr4 u32 | Addr6 u128 string

fun be_word :: "bytes \<Rightarrow> u128" where
  "be_word [] = 0"
| "be_word (b # bs) = push_bit (8 * length bs) (ucast b) OR be_word bs"

definition AddrFrom4 :: "bytes \<Rightarrow> addr" where
  "AddrFrom4 bs = Addr4 (Uint32 bs)"

definition AddrFrom16 :: "bytes \<Rightarrow> addr" where
  "AddrFrom16 bs = Addr6 (be_word bs) []"

definition AddrFromSlice :: "bytes \<Rightarrow> addr option" where
  "AddrFromSlice bs =
     (if length bs = 4 then Some (AddrFrom4 bs)
      else if length bs = 16 then Some (AddrFrom16 bs)
      else None)"

fun Is4 :: "addr \<Rightarrow> bool" where
  "Is4 (Addr4 _) = True"
| "Is4 _ = False"

fun Is6 :: "addr \<Rightarrow> bool" where
  "Is6 (Addr6 _ _) = True"
| "Is6 _ = False"

fun Is4In6 :: "addr \<Rightarrow> bool" where
  "Is4In6 (Addr6 a _) \<longleftrightarrow> drop_bit 32 a = 0xffff"
| "Is4In6 _ = False"

fun Unmap :: "addr \<Rightarrow> addr" where
  "Unmap (Addr6 a z) = (if drop_bit 32 a = 0xffff then Addr4 (ucast a) else Addr6 a z)"
| "Unmap ip = ip"

fun BitLen :: "addr \<Rightarrow> nat" where
  "BitLen AddrZero = 0"
| "BitLen (Addr4 _) = 32"
| "BitLen (Addr6 _ _) = 128"

fun hasZone :: "addr \<Rightarrow> bool" where
  "hasZone (Addr6 _ z) \<longleftrightarrow> z \<noteq> []"
| "hasZone _ = False"

fun WithoutZone :: "addr \<Rightarrow> addr" where
  "WithoutZone (Addr6 a _) = Addr6 a []"
| "WithoutZone ip = ip"

section \<open>Prefixes\<close>

text \<open>\<open>None\<close> for the number of bits of an invalid prefix.\<close>

record prefix =
  pf_ip :: addr
  pf_bits :: "nat option"

definition PrefixFrom :: "addr \<Rightarrow> int \<Rightarrow> prefix" where
  "PrefixFrom ip n =
     \<lparr>pf_ip = WithoutZone ip,
      pf_bits = (if ip \<noteq> AddrZero \<and> 0 \<le> n \<and> n \<le> int (BitLen ip) then Some (nat n) else None)\<rparr>"

definition prefix_IsValid :: "prefix \<Rightarrow> bool" where
  "prefix_IsValid p \<longleftrightarrow> pf_bits p \<noteq> None"

definition prefix_Contains :: "prefix \<Rightarrow> addr \<Rightarrow> bool" where
  "prefix_Contains p ip \<longleftrightarrow>
     (case pf_bits p of
        None \<Rightarrow> False
      | Some n \<Rightarrow>
          \<not> hasZone ip \<and>
          (case (pf_ip p, ip) of
             (Addr4 a, Addr4 b) \<Rightarrow> drop_bit (32 - n) (b XOR a) = 0
           | (Addr6 a _, Addr6 b _) \<Rightarrow> (b XOR a) AND push_bit (128 - n) (mask n) = 0
           | _ \<Rightarrow> False))"

record addrport =
  ap_addr :: addr
  ap_port :: u16

section \<open>Prefixes as sets of addresses\<close>

text \<open>The reference meaning of a prefix: same family and the same leading bits.\<close>

fun leading_bit :: "addr \<Rightarrow> nat \<Rightarrow> bool" where
  "leading_bit (Addr4 a) i = bit a (31 - i)"
| "leading_bit (Addr6 a _) i = bit a (127 - i)"
| "leading_bit AddrZero i = False"

lemma leading_reindex:
  assumes "n \<le> w"
  shows "(\<forall>i < n. P (w - 1 - i)) \<longleftrightarrow> (\<forall>k. w - n \<le> k \<longrightarrow> k < w \<longrightarrow> P (k :: nat))"
proof
  assume h: "\<forall>i < n. P (w - 1 - i)"
  show "\<forall>k. w - n \<le> k \<longrightarrow> k < w \<longrightarrow> P k"
  proof (intro allI impI)
    fix k
    assume "w - n \<le> k" "k < w"
    then have "w - 1 - k < n" "w - 1 - (w - 1 - k) = k"
      using assms by arith+
    then show "P k"
      using h by metis
  qed
next
  assume h: "\<forall>k. w - n \<le> k \<longrightarrow> k < w \<longrightarrow> P k"
  show "\<forall>i < n. P (w - 1 - i)"
    using assms by (intro allI impI, intro h [rule_format]) auto
qed

lemma drop_bit_zero_iff: "drop_bit m (x :: u32) = 0 \<longleftrightarrow> (\<forall>k. m \<le> k \<longrightarrow> k < 32 \<longrightarrow> \<not> bit x k)"
proof
  assume z: "drop_bit m x = 0"
  show "\<forall>k. m \<le> k \<longrightarrow> k < 32 \<longrightarrow> \<not> bit x k"
  proof (intro allI impI)
    fix k
    assume "m \<le> k"
    then have "bit x k = bit (drop_bit m x) (k - m)"
      by (simp add: bit_drop_bit_eq)
    then show "\<not> bit x k"
      by (simp add: z)
  qed
next
  assume h: "\<forall>k. m \<le> k \<longrightarrow> k < 32 \<longrightarrow> \<not> bit x k"
  have "\<not> bit x (m + k)" for k
    using h bit_imp_le_length [of x "m + k"] by (cases "m + k < 32") auto
  then show "drop_bit m x = 0"
    by (intro bit_word_eqI) (simp add: bit_drop_bit_eq)
qed

lemma and_high_mask_zero_iff:
  "(x :: u128) AND push_bit m (mask n) = 0 \<longleftrightarrow> (\<forall>k. m \<le> k \<longrightarrow> k < m + n \<longrightarrow> k < 128 \<longrightarrow> \<not> bit x k)"
proof
  assume z: "x AND push_bit m (mask n) = 0"
  show "\<forall>k. m \<le> k \<longrightarrow> k < m + n \<longrightarrow> k < 128 \<longrightarrow> \<not> bit x k"
  proof (intro allI impI notI)
    fix k
    assume "m \<le> k" "k < m + n" "k < 128" "bit x k"
    then have "bit (x AND push_bit m (mask n)) k"
      by (auto simp: bit_simps)
    then show False
      by (simp add: z)
  qed
next
  assume h: "\<forall>k. m \<le> k \<longrightarrow> k < m + n \<longrightarrow> k < 128 \<longrightarrow> \<not> bit x k"
  show "x AND push_bit m (mask n) = 0"
    by (rule bit_word_eqI) (use h in \<open>auto simp: bit_simps\<close>)
qed

lemma xor_leading4:
  assumes "n \<le> 32"
  shows "drop_bit (32 - n) ((b :: u32) XOR a) = 0 \<longleftrightarrow> (\<forall>i < n. bit b (31 - i) = bit a (31 - i))"
  unfolding drop_bit_zero_iff bit_xor_iff
  using leading_reindex [OF assms, of "\<lambda>k. bit b k = bit a k"] by simp

lemma xor_leading6:
  assumes "n \<le> 128"
  shows "((b :: u128) XOR a) AND push_bit (128 - n) (mask n) = 0 \<longleftrightarrow> (\<forall>i < n. bit b (127 - i) = bit a (127 - i))"
  unfolding and_high_mask_zero_iff bit_xor_iff
  using leading_reindex [OF assms, of "\<lambda>k. bit b k = bit a k"] assms by simp

lemma Contains_leading_bits:
  assumes "pf_bits p = Some n" "n \<le> BitLen (pf_ip p)"
  shows "prefix_Contains p ip \<longleftrightarrow>
    \<not> hasZone ip \<and> BitLen ip = BitLen (pf_ip p) \<and> pf_ip p \<noteq> AddrZero \<and>
    (\<forall>i < n. leading_bit ip i = leading_bit (pf_ip p) i)"
  using assms
  by (cases "pf_ip p"; cases ip) (simp_all add: prefix_Contains_def xor_leading4 xor_leading6 del: drop_bit_xor)

text \<open>The prefixes that the constructors make: a length within the family's.\<close>

definition wf_prefix :: "prefix \<Rightarrow> bool" where
  "wf_prefix p \<longleftrightarrow> (case pf_bits p of None \<Rightarrow> True | Some n \<Rightarrow> n \<le> BitLen (pf_ip p))"

lemma BitLen_WithoutZone [simp]: "BitLen (WithoutZone ip) = BitLen ip"
  by (cases ip) auto

lemma wf_PrefixFrom [simp]: "wf_prefix (PrefixFrom ip n)"
  by (auto simp: wf_prefix_def PrefixFrom_def)

section \<open>Decimal numbers\<close>

definition digit :: "nat \<Rightarrow> char" where
  "digit n = char_of (48 + n)"

definition digit_val :: "char \<Rightarrow> nat option" where
  "digit_val c = (let n = of_char c :: nat in if 48 \<le> n \<and> n \<le> 57 then Some (n - 48) else None)"

fun dec :: "nat \<Rightarrow> string" where
  "dec n = (if n < 10 then [digit n] else dec (n div 10) @ [digit (n mod 10)])"

declare dec.simps [simp del]

text \<open>Digits only, at least one, with a bound, as \<open>strconv.ParseUint(s, 10, bits)\<close>.\<close>

fun parse_digits :: "string \<Rightarrow> int \<Rightarrow> int option" where
  "parse_digits [] acc = Some acc"
| "parse_digits (c # cs) acc =
     (case digit_val c of None \<Rightarrow> None | Some d \<Rightarrow> parse_digits cs (acc * 10 + int d))"

definition ParseUint :: "nat \<Rightarrow> string \<Rightarrow> int option" where
  "ParseUint bits s =
     (if s = [] then None
      else case parse_digits s 0 of None \<Rightarrow> None | Some n \<Rightarrow> if n < 2 ^ bits then Some n else None)"

section \<open>Text forms: parsing\<close>

fun parseIPv4Fields :: "string \<Rightarrow> nat \<Rightarrow> nat \<Rightarrow> bytes \<Rightarrow> bytes option" where
  "parseIPv4Fields [] val digLen flds =
     (if length flds < 3 then None else Some (flds @ [of_nat val]))"
| "parseIPv4Fields (c # cs) val digLen flds =
     (case digit_val c of
        Some d \<Rightarrow>
          (if digLen = 1 \<and> val = 0 then None
           else if val * 10 + d > 255 then None
           else parseIPv4Fields cs (val * 10 + d) (Suc digLen) flds)
      | None \<Rightarrow>
          (if c = CHR ''.'' then
             (if digLen = 0 \<or> cs = [] then None
              else if length flds = 3 then None
              else parseIPv4Fields cs 0 0 (flds @ [of_nat val]))
           else None))"

definition hex_val :: "char \<Rightarrow> nat option" where
  "hex_val c =
     (let n = of_char c :: nat in
      if 48 \<le> n \<and> n \<le> 57 then Some (n - 48)
      else if 97 \<le> n \<and> n \<le> 102 then Some (n - 87)
      else if 65 \<le> n \<and> n \<le> 70 then Some (n - 55)
      else None)"

text \<open>One group of at most four hexadecimal digits: its value, its length and the rest.\<close>

fun parse_hex_group :: "string \<Rightarrow> nat \<Rightarrow> nat \<Rightarrow> (nat \<times> nat \<times> string) option" where
  "parse_hex_group [] acc off = Some (acc, off, [])"
| "parse_hex_group (c # cs) acc off =
     (case hex_val c of
        None \<Rightarrow> Some (acc, off, c # cs)
      | Some d \<Rightarrow> if off > 3 then None else parse_hex_group cs (acc * 16 + d) (Suc off))"

lemma parse_hex_group_length:
  "parse_hex_group s acc off = Some (v, n, rest) \<Longrightarrow> length rest + n = length s + off \<and> off \<le> n"
  by (induction s acc off rule: parse_hex_group.induct) (fastforce split: option.splits if_splits)+

text \<open>
  The loop of \<open>parseIPv6\<close>: the bytes so far, the position of the \<open>::\<close>, and the rest of the text.
  It returns the bytes, the position and what was not consumed.
\<close>

function parseIPv6_loop :: "string \<Rightarrow> bytes \<Rightarrow> nat option \<Rightarrow> (bytes \<times> nat option \<times> string) option" where
  "parseIPv6_loop s ip ellipsis =
     (if length ip \<ge> 16 then Some (ip, ellipsis, s)
      else case parse_hex_group s 0 0 of
        None \<Rightarrow> None
      | Some (acc, off, rest) \<Rightarrow>
          if off = 0 then None
          else if rest \<noteq> [] \<and> hd rest = CHR ''.'' then
            (if (ellipsis = None \<and> length ip \<noteq> 12) \<or> length ip + 4 > 16 then None
             else case parseIPv4Fields s 0 0 [] of
               None \<Rightarrow> None
             | Some fs \<Rightarrow> Some (ip @ fs, ellipsis, []))
          else
            (let ip' = ip @ [of_nat (acc div 256), of_nat acc] in
             if rest = [] then Some (ip', ellipsis, [])
             else if hd rest \<noteq> CHR '':'' then None
             else if length rest = 1 then None
             else if hd (tl rest) = CHR '':'' then
               (if ellipsis \<noteq> None then None
                else if tl (tl rest) = [] then Some (ip', Some (length ip'), [])
                else parseIPv6_loop (tl (tl rest)) ip' (Some (length ip')))
             else parseIPv6_loop (tl rest) ip' ellipsis))"
  by pat_completeness auto
termination
  by (relation "measure (\<lambda>(s, _, _). length s)")
    (auto dest: parse_hex_group_length simp: neq_Nil_conv)

declare parseIPv6_loop.simps [simp del]

definition parseIPv6_bytes :: "string \<Rightarrow> bytes option" where
  "parseIPv6_bytes s =
     (let lead = (length s \<ge> 2 \<and> s ! 0 = CHR '':'' \<and> s ! 1 = CHR '':'');
          s' = (if lead then drop 2 s else s)
      in if lead \<and> s' = [] then Some (replicate 16 0)
         else case parseIPv6_loop s' [] (if lead then Some 0 else None) of
           None \<Rightarrow> None
         | Some (ip, ellipsis, rest) \<Rightarrow>
             if rest \<noteq> [] then None
             else if length ip < 16 then
               (case ellipsis of
                  None \<Rightarrow> None
                | Some e \<Rightarrow> Some (take e ip @ replicate (16 - length ip) 0 @ drop e ip))
             else if ellipsis \<noteq> None then None
             else Some ip)"

definition parseIPv6 :: "string \<Rightarrow> addr option" where
  "parseIPv6 s =
     (let addrpart = takeWhile (\<lambda>c. c \<noteq> CHR ''%'') s;
          zonepart = dropWhile (\<lambda>c. c \<noteq> CHR ''%'') s
      in if length zonepart = 1 then None
         else map_option (\<lambda>bs. Addr6 (be_word bs) (tl zonepart)) (parseIPv6_bytes addrpart))"

definition ParseAddr :: "string \<Rightarrow> addr option" where
  "ParseAddr s =
     (case dropWhile (\<lambda>c. c \<notin> set ''.:%'') s of
        [] \<Rightarrow> None
      | c # _ \<Rightarrow>
          if c = CHR ''.'' then map_option AddrFrom4 (parseIPv4Fields s 0 0 [])
          else if c = CHR '':'' then parseIPv6 s
          else None)"

text \<open>\<open>bytealg.LastIndexByteString\<close>: the text before and after the last occurrence.\<close>

definition split_last :: "char \<Rightarrow> string \<Rightarrow> (string \<times> string) option" where
  "split_last c s =
     (if c \<in> set s
      then Some (rev (tl (dropWhile (\<lambda>x. x \<noteq> c) (rev s))), rev (takeWhile (\<lambda>x. x \<noteq> c) (rev s)))
      else None)"

definition ParseAddrPort :: "string \<Rightarrow> addrport option" where
  "ParseAddrPort s =
     (case split_last CHR '':'' s of
        None \<Rightarrow> None
      | Some (ip, port) \<Rightarrow>
          if ip = [] \<or> port = [] then None
          else if hd ip = CHR ''['' \<and> (length ip < 2 \<or> last ip \<noteq> CHR '']'') then None
          else
            (let v6 = (hd ip = CHR ''['');
                 ip' = (if v6 then butlast (tl ip) else ip)
             in case (ParseUint 16 port, ParseAddr ip') of
                  (Some n, Some a) \<Rightarrow>
                    (if v6 \<and> Is4 a then None
                     else if \<not> v6 \<and> Is6 a then None
                     else Some \<lparr>ap_addr = a, ap_port = of_int n\<rparr>)
                | _ \<Rightarrow> None))"

definition ParsePrefix :: "string \<Rightarrow> prefix option" where
  "ParsePrefix s =
     (case split_last CHR ''/'' s of
        None \<Rightarrow> None
      | Some (ipStr, bitsStr) \<Rightarrow>
          (case ParseAddr ipStr of
             None \<Rightarrow> None
           | Some ip \<Rightarrow>
               if hasZone ip then None
               else if length bitsStr > 1 \<and> hd bitsStr \<notin> set ''123456789'' then None
               else case ParseUint 63 bitsStr of
                 None \<Rightarrow> None
               | Some n \<Rightarrow> if n > int (BitLen ip) then None else Some (PrefixFrom ip n)))"

section \<open>Text forms: printing\<close>

definition addr4_String :: "u32 \<Rightarrow> string" where
  "addr4_String a =
     dec (unat (drop_bit 24 a AND 255)) @ ''.'' @ dec (unat (drop_bit 16 a AND 255)) @ ''.'' @
     dec (unat (drop_bit 8 a AND 255)) @ ''.'' @ dec (unat (a AND 255))"

definition hex_digit :: "int \<Rightarrow> char" where
  "hex_digit k = (if k < 10 then digit (nat k) else char_of (87 + nat k))"

text \<open>\<open>appendHex\<close> of a 16-bit group: no leading zeros.\<close>

definition hex :: "int \<Rightarrow> string" where
  "hex n =
     (if n \<ge> 4096 then [hex_digit (n div 4096)] else []) @ (if n \<ge> 256 then [hex_digit (n div 256 mod 16)] else []) @
     (if n \<ge> 16 then [hex_digit (n div 16 mod 16)] else []) @ [hex_digit (n mod 16)]"

definition addr6_groups :: "u128 \<Rightarrow> int list" where
  "addr6_groups a = map (\<lambda>i. uint (drop_bit (16 * (7 - i)) a AND 0xffff)) [0..<8]"

text \<open>The first longest run of at least two zero groups: its start and length (0 for none).\<close>

definition zero_run :: "int list \<Rightarrow> nat \<times> nat" where
  "zero_run gs =
     foldl (\<lambda>(st, len) i. let l = length (takeWhile (\<lambda>g. g = 0) (drop i gs))
                           in if l \<ge> 2 \<and> l > len then (i, l) else (st, len)) (8, 0) [0..<8]"

fun hex_groups :: "int list \<Rightarrow> string" where
  "hex_groups [] = []"
| "hex_groups [g] = hex g"
| "hex_groups (g # gs) = hex g @ '':'' @ hex_groups gs"

fun Addr_String :: "addr \<Rightarrow> string" where
  "Addr_String AddrZero = ''invalid IP''"
| "Addr_String (Addr4 a) = addr4_String a"
| "Addr_String (Addr6 a z) =
     (let gs = addr6_groups a;
          (st, len) = zero_run gs;
          body = (if drop_bit 32 a = 0xffff then ''::ffff:'' @ addr4_String (ucast a)
                  else if len = 0 then hex_groups gs
                  else hex_groups (take st gs) @ ''::'' @ hex_groups (drop (st + len) gs))
      in body @ (if z = [] then [] else ''%'' @ z))"

definition AddrPort_String :: "addrport \<Rightarrow> string" where
  "AddrPort_String ap =
     (case ap_addr ap of
        AddrZero \<Rightarrow> ''invalid AddrPort''
      | Addr4 a \<Rightarrow> addr4_String a @ '':'' @ dec (unat (ap_port ap))
      | Addr6 a z \<Rightarrow> ''['' @ Addr_String (Addr6 a z) @ '']:'' @ dec (unat (ap_port ap)))"

section \<open>Round trip\<close>

lemma digit_val_digit [simp]: "n < 10 \<Longrightarrow> digit_val (digit n) = Some n"
  by (simp add: digit_val_def digit_def Let_def)

lemma digit_neq [simp]:
  assumes "n < 10"
  shows "digit n \<noteq> CHR ''.''" "digit n \<noteq> CHR '':''" "digit n \<noteq> CHR ''[''" "digit n \<noteq> CHR ''%''"
proof -
  have "digit_val CHR ''.'' = None" "digit_val CHR '':'' = None" "digit_val CHR ''['' = None" "digit_val CHR ''%'' = None"
    by (simp_all add: digit_val_def)
  with digit_val_digit [OF assms]
  show "digit n \<noteq> CHR ''.''" "digit n \<noteq> CHR '':''" "digit n \<noteq> CHR ''[''" "digit n \<noteq> CHR ''%''"
    by (metis option.distinct(1))+
qed

lemma dec_digits: "c \<in> set (dec n) \<Longrightarrow> \<exists>d < 10. c = digit d"
proof (induction n rule: dec.induct)
  case (1 n)
  show ?case
  proof (cases "n < 10")
    case True
    then have "c = digit n"
      using "1.prems" by (subst (asm) dec.simps) simp
    with True show ?thesis by blast
  next
    case False
    then have "c \<in> set (dec (n div 10)) \<or> c = digit (n mod 10)"
      using "1.prems" by (subst (asm) dec.simps) auto
    moreover have "n mod 10 < 10"
      by simp
    ultimately show ?thesis
      using "1.IH" [OF False] by blast
  qed
qed

lemma dec_nonempty [simp]: "dec n \<noteq> []"
  by (subst dec.simps) simp

lemma parse_digits_append:
  "parse_digits (xs @ ys) acc = (case parse_digits xs acc of None \<Rightarrow> None | Some a \<Rightarrow> parse_digits ys a)"
  by (induction xs acc rule: parse_digits.induct) (auto split: option.splits)

lemma parse_digits_dec: "parse_digits (dec n) 0 = Some (int n)"
proof (induction n rule: dec.induct)
  case (1 n)
  then show ?case
    by (subst dec.simps) (auto simp: parse_digits_append zdiv_int zmod_int)
qed

lemma ParseUint_dec: "n < 2 ^ bits \<Longrightarrow> ParseUint bits (dec n) = Some (int n)"
  by (simp add: ParseUint_def parse_digits_dec)

lemma parse4_dec:
  assumes "v \<le> 255"
  shows "parseIPv4Fields (dec v @ rest) 0 0 fs = parseIPv4Fields rest v (length (dec v)) fs"
proof -
  consider "v < 10" | "10 \<le> v" "v < 100" | "100 \<le> v"
    by linarith
  then show ?thesis
  proof cases
    case 1
    then show ?thesis by (subst (1 2) dec.simps) simp
  next
    case 2
    then have "v div 10 < 10" "v div 10 \<noteq> 0" "v div 10 * 10 + v mod 10 = v"
      by auto
    moreover have "dec v = [digit (v div 10), digit (v mod 10)]"
      using 2 by (subst dec.simps, subst dec.simps) auto
    ultimately show ?thesis
      using assms by simp
  next
    case 3
    have q: "v div 100 = v div 10 div 10"
      by (simp add: div_mult2_eq [symmetric])
    have d: "v div 100 < 10" "v div 100 \<noteq> 0" "v div 100 * 10 + v div 10 mod 10 = v div 10" "v div 10 * 10 + v mod 10 = v"
      using assms 3 by (auto simp: q)
    moreover have "dec v = [digit (v div 100), digit (v div 10 mod 10), digit (v mod 10)]"
      using 3 assms by (subst dec.simps, subst dec.simps, subst dec.simps) (auto simp: div_mult2_eq [symmetric])
    moreover have "v div 10 \<le> 255"
      using assms by linarith
    ultimately show ?thesis
      using assms by simp
  qed
qed

lemma octet: "unat (x AND 255 :: u32) \<le> 255" "(ucast (x AND 255) :: byte) = ucast (x :: u32)"
proof -
  have eq: "x AND 255 = take_bit 8 x"
    by (simp add: take_bit_eq_mask mask_eq_exp_minus_1)
  have "unat (take_bit 8 x) < 2 ^ 8"
    by (simp only: unsigned_take_bit_eq take_bit_nat_less_exp)
  then show "unat (x AND 255) \<le> 255"
    by (simp add: eq)
  show "(ucast (x AND 255) :: byte) = ucast x"
    unfolding eq by (rule bit_word_eqI) (simp add: bit_simps)
qed

lemma parse4_dec_last: "v \<le> 255 \<Longrightarrow> parseIPv4Fields (dec v) 0 0 fs = parseIPv4Fields [] v (length (dec v)) fs"
  using parse4_dec [of v "[]" fs] by simp

lemma parse4_String: "parseIPv4Fields (addr4_String a) 0 0 [] = Some (PutUint32 a)"
  by (simp add: addr4_String_def parse4_dec parse4_dec_last octet PutUint32_def digit_val_def)

lemma no_digit_before: "dropWhile (\<lambda>c. c \<notin> set ''.:%'') (dec n @ ''.'' @ rest) = ''.'' @ rest"
proof -
  have "\<forall>c \<in> set (dec n). c \<notin> set ''.:%''"
    using dec_digits digit_neq by fastforce
  then show ?thesis
    by (simp add: dropWhile_append3 dropWhile_append2)
qed

lemma ParseAddr_String4: "ParseAddr (addr4_String a) = Some (Addr4 a)"
proof -
  have "\<exists>rest. dropWhile (\<lambda>c. c \<notin> set ''.:%'') (addr4_String a) = ''.'' @ rest"
    using no_digit_before by (simp add: addr4_String_def)
  then show ?thesis
    by (auto simp: ParseAddr_def parse4_String AddrFrom4_def)
qed

lemma split_last_append: "c \<notin> set ys \<Longrightarrow> split_last c (xs @ c # ys) = Some (xs, ys)"
  by (auto simp: split_last_def takeWhile_append dropWhile_append3 dropWhile_append)

lemma addr4_String_shape: "addr4_String a \<noteq> []" "hd (addr4_String a) \<noteq> CHR ''[''"
proof -
  let ?n = "unat (drop_bit 24 a AND 255)"
  have "hd (dec ?n) \<in> set (dec ?n)"
    by (rule hd_in_set) simp
  then show "addr4_String a \<noteq> []" "hd (addr4_String a) \<noteq> CHR ''[''"
    using dec_digits digit_neq by (fastforce simp: addr4_String_def)+
qed

lemma ParseAddrPort_String4:
  "ParseAddrPort (AddrPort_String \<lparr>ap_addr = Addr4 a, ap_port = p\<rparr>) = Some \<lparr>ap_addr = Addr4 a, ap_port = p\<rparr>"
proof -
  have "CHR '':'' \<notin> set (dec (unat p))"
    by (metis dec_digits digit_neq(2))
  moreover have "unat p < 2 ^ 16"
    using unsigned_less [of p] by simp
  ultimately have "split_last CHR '':'' (addr4_String a @ CHR '':'' # dec (unat p)) = Some (addr4_String a, dec (unat p))"
    "ParseUint 16 (dec (unat p)) = Some (uint p)"
    by (simp_all only: split_last_append ParseUint_dec not_False_eq_True uint_nat)
  then show ?thesis
    by (simp add: AddrPort_String_def ParseAddrPort_def addr4_String_shape ParseAddr_String4)
qed

text \<open>An IPv6 address is printed in brackets, and what is read from brackets is one.\<close>

lemma ParseAddr_family: "ParseAddr s = Some a \<Longrightarrow> Is4 a \<or> Is6 a"
  by (auto simp: ParseAddr_def AddrFrom4_def parseIPv6_def Let_def split: list.splits if_splits)

lemma ParseAddrPort_bracketed:
  assumes "ParseAddrPort (CHR ''['' # s @ CHR '']'' # CHR '':'' # dec n) = Some ap"
  shows "Is6 (ap_addr ap)"
proof -
  let ?ip = "CHR ''['' # s @ '']''"
  have "CHR '':'' \<notin> set (dec n)"
    by (metis dec_digits digit_neq(2))
  then have "split_last CHR '':'' (?ip @ CHR '':'' # dec n) = Some (?ip, dec n)"
    by (rule split_last_append)
  then show ?thesis
    using assms by (auto simp: ParseAddrPort_def split: option.splits if_splits dest: ParseAddr_family)
qed

lemma ParseAddrPort_String6:
  assumes "ParseAddrPort (AddrPort_String \<lparr>ap_addr = Addr6 a z, ap_port = p\<rparr>) = Some ap"
  shows "Is6 (ap_addr ap)"
  using assms by (intro ParseAddrPort_bracketed) (simp add: AddrPort_String_def del: Addr_String.simps)

lemma AddrPort_text:
  "if Is4 (ap_addr ap) then ParseAddrPort (AddrPort_String ap) = Some ap
   else (\<forall>ap'. ParseAddrPort (AddrPort_String ap) = Some ap' \<longrightarrow> Is6 (ap_addr ap'))"
proof -
  obtain a p where ap: "ap = \<lparr>ap_addr = a, ap_port = p\<rparr>"
    by (cases ap)
  show ?thesis
  proof (cases a)
    case AddrZero
    have "split_last CHR '':'' ''invalid AddrPort'' = None"
      by (simp add: split_last_def)
    with AddrZero ap show ?thesis by (simp add: AddrPort_String_def ParseAddrPort_def)
  next
    case (Addr4 x)
    then show ?thesis by (simp add: ap ParseAddrPort_String4)
  next
    case (Addr6 x z)
    then show ?thesis using ParseAddrPort_String6 by (simp add: ap)
  qed
qed

end
