(* ===== verification/GoText.thy ===== *)
theory GoText
  imports Netip
begin

text \<open>
  The parts of Go's text-handling packages that the configuration and the STUN client use:
  \<open>strings\<close> (\<open>TrimSpace\<close>, \<open>Split\<close>, \<open>SplitN\<close>, \<open>Index\<close>, \<open>ToLower\<close>), \<open>strconv.Atoi\<close>,
  \<open>bufio.Scanner\<close> with \<open>ScanLines\<close>, \<open>net.SplitHostPort\<close> and \<open>net.JoinHostPort\<close>, and the text form
  of a prefix. A Go string is a sequence of bytes, here of characters below 256.
\<close>

section \<open>Package strings\<close>

definition HasPrefix :: "string \<Rightarrow> string \<Rightarrow> bool" where
  "HasPrefix s w \<longleftrightarrow> take (length w) s = w"

text \<open>The white space of Unicode (\<open>unicode.IsSpace\<close>) in UTF-8.\<close>

definition utf8_spaces :: "string list" where
  "utf8_spaces =
     [[CHR 0x09], [CHR 0x0A], [CHR 0x0B], [CHR 0x0C], [CHR 0x0D], [CHR 0x20],
      [CHR 0xC2, CHR 0x85], [CHR 0xC2, CHR 0xA0], [CHR 0xE1, CHR 0x9A, CHR 0x80]] @
     map (\<lambda>n. [CHR 0xE2, CHR 0x80, char_of n]) ([128..<139] @ [168, 169, 175 :: nat]) @
     [[CHR 0xE2, CHR 0x81, CHR 0x9F], [CHR 0xE3, CHR 0x80, CHR 0x80]]"

text \<open>Remove the words of a table from the front as long as there is one.\<close>

definition nonempty_words :: "string list \<Rightarrow> string list" where
  "nonempty_words ws = filter (\<lambda>w. w \<noteq> []) ws"

lemma found_word:
  "find (HasPrefix s) (nonempty_words ws) = Some w \<Longrightarrow> w \<in> set ws \<and> w \<noteq> [] \<and> take (length w) s = w \<and> s \<noteq> []"
  by (auto simp: find_Some_iff nonempty_words_def HasPrefix_def dest!: nth_mem)

function trim_front :: "string list \<Rightarrow> string \<Rightarrow> string" where
  "trim_front ws s =
     (case find (HasPrefix s) (nonempty_words ws) of
        None \<Rightarrow> s
      | Some w \<Rightarrow> trim_front ws (drop (length w) s))"
  by pat_completeness auto
termination
  by (relation "measure (\<lambda>(_, s). length s)") (auto dest!: found_word)

declare trim_front.simps [simp del]

definition TrimSpace :: "string \<Rightarrow> string" where
  "TrimSpace s = rev (trim_front (map rev utf8_spaces) (rev (trim_front utf8_spaces s)))"

fun Index :: "string \<Rightarrow> string \<Rightarrow> nat option" where
  "Index [] w = (if w = [] then Some 0 else None)"
| "Index (c # cs) w = (if HasPrefix (c # cs) w then Some 0 else map_option Suc (Index cs w))"

fun Split :: "char \<Rightarrow> string \<Rightarrow> string list" where
  "Split sep [] = [[]]"
| "Split sep (c # cs) =
     (if c = sep then [] # Split sep cs
      else case Split sep cs of [] \<Rightarrow> [[c]] | p # ps \<Rightarrow> (c # p) # ps)"

text \<open>\<open>strings.SplitN(s, sep, 2)\<close>.\<close>

definition SplitN2 :: "char \<Rightarrow> string \<Rightarrow> string list" where
  "SplitN2 sep s =
     (if sep \<in> set s then [takeWhile (\<lambda>c. c \<noteq> sep) s, tl (dropWhile (\<lambda>c. c \<noteq> sep) s)] else [s])"

text \<open>
  \<open>ToLower\<close> on ASCII, with the two letters beyond ASCII whose lower case is ASCII (U+0130 and
  U+212A). Every other letter beyond ASCII stays beyond ASCII, which is all that the program's
  comparisons with ASCII words can see of it.
\<close>

definition lower_char :: "char \<Rightarrow> char" where
  "lower_char c = (let n = of_char c :: nat in if 65 \<le> n \<and> n \<le> 90 then char_of (n + 32) else c)"

function ToLower :: "string \<Rightarrow> string" where
  "ToLower s =
     (case s of
        [] \<Rightarrow> []
      | c # cs \<Rightarrow>
          if HasPrefix s [CHR 0xC4, CHR 0xB0] then CHR ''i'' # ToLower (drop 1 cs)
          else if HasPrefix s [CHR 0xE2, CHR 0x84, CHR 0xAA] then CHR ''k'' # ToLower (drop 2 cs)
          else lower_char c # ToLower cs)"
  by pat_completeness auto
termination
  by (relation "measure length") auto

declare ToLower.simps [simp del]

section \<open>Trimming\<close>

text \<open>Printable ASCII other than the blank; no white space starts or ends with such a character.\<close>

definition solid :: "char \<Rightarrow> bool" where
  "solid c \<longleftrightarrow> (let n = of_char c :: nat in 33 \<le> n \<and> n < 127)"

lemma utf8_spaces_ends: "\<forall>w \<in> set utf8_spaces. w \<noteq> [] \<and> \<not> solid (hd w) \<and> \<not> solid (last w)"
  by code_simp

lemma trim_front_stop:
  assumes "\<forall>w \<in> set ws. w \<noteq> [] \<longrightarrow> \<not> solid (hd w)" "s = [] \<or> solid (hd s)"
  shows "trim_front ws s = s"
proof -
  have "find (HasPrefix s) (nonempty_words ws) = None"
  proof (rule ccontr)
    assume "find (HasPrefix s) (nonempty_words ws) \<noteq> None"
    then obtain w where "w \<in> set ws" "w \<noteq> []" "take (length w) s = w" "s \<noteq> []"
      using found_word by blast
    then show False
      using assms by (metis hd_take length_greater_0_conv)
  qed
  then show ?thesis
    by (subst trim_front.simps) simp
qed

lemma trim_front_drop:
  assumes "[c] \<in> set ws" "\<forall>w \<in> set ws. w \<noteq> [] \<and> hd w = c \<longrightarrow> w = [c]"
  shows "trim_front ws (c # s) = trim_front ws s"
proof -
  obtain w where w: "find (HasPrefix (c # s)) (nonempty_words ws) = Some w"
    using assms(1) by (cases "find (HasPrefix (c # s)) (nonempty_words ws)")
      (auto simp: find_None_iff nonempty_words_def HasPrefix_def)
  then have "w \<in> set ws" "w \<noteq> []" "take (length w) (c # s) = w"
    using found_word by blast+
  moreover from this have "hd w = c"
    by (metis hd_take length_greater_0_conv list.sel(1))
  ultimately have "w = [c]"
    using assms(2) by blast
  with w show ?thesis
    by (subst trim_front.simps) simp
qed

lemma blank_word: "\<forall>w \<in> set utf8_spaces. (hd w = CHR 0x20 \<longrightarrow> w = [CHR 0x20]) \<and> (last w = CHR 0x20 \<longrightarrow> w = [CHR 0x20])"
  "[CHR 0x20] \<in> set utf8_spaces"
  by code_simp+

lemma TrimSpace_solid: "s = [] \<or> solid (hd s) \<and> solid (last s) \<Longrightarrow> TrimSpace s = s"
  using utf8_spaces_ends by (auto simp: TrimSpace_def trim_front_stop hd_rev)

lemma TrimSpace_blank_front: "TrimSpace (CHR 0x20 # s) = TrimSpace s"
proof -
  have "trim_front utf8_spaces (CHR 0x20 # s) = trim_front utf8_spaces s"
    by (rule trim_front_drop) (use blank_word in blast)+
  then show ?thesis
    by (simp only: TrimSpace_def)
qed

lemma TrimSpace_blank_end:
  assumes "s \<noteq> []" "solid (hd s)"
  shows "TrimSpace (s @ [CHR 0x20]) = TrimSpace s"
proof -
  have "trim_front utf8_spaces t = t" if "t = s \<or> t = s @ [CHR 0x20]" for t
    using that assms utf8_spaces_ends by (intro trim_front_stop) auto
  moreover have "trim_front (map rev utf8_spaces) (CHR 0x20 # rev s) = trim_front (map rev utf8_spaces) (rev s)"
  proof (rule trim_front_drop)
    show "[CHR 0x20] \<in> set (map rev utf8_spaces)"
      using imageI [OF blank_word(2), of rev] by (simp only: set_map rev.simps append_Nil)
    show "\<forall>w \<in> set (map rev utf8_spaces). w \<noteq> [] \<and> hd w = CHR 0x20 \<longrightarrow> w = [CHR 0x20]"
      using blank_word(1) by (metis (no_types, lifting) hd_rev image_iff rev_singleton_conv set_map)
  qed
  ultimately show ?thesis
    by (simp add: TrimSpace_def)
qed

section \<open>Package strconv\<close>

text \<open>\<open>strconv.Atoi\<close>: an optional sign and decimal digits, within 64 bits.\<close>

definition Atoi :: "string \<Rightarrow> int option" where
  "Atoi s =
     (let neg = (s \<noteq> [] \<and> hd s = CHR ''-'');
          body = (if s \<noteq> [] \<and> (hd s = CHR ''-'' \<or> hd s = CHR ''+'') then tl s else s)
      in if body = [] then None
         else case parse_digits body 0 of
           None \<Rightarrow> None
         | Some n \<Rightarrow>
             (if neg then (if n \<le> 2 ^ 63 then Some (- n) else None)
              else (if n < 2 ^ 63 then Some n else None)))"

section \<open>Package bufio\<close>

text \<open>
  \<open>bufio.Scanner\<close> with the default split function: lines without their line end, a final carriage
  return dropped. A line that does not fit into the buffer of 64 KiB stops the scan.
\<close>

definition maxTokenSize :: int where
  "maxTokenSize = 65536"

definition dropCR :: "string \<Rightarrow> string" where
  "dropCR s = (if s \<noteq> [] \<and> last s = CHR 0x0D then butlast s else s)"

function ScanLines :: "string \<Rightarrow> string list \<times> bool" where
  "ScanLines s =
     (if s = [] then ([], False)
      else
        (let line = takeWhile (\<lambda>c. c \<noteq> CHR 0x0A) s;
             rest = dropWhile (\<lambda>c. c \<noteq> CHR 0x0A) s
         in if int (length line) \<ge> maxTokenSize then ([], True)
            else case ScanLines (tl rest) of (lines, tooLong) \<Rightarrow> (dropCR line # lines, tooLong)))"
  by pat_completeness auto
termination
proof (relation "measure length")
  fix s line rest :: string
  assume "s \<noteq> []" "rest = dropWhile (\<lambda>c. c \<noteq> CHR 0x0A) s"
  then show "(tl rest, s) \<in> measure length"
    using length_dropWhile_le [of "\<lambda>c. c \<noteq> CHR 0x0A" s] by (cases s) auto
qed auto

declare ScanLines.simps [simp del]

section \<open>Package net\<close>

datatype addr_err = MissingPort | TooManyColons | MissingBracket | UnexpectedOpen | UnexpectedClose

definition SplitHostPort :: "string \<Rightarrow> addr_err + (string \<times> string)" where
  "SplitHostPort hostport =
     (case split_last CHR '':'' hostport of
        None \<Rightarrow> Inl MissingPort
      | Some (before, port) \<Rightarrow>
          if hd hostport = CHR ''['' then
            (if CHR '']'' \<notin> set hostport then Inl MissingBracket
             else
               (let end = length (takeWhile (\<lambda>c. c \<noteq> CHR '']'') hostport) in
                if end + 1 = length hostport then Inl MissingPort
                else if end + 1 \<noteq> length before then
                  Inl (if hostport ! (end + 1) = CHR '':'' then TooManyColons else MissingPort)
                else if CHR ''['' \<in> set (drop 1 hostport) then Inl UnexpectedOpen
                else if CHR '']'' \<in> set (drop (end + 1) hostport) then Inl UnexpectedClose
                else Inr (go_slice 1 end hostport, port)))
          else if CHR '':'' \<in> set before then Inl TooManyColons
          else if CHR ''['' \<in> set hostport then Inl UnexpectedOpen
          else if CHR '']'' \<in> set hostport then Inl UnexpectedClose
          else Inr (before, port))"

definition JoinHostPort :: "string \<Rightarrow> string \<Rightarrow> string" where
  "JoinHostPort host port =
     (if CHR '':'' \<in> set host then ''['' @ host @ '']:'' @ port else host @ '':'' @ port)"

lemma SplitHostPort_JoinHostPort:
  assumes "\<forall>c \<in> set ''[]''. c \<notin> set host" "\<forall>c \<in> set ''[]:''. c \<notin> set port" "host \<noteq> []"
  shows "SplitHostPort (JoinHostPort host port) = Inr (host, port)"
proof (cases "CHR '':'' \<in> set host")
  case True
  have "split_last CHR '':'' ((''['' @ host @ '']'') @ CHR '':'' # port) = Some (''['' @ host @ '']'', port)"
    using assms(2) by (intro split_last_append) auto
  moreover have "takeWhile (\<lambda>c. c \<noteq> CHR '']'') (''['' @ host @ '']:'' @ port) = ''['' @ host"
    using assms(1) by (subst append_assoc [symmetric], subst takeWhile_append2) auto
  ultimately show ?thesis
    using True assms by (simp add: SplitHostPort_def JoinHostPort_def go_slice_def Let_def)
next
  case False
  have "split_last CHR '':'' (host @ CHR '':'' # port) = Some (host, port)"
    using assms(2) by (intro split_last_append) auto
  moreover have "hd (host @ CHR '':'' # port) \<noteq> CHR ''[''"
    using assms(1,3) by (cases host) auto
  ultimately show ?thesis
    using False assms by (simp add: SplitHostPort_def JoinHostPort_def)
qed

section \<open>Text of a prefix\<close>

definition Prefix_String :: "prefix \<Rightarrow> string" where
  "Prefix_String p =
     (case pf_bits p of None \<Rightarrow> ''invalid Prefix'' | Some n \<Rightarrow> Addr_String (pf_ip p) @ ''/'' @ dec n)"

text \<open>\<open>strings.Join\<close>.\<close>

fun Join :: "string list \<Rightarrow> string \<Rightarrow> string" where
  "Join [] sep = []"
| "Join [x] sep = x"
| "Join (x # y # ys) sep = x @ sep @ Join (y # ys) sep"

lemma solid_digit [simp]: "n < 10 \<Longrightarrow> solid (digit n)"
  by (simp add: solid_def digit_def Let_def)

lemma digit_code: "n < 10 \<Longrightarrow> (of_char (digit n) :: nat) = 48 + n"
  by (simp add: digit_def)

lemma dec_solid: "c \<in> set (dec n) \<Longrightarrow> solid c \<and> c \<notin> set ''./,#:''"
proof -
  assume "c \<in> set (dec n)"
  then obtain d where d: "d < 10" "c = digit d"
    using dec_digits by blast
  have "c \<noteq> x" if "x \<in> set ''./,#:''" for x
  proof
    assume "c = x"
    then have "of_char x = 48 + d"
      using d digit_code by metis
    with that d(1) show False by auto
  qed
  with d show ?thesis by auto
qed

lemma dec_two: "10 \<le> n \<Longrightarrow> n < 100 \<Longrightarrow> dec n = [digit (n div 10), digit (n mod 10)]"
  by (subst dec.simps, subst dec.simps) auto

lemma dec_one: "n < 10 \<Longrightarrow> dec n = [digit n]"
  by (subst dec.simps) simp

lemma digit_hd: "n < 10 \<Longrightarrow> n \<noteq> 0 \<Longrightarrow> digit n \<in> set ''123456789''"
proof -
  assume "n < 10" "n \<noteq> 0"
  then have "n \<in> set [1..<10]"
    by simp
  moreover have "\<forall>k \<in> set [1..<10]. digit k \<in> set ''123456789''"
    by code_simp
  ultimately show ?thesis by blast
qed

lemma bits_text:
  assumes "n \<le> 32"
  shows "\<not> (length (dec n) > 1 \<and> hd (dec n) \<notin> set ''123456789'')" "ParseUint 63 (dec n) = Some (int n)"
proof -
  show "\<not> (length (dec n) > 1 \<and> hd (dec n) \<notin> set ''123456789'')"
  proof (cases "n < 10")
    case False
    then have "n div 10 < 10" "n div 10 \<noteq> 0"
      using assms by auto
    with False assms digit_hd [of "n div 10"] show ?thesis
      by (simp only: dec_two) simp
  qed (simp add: dec_one)
  show "ParseUint 63 (dec n) = Some (int n)"
    using assms by (intro ParseUint_dec) simp
qed

lemma ParsePrefix_String4:
  assumes "n \<le> 32"
  shows "ParsePrefix (addr4_String a @ ''/'' @ dec n) = Some \<lparr>pf_ip = Addr4 a, pf_bits = Some n\<rparr>"
proof -
  have "CHR ''/'' \<notin> set (dec n)"
    using dec_solid by fastforce
  then have "split_last CHR ''/'' (addr4_String a @ CHR ''/'' # dec n) = Some (addr4_String a, dec n)"
    by (rule split_last_append)
  then show ?thesis
    using bits_text [OF assms] assms by (simp only: ParsePrefix_def append.simps) (simp add: ParseAddr_String4 PrefixFrom_def)
qed

lemma addr4_String_solid: "c \<in> set (addr4_String a) \<Longrightarrow> solid c \<and> c \<notin> set '',#''"
  using dec_solid by (auto simp: addr4_String_def solid_def Let_def)

lemma ParseUint_range: "ParseUint b s = Some n \<Longrightarrow> 0 \<le> n"
proof -
  have "0 \<le> acc \<Longrightarrow> parse_digits t acc = Some k \<Longrightarrow> 0 \<le> k" for t acc k
    by (induction t acc rule: parse_digits.induct) (auto split: option.splits)
  then show "ParseUint b s = Some n \<Longrightarrow> 0 \<le> n"
    by (auto simp: ParseUint_def split: if_splits option.splits)
qed

lemma ParsePrefix_SomeD:
  assumes "ParsePrefix s = Some p"
  obtains t u ip n where "ParseAddr t = Some ip" "\<not> hasZone ip" "ParseUint 63 u = Some n" "n \<le> int (BitLen ip)"
    "p = PrefixFrom ip n"
  using assms
  by (simp only: ParsePrefix_def split: option.split_asm prod.split_asm if_split_asm) (auto simp del: list.set(2))

section \<open>Splitting what was joined\<close>

lemma Split_single: "sep \<notin> set x \<Longrightarrow> Split sep x = [x]"
  by (induction x) auto

lemma Split_append: "sep \<notin> set x \<Longrightarrow> Split sep (x @ sep # y) = x # Split sep y"
  by (induction x) auto

lemma Split_Join:
  "\<forall>x \<in> set xs. sep \<notin> set x \<Longrightarrow> sep \<noteq> CHR 0x20 \<Longrightarrow> xs \<noteq> [] \<Longrightarrow>
     Split sep (Join xs [sep, CHR 0x20]) = hd xs # map (Cons CHR 0x20) (tl xs)"
proof (induction xs "[sep, CHR 0x20]" rule: Join.induct)
  case (3 x y ys)
  then show ?case
    by (simp add: Split_append split: list.splits)
qed (auto simp: Split_single)

lemma Index_absent: "c \<in> set w \<Longrightarrow> c \<notin> set s \<Longrightarrow> Index s w = None"
proof (induction s)
  case (Cons a s)
  then have "\<not> HasPrefix (a # s) w"
    using in_set_takeD [of c "length w" "a # s"] by (auto simp: HasPrefix_def)
  with Cons show ?case by simp
qed auto

end
