(* ===== verification/Config.thy ===== *)
theory Config
  imports GoText
begin

text \<open>
  \<open>config/config.go\<close>: the WireGuard-style configuration file of \<open>malond\<close>. \<open>Load\<close> reads the file
  line by line; every error return is a value of \<open>config_err\<close>. The relay daemon's file is TOML and
  is read by a library, so only its record is here.
\<close>

section \<open>Data\<close>

record InterfaceConfig =
  PrivateKey :: string
  Address :: prefix
  Role :: string
  ListenPort :: string
  Relay :: string
  InsecureSkipVerify :: bool
  STUNServer :: string

record PeerConfig =
  PublicKey :: string
  PeerRelay :: string
  PeerAllowedIPs :: "prefix list"

record Config =
  Interface :: InterfaceConfig
  Peers :: "PeerConfig list"

definition zero_prefix :: prefix where
  "zero_prefix = \<lparr>pf_ip = AddrZero, pf_bits = None\<rparr>"

definition zero_interface :: InterfaceConfig where
  "zero_interface =
     \<lparr>PrivateKey = [], Address = zero_prefix, Role = [], ListenPort = [], Relay = [],
      InsecureSkipVerify = False, STUNServer = []\<rparr>"

definition zero_peer :: PeerConfig where
  "zero_peer = \<lparr>PublicKey = [], PeerRelay = [], PeerAllowedIPs = []\<rparr>"

datatype config_err =
    OpenFailed | InvalidLine string | OutsidePeer string | OutsideSections string
  | InvalidAddress string | InvalidRole string | UnknownInterfaceKey string
  | InvalidAllowedIPs string | UnknownPeerKey string | LineTooLong | ReadFailed io_err

section \<open>Fields\<close>

definition parseInterfaceField :: "string \<Rightarrow> string \<Rightarrow> InterfaceConfig \<Rightarrow> config_err + InterfaceConfig" where
  "parseInterfaceField key val iface =
     (if key = ''PrivateKey'' then Inr (iface\<lparr>PrivateKey := val\<rparr>)
      else if key = ''Address'' then
        (case ParsePrefix val of
           None \<Rightarrow> Inl (InvalidAddress val)
         | Some p \<Rightarrow> Inr (iface\<lparr>Address := p\<rparr>))
      else if key = ''Role'' then
        (let lower = ToLower val in
         if lower \<noteq> ''client'' \<and> lower \<noteq> ''proxy'' then Inl (InvalidRole val)
         else Inr (iface\<lparr>Role := lower\<rparr>))
      else if key = ''ListenPort'' then Inr (iface\<lparr>ListenPort := val\<rparr>)
      else if key = ''Relay'' then Inr (iface\<lparr>Relay := val\<rparr>)
      else if key = ''InsecureSkipVerify'' then Inr (iface\<lparr>InsecureSkipVerify := (ToLower val = ''true'')\<rparr>)
      else if key = ''STUNServer'' then Inr (iface\<lparr>STUNServer := val\<rparr>)
      else Inl (UnknownInterfaceKey key))"

text \<open>The loop over the prefixes: those before a bad one have been appended to the peer, which is then dropped.\<close>

fun parseAllowedIPs :: "string list \<Rightarrow> PeerConfig \<Rightarrow> config_err + PeerConfig" where
  "parseAllowedIPs [] p = Inr p"
| "parseAllowedIPs (s # rest) p =
     (case ParsePrefix (TrimSpace s) of
        None \<Rightarrow> Inl (InvalidAllowedIPs s)
      | Some pre \<Rightarrow> parseAllowedIPs rest (p\<lparr>PeerAllowedIPs := PeerAllowedIPs p @ [pre]\<rparr>))"

definition parsePeerField :: "string \<Rightarrow> string \<Rightarrow> PeerConfig \<Rightarrow> config_err + PeerConfig" where
  "parsePeerField key val p =
     (if key = ''PublicKey'' then Inr (p\<lparr>PublicKey := val\<rparr>)
      else if key = ''Relay'' then Inr (p\<lparr>PeerRelay := val\<rparr>)
      else if key = ''AllowedIPs'' then parseAllowedIPs (Split CHR '','' val) p
      else Inl (UnknownPeerKey key))"

section \<open>Lines\<close>

text \<open>
  The variables of the loop: the configuration, the section, and the peer that \<open>currentPeer\<close> points
  to, by its position in \<open>cfg.Peers\<close>.
\<close>

record load_state =
  ls_cfg :: Config
  ls_section :: string
  ls_currentPeer :: "nat option"

definition load_start :: load_state where
  "load_start =
     \<lparr>ls_cfg = \<lparr>Interface = zero_interface, Peers = []\<rparr>, ls_section = [], ls_currentPeer = None\<rparr>"

definition strip_comment :: "string \<Rightarrow> string" where
  "strip_comment val = (case Index val '' #'' of None \<Rightarrow> val | Some i \<Rightarrow> TrimSpace (take i val))"

definition load_field :: "string \<Rightarrow> string \<Rightarrow> load_state \<Rightarrow> config_err + load_state" where
  "load_field key val ls =
     (if ls_section ls = ''interface'' then
        (case parseInterfaceField key val (Interface (ls_cfg ls)) of
           Inl e \<Rightarrow> Inl e
         | Inr iface \<Rightarrow> Inr (ls\<lparr>ls_cfg := (ls_cfg ls)\<lparr>Interface := iface\<rparr>\<rparr>))
      else if ls_section ls = ''peer'' then
        (case ls_currentPeer ls of
           None \<Rightarrow> Inl (OutsidePeer key)
         | Some i \<Rightarrow>
             (case parsePeerField key val (Peers (ls_cfg ls) ! i) of
                Inl e \<Rightarrow> Inl e
              | Inr p \<Rightarrow> Inr (ls\<lparr>ls_cfg := (ls_cfg ls)\<lparr>Peers := (Peers (ls_cfg ls))[i := p]\<rparr>\<rparr>)))
      else Inl (OutsideSections key))"

definition load_line :: "string \<Rightarrow> load_state \<Rightarrow> config_err + load_state" where
  "load_line text ls =
     (let line = TrimSpace text in
      if line = [] \<or> HasPrefix line ''#'' then Inr ls
      else if line = ''[Interface]'' then Inr (ls\<lparr>ls_section := ''interface'', ls_currentPeer := None\<rparr>)
      else if line = ''[Peer]'' then
        Inr (ls\<lparr>ls_section := ''peer'', ls_cfg := (ls_cfg ls)\<lparr>Peers := Peers (ls_cfg ls) @ [zero_peer]\<rparr>,
                ls_currentPeer := Some (length (Peers (ls_cfg ls)))\<rparr>)
      else
        (case SplitN2 CHR ''='' line of
           [k, v] \<Rightarrow> load_field (TrimSpace k) (strip_comment (TrimSpace v)) ls
         | _ \<Rightarrow> Inl (InvalidLine line)))"

fun load_lines :: "string list \<Rightarrow> load_state \<Rightarrow> config_err + load_state" where
  "load_lines [] ls = Inr ls"
| "load_lines (l # rest) ls = (case load_line l ls of Inl e \<Rightarrow> Inl e | Inr ls' \<Rightarrow> load_lines rest ls')"

text \<open>
  \<open>os.Open\<close> gives the content of the file and the error that ends reading it (\<open>io.EOF\<close> normally).
\<close>

definition Load :: "(string \<Rightarrow> (string \<times> io_err) option) \<Rightarrow> string \<Rightarrow> config_err + Config" where
  "Load open path =
     (case open path of
        None \<Rightarrow> Inl OpenFailed
      | Some (content, end_err) \<Rightarrow>
          (case ScanLines content of
             (lines, tooLong) \<Rightarrow>
               (case load_lines lines load_start of
                  Inl e \<Rightarrow> Inl e
                | Inr ls \<Rightarrow>
                    if tooLong then Inl LineTooLong
                    else if end_err \<noteq> EOF then Inl (ReadFailed end_err)
                    else Inr (ls_cfg ls))))"

section \<open>The relay daemon's file\<close>

record RelayServerConfig =
  ListenAddr :: string
  TLSCert :: string
  TLSKey :: string

definition LoadRelayServer ::
  "(string \<Rightarrow> string option) \<Rightarrow> (string \<Rightarrow> RelayServerConfig option) \<Rightarrow> string \<Rightarrow> RelayServerConfig option" where
  "LoadRelayServer readFile tomlDecode path =
     (case readFile path of
        None \<Rightarrow> None
      | Some content \<Rightarrow> tomlDecode content)"

section \<open>Types\<close>

definition prefix_ok :: "prefix \<Rightarrow> bool" where
  "prefix_ok p \<longleftrightarrow> prefix_IsValid p \<and> wf_prefix p \<and> pf_ip p \<noteq> AddrZero \<and> \<not> hasZone (pf_ip p)"

lemma ParsePrefix_ok: "ParsePrefix s = Some p \<Longrightarrow> prefix_ok p"
proof (elim ParsePrefix_SomeD)
  fix t u ip n
  assume "ParseAddr t = Some ip" "\<not> hasZone ip" "ParseUint 63 u = Some n" "n \<le> int (BitLen ip)" "p = PrefixFrom ip n"
  then show "prefix_ok p"
    using ParseAddr_family ParseUint_range
    by (cases ip) (fastforce simp: prefix_ok_def prefix_IsValid_def wf_prefix_def PrefixFrom_def)+
qed

definition interface_typed :: "InterfaceConfig \<Rightarrow> bool" where
  "interface_typed i \<longleftrightarrow> Role i \<in> {[], ''client'', ''proxy''} \<and> (Address i = zero_prefix \<or> prefix_ok (Address i))"

definition config_typed :: "Config \<Rightarrow> bool" where
  "config_typed cfg \<longleftrightarrow>
     interface_typed (Interface cfg) \<and> (\<forall>pc \<in> set (Peers cfg). \<forall>p \<in> set (PeerAllowedIPs pc). prefix_ok p)"

text \<open>The loop's invariant: inside a peer section \<open>currentPeer\<close> points to the last peer.\<close>

definition load_inv :: "load_state \<Rightarrow> bool" where
  "load_inv ls \<longleftrightarrow>
     config_typed (ls_cfg ls) \<and>
     (ls_section ls = ''peer'' \<longrightarrow>
        Peers (ls_cfg ls) \<noteq> [] \<and> ls_currentPeer ls = Some (length (Peers (ls_cfg ls)) - 1))"

lemma parseInterfaceField_typed:
  "interface_typed i \<Longrightarrow> parseInterfaceField k v i = Inr i' \<Longrightarrow> interface_typed i'"
  by (auto simp: parseInterfaceField_def interface_typed_def Let_def split: if_splits option.splits dest: ParsePrefix_ok)

lemma parseAllowedIPs_typed:
  "\<forall>p \<in> set (PeerAllowedIPs pc). prefix_ok p \<Longrightarrow> parseAllowedIPs ss pc = Inr pc' \<Longrightarrow> \<forall>p \<in> set (PeerAllowedIPs pc'). prefix_ok p"
  by (induction ss pc rule: parseAllowedIPs.induct) (auto split: option.splits dest: ParsePrefix_ok)

lemma parsePeerField_typed:
  "\<forall>p \<in> set (PeerAllowedIPs pc). prefix_ok p \<Longrightarrow> parsePeerField k v pc = Inr pc' \<Longrightarrow> \<forall>p \<in> set (PeerAllowedIPs pc'). prefix_ok p"
  by (auto simp: parsePeerField_def split: if_splits dest: parseAllowedIPs_typed)

lemma load_field_inv:
  assumes "load_inv ls" "load_field k v ls = Inr ls'"
  shows "load_inv ls'"
proof (cases "ls_section ls = ''interface''")
  case True
  then show ?thesis
    using assms by (auto simp: load_inv_def load_field_def config_typed_def split: sum.splits dest: parseInterfaceField_typed)
next
  case False
  then have sec: "ls_section ls = ''peer''"
    using assms(2) by (auto simp: load_field_def split: if_splits)
  define i where "i = length (Peers (ls_cfg ls)) - 1"
  have i: "ls_currentPeer ls = Some i" "i < length (Peers (ls_cfg ls))"
    using assms(1) sec by (auto simp: load_inv_def i_def)
  then obtain p where p: "parsePeerField k v (Peers (ls_cfg ls) ! i) = Inr p"
    "ls' = ls\<lparr>ls_cfg := (ls_cfg ls)\<lparr>Peers := (Peers (ls_cfg ls))[i := p]\<rparr>\<rparr>"
    using assms(2) sec by (auto simp: load_field_def split: sum.splits)
  have "\<forall>q \<in> set (PeerAllowedIPs p). prefix_ok q"
    using assms(1) i(2) by (intro parsePeerField_typed [OF _ p(1)]) (auto simp: load_inv_def config_typed_def)
  then show ?thesis
    using assms(1) i sec by (auto simp: p(2) load_inv_def config_typed_def dest!: set_update_subset_insert [THEN subsetD])
qed

text \<open>What a line can do, with the decisions of the code named.\<close>

lemma load_line_eqs:
  "TrimSpace text = [] \<or> HasPrefix (TrimSpace text) ''#'' \<Longrightarrow> load_line text ls = Inr ls"
  "TrimSpace text = ''[Interface]'' \<Longrightarrow>
     load_line text ls = Inr (ls\<lparr>ls_section := ''interface'', ls_currentPeer := None\<rparr>)"
  "TrimSpace text = ''[Peer]'' \<Longrightarrow>
     load_line text ls =
       Inr (ls\<lparr>ls_section := ''peer'', ls_cfg := (ls_cfg ls)\<lparr>Peers := Peers (ls_cfg ls) @ [zero_peer]\<rparr>,
               ls_currentPeer := Some (length (Peers (ls_cfg ls)))\<rparr>)"
  by (simp_all add: load_line_def HasPrefix_def)

lemma load_line_field:
  assumes "\<not> (TrimSpace text = [] \<or> HasPrefix (TrimSpace text) ''#'')"
    "TrimSpace text \<noteq> ''[Interface]''" "TrimSpace text \<noteq> ''[Peer]''"
  shows "load_line text ls =
    (if CHR ''='' \<in> set (TrimSpace text) then
       load_field (TrimSpace (takeWhile (\<lambda>c. c \<noteq> CHR ''='') (TrimSpace text)))
         (strip_comment (TrimSpace (tl (dropWhile (\<lambda>c. c \<noteq> CHR ''='') (TrimSpace text))))) ls
     else Inl (InvalidLine (TrimSpace text)))"
  using assms by (simp only: load_line_def Let_def if_False SplitN2_def list.case split: if_split) blast

lemma load_line_cases:
  obtains "load_line text ls = Inr ls" | "load_line text ls = Inr (ls\<lparr>ls_section := ''interface'', ls_currentPeer := None\<rparr>)"
  | "load_line text ls =
       Inr (ls\<lparr>ls_section := ''peer'', ls_cfg := (ls_cfg ls)\<lparr>Peers := Peers (ls_cfg ls) @ [zero_peer]\<rparr>,
               ls_currentPeer := Some (length (Peers (ls_cfg ls)))\<rparr>)"
  | l where "load_line text ls = Inl (InvalidLine l)" | k v where "load_line text ls = load_field k v ls"
  using load_line_eqs load_line_field by metis

lemma load_line_inv:
  assumes "load_inv ls" "load_line l ls = Inr ls'"
  shows "load_inv ls'"
proof (cases rule: load_line_cases [of l ls])
  case (5 k v)
  then show ?thesis
    using assms load_field_inv by metis
qed (use assms in \<open>auto simp: load_inv_def config_typed_def zero_peer_def\<close>)

lemma load_lines_inv: "load_inv ls \<Longrightarrow> load_lines lines ls = Inr ls' \<Longrightarrow> load_inv ls'"
  by (induction lines ls rule: load_lines.induct) (auto split: sum.splits dest: load_line_inv)

lemma load_start_inv: "load_inv load_start"
  by (simp add: load_inv_def load_start_def config_typed_def interface_typed_def zero_interface_def)

text \<open>The branch for a key of a peer section without a peer is dead.\<close>

lemma parse_errors:
  "parseInterfaceField k v i \<noteq> Inl (OutsidePeer x)"
  "parseAllowedIPs ss p \<noteq> Inl (OutsidePeer x)" "parsePeerField k v p \<noteq> Inl (OutsidePeer x)"
proof -
  show "parseInterfaceField k v i \<noteq> Inl (OutsidePeer x)"
    by (auto simp: parseInterfaceField_def Let_def split: if_splits option.splits)
  have "parseAllowedIPs ss p \<noteq> Inl (OutsidePeer x)" for ss p
    by (induction ss p rule: parseAllowedIPs.induct) (auto split: option.splits)
  then show "parseAllowedIPs ss p \<noteq> Inl (OutsidePeer x)" "parsePeerField k v p \<noteq> Inl (OutsidePeer x)"
    by (auto simp: parsePeerField_def split: if_splits)
qed

lemma load_line_in_peer: "load_inv ls \<Longrightarrow> load_line l ls \<noteq> Inl (OutsidePeer x)"
  using parse_errors
  by (cases rule: load_line_cases [of l ls]) (auto simp: load_field_def load_inv_def split: sum.splits option.splits)

lemma load_lines_in_peer: "load_inv ls \<Longrightarrow> load_lines lines ls \<noteq> Inl (OutsidePeer x)"
proof (induction lines ls rule: load_lines.induct)
  case (2 l rest ls)
  then show ?case
    using load_line_in_peer by (auto split: sum.splits dest: load_line_inv)
qed simp

section \<open>Writing a configuration\<close>

text \<open>
  The reference writer: the layout of the package comment, one line per field that is set. A value
  that can be written is printable ASCII without a comment mark and without blanks at its ends.
\<close>

definition field_line :: "string \<Rightarrow> string \<Rightarrow> string" where
  "field_line k v = k @ '' = '' @ v"

definition opt_line :: "string \<Rightarrow> string \<Rightarrow> string list" where
  "opt_line k v = (if v = [] then [] else [field_line k v])"

definition interface_lines :: "InterfaceConfig \<Rightarrow> string list" where
  "interface_lines i =
     ''[Interface]'' # opt_line ''PrivateKey'' (PrivateKey i) @
     opt_line ''Address'' (if Address i = zero_prefix then [] else Prefix_String (Address i)) @
     opt_line ''Role'' (Role i) @ opt_line ''ListenPort'' (ListenPort i) @ opt_line ''Relay'' (Relay i) @
     opt_line ''InsecureSkipVerify'' (if InsecureSkipVerify i then ''true'' else []) @
     opt_line ''STUNServer'' (STUNServer i)"

definition peer_lines :: "PeerConfig \<Rightarrow> string list" where
  "peer_lines p =
     ''[Peer]'' # opt_line ''PublicKey'' (PublicKey p) @ opt_line ''Relay'' (PeerRelay p) @
     opt_line ''AllowedIPs'' (Join (map Prefix_String (PeerAllowedIPs p)) '', '')"

definition config_lines :: "Config \<Rightarrow> string list" where
  "config_lines cfg = interface_lines (Interface cfg) @ concat (map peer_lines (Peers cfg))"

definition config_text :: "Config \<Rightarrow> string" where
  "config_text cfg = concat (map (\<lambda>l. l @ [CHR 0x0A]) (config_lines cfg))"

definition printable :: "string \<Rightarrow> bool" where
  "printable s \<longleftrightarrow> (\<forall>c \<in> set s. solid c \<or> c = CHR 0x20)"

definition plain :: "string \<Rightarrow> bool" where
  "plain v \<longleftrightarrow> printable v \<and> (v \<noteq> [] \<longrightarrow> solid (hd v) \<and> solid (last v)) \<and> Index v '' #'' = None"

definition prefix4_ok :: "prefix \<Rightarrow> bool" where
  "prefix4_ok p \<longleftrightarrow> Is4 (pf_ip p) \<and> (case pf_bits p of None \<Rightarrow> False | Some n \<Rightarrow> n \<le> 32)"

definition writable :: "Config \<Rightarrow> bool" where
  "writable cfg \<longleftrightarrow>
     (let i = Interface cfg in
      plain (PrivateKey i) \<and> (Address i = zero_prefix \<or> prefix4_ok (Address i)) \<and>
      Role i \<in> {[], ''client'', ''proxy''} \<and> plain (ListenPort i) \<and> plain (Relay i) \<and> plain (STUNServer i)) \<and>
     (\<forall>p \<in> set (Peers cfg). plain (PublicKey p) \<and> plain (PeerRelay p) \<and> (\<forall>q \<in> set (PeerAllowedIPs p). prefix4_ok q)) \<and>
     (\<forall>l \<in> set (config_lines cfg). int (length l) < maxTokenSize)"

subsection \<open>Lines\<close>

definition key_ok :: "string \<Rightarrow> bool" where
  "key_ok k \<longleftrightarrow> k \<noteq> [] \<and> (\<forall>c \<in> set k. solid c \<and> c \<noteq> CHR ''='') \<and> hd k \<noteq> CHR ''#'' \<and> hd k \<noteq> CHR ''[''"

lemma load_line_value:
  assumes "key_ok k" "plain v" "v \<noteq> []"
  shows "load_line (field_line k v) ls = load_field k v ls"
proof -
  let ?line = "k @ CHR 0x20 # CHR ''='' # CHR 0x20 # v"
  have k: "k \<noteq> []" "solid (hd k)" "solid (last k)" "CHR ''='' \<notin> set k"
    using assms(1) by (auto simp: key_ok_def)
  have trim: "TrimSpace ?line = ?line"
    using k assms by (intro TrimSpace_solid) (auto simp: plain_def)
  have key: "TrimSpace (k @ [CHR 0x20]) = k" and val: "TrimSpace (CHR 0x20 # v) = v"
    using k assms by (simp_all add: TrimSpace_blank_end TrimSpace_blank_front TrimSpace_solid plain_def)
  have tw: "takeWhile (\<lambda>c. c \<noteq> CHR ''='') ?line = k @ [CHR 0x20]" "dropWhile (\<lambda>c. c \<noteq> CHR ''='') ?line = CHR ''='' # CHR 0x20 # v"
    using k(4) by (simp_all add: takeWhile_append dropWhile_append3 dropWhile_append)
  have hd: "hd ?line \<noteq> CHR ''#''" "hd ?line \<noteq> CHR ''[''"
    using assms(1) by (auto simp: key_ok_def)
  then have "?line \<noteq> ''[Interface]''" "?line \<noteq> ''[Peer]''"
    by (metis list.sel(1))+
  then have "load_line ?line ls = load_field k v ls"
    using load_line_field [of ?line ls] hd k
    by (auto simp: trim tw key val strip_comment_def assms(2) [unfolded plain_def] HasPrefix_def take_Suc)
  then show ?thesis
    by (simp add: field_line_def)
qed

lemma load_lines_append:
  "load_lines (a @ b) ls = (case load_lines a ls of Inl e \<Rightarrow> Inl e | Inr ls' \<Rightarrow> load_lines b ls')"
  by (induction a ls rule: load_lines.induct) (auto split: sum.splits)

lemma load_opt_line:
  assumes "key_ok k" "plain v"
  shows "load_lines (opt_line k v) ls = (if v = [] then Inr ls else load_field k v ls)"
  using load_line_value [OF assms] by (auto simp: opt_line_def split: sum.splits)

lemma ScanLines_text:
  "\<forall>l \<in> set ls. printable l \<and> int (length l) < maxTokenSize \<Longrightarrow> ScanLines (concat (map (\<lambda>l. l @ [CHR 0x0A]) ls)) = (ls, False)"
proof (induction ls)
  case Nil
  then show ?case by (simp add: ScanLines.simps)
next
  case (Cons l ls)
  let ?rest = "concat (map (\<lambda>l. l @ [CHR 0x0A]) ls)"
  have c: "c \<noteq> CHR 0x0A" "c \<noteq> CHR 0x0D" if "c \<in> set l" for c
    using Cons.prems that by (auto simp: printable_def solid_def)
  have "takeWhile (\<lambda>c. c \<noteq> CHR 0x0A) (l @ CHR 0x0A # ?rest) = l" "dropWhile (\<lambda>c. c \<noteq> CHR 0x0A) (l @ CHR 0x0A # ?rest) = CHR 0x0A # ?rest"
    using c(1) by (simp_all add: takeWhile_append dropWhile_append3 dropWhile_append)
  moreover have "dropCR l = l"
    using c(2) last_in_set [of l] by (auto simp: dropCR_def)
  ultimately show ?case
    using Cons by (subst ScanLines.simps) simp
qed

subsection \<open>Sections\<close>

lemma keys_ok:
  "key_ok ''PrivateKey''" "key_ok ''Address''" "key_ok ''Role''" "key_ok ''ListenPort''" "key_ok ''Relay''"
  "key_ok ''InsecureSkipVerify''" "key_ok ''STUNServer''" "key_ok ''PublicKey''" "key_ok ''AllowedIPs''"
  by code_simp+

lemma header_lines:
  "TrimSpace ''[Interface]'' = ''[Interface]''" "TrimSpace ''[Peer]'' = ''[Peer]''"
  by (rule TrimSpace_solid, simp add: solid_def)+

definition put_interface :: "InterfaceConfig \<Rightarrow> load_state \<Rightarrow> load_state" where
  "put_interface i ls = ls\<lparr>ls_cfg := (ls_cfg ls)\<lparr>Interface := i\<rparr>\<rparr>"

lemma put_interface_sel [simp]:
  "ls_section (put_interface i ls) = ls_section ls" "Interface (ls_cfg (put_interface i ls)) = i"
  "put_interface j (put_interface i ls) = put_interface j ls" "put_interface (Interface (ls_cfg ls)) ls = ls"
  by (simp_all add: put_interface_def)

lemma interface_field:
  assumes "ls_section ls = ''interface''" "key_ok k" "plain v"
    and "v = [] \<Longrightarrow> Interface (ls_cfg ls) = i" "v \<noteq> [] \<Longrightarrow> parseInterfaceField k v (Interface (ls_cfg ls)) = Inr i"
  shows "load_lines (opt_line k v @ rest) ls = load_lines rest (put_interface i ls)"
proof (cases "v = []")
  case True
  then have "put_interface i ls = ls"
    using assms(4) put_interface_sel(4) by metis
  with True show ?thesis
    by (simp add: opt_line_def)
next
  case False
  with assms show ?thesis
    by (simp add: load_lines_append load_opt_line load_field_def put_interface_def)
qed

lemma printable_simps [simp]:
  "printable []" "printable (a @ b) \<longleftrightarrow> printable a \<and> printable b" "printable (c # s) \<longleftrightarrow> (solid c \<or> c = CHR 0x20) \<and> printable s"
  by (auto simp: printable_def)

lemma plain_words: "plain []" "plain ''true''" "plain ''client''" "plain ''proxy''"
  by code_simp+

lemma prefix4_text:
  assumes "prefix4_ok p"
  obtains a n where "p = \<lparr>pf_ip = Addr4 a, pf_bits = Some n\<rparr>" "n \<le> 32" "Prefix_String p = addr4_String a @ ''/'' @ dec n"
  using assms by (cases p; cases "pf_ip p") (auto simp: prefix4_ok_def Prefix_String_def split: option.splits)

lemma solid_slash: "solid CHR ''/''"
  by (simp add: solid_def)

lemma prefix4_chars:
  assumes "prefix4_ok p" "c \<in> set (Prefix_String p)"
  shows "solid c \<and> c \<noteq> CHR '','' \<and> c \<noteq> CHR ''#''"
  using assms(1)
proof (rule prefix4_text)
  fix a n
  assume "Prefix_String p = addr4_String a @ ''/'' @ dec n"
  then have "c \<in> set (addr4_String a) \<or> c = CHR ''/'' \<or> c \<in> set (dec n)"
    using assms(2) by auto
  then show ?thesis
    using addr4_String_solid [of c a] dec_solid [of c n] solid_slash by fastforce
qed

lemma prefix4_parse:
  assumes "prefix4_ok p"
  shows "ParsePrefix (Prefix_String p) = Some p" "Prefix_String p \<noteq> []" "TrimSpace (Prefix_String p) = Prefix_String p"
proof -
  show "ParsePrefix (Prefix_String p) = Some p" "Prefix_String p \<noteq> []"
    using assms by (auto elim!: prefix4_text simp: ParsePrefix_String4 simp del: append.simps)
  then show "TrimSpace (Prefix_String p) = Prefix_String p"
    using prefix4_chars [OF assms] by (intro TrimSpace_solid) auto
qed

lemma plain_solid: "\<forall>c \<in> set v. solid c \<and> c \<noteq> CHR ''#'' \<Longrightarrow> plain v"
proof -
  assume v: "\<forall>c \<in> set v. solid c \<and> c \<noteq> CHR ''#''"
  then have "Index v '' #'' = None"
    by (intro Index_absent [of "CHR ''#''"]) auto
  with v show "plain v"
    by (simp add: plain_def printable_def)
qed

lemma ToLower_words: "ToLower ''true'' = ''true''" "ToLower ''client'' = ''client''" "ToLower ''proxy'' = ''proxy''"
  by code_simp+

lemma load_interface:
  assumes "plain (PrivateKey i)" "Address i = zero_prefix \<or> prefix4_ok (Address i)" "Role i \<in> {[], ''client'', ''proxy''}"
    and "plain (ListenPort i)" "plain (Relay i)" "plain (STUNServer i)" and "Interface (ls_cfg ls) = zero_interface"
  shows "load_lines (interface_lines i @ rest) ls =
    load_lines rest (ls\<lparr>ls_section := ''interface'', ls_currentPeer := None, ls_cfg := (ls_cfg ls)\<lparr>Interface := i\<rparr>\<rparr>)"
proof -
  let ?z = zero_interface
  let ?addr = "if Address i = zero_prefix then [] else Prefix_String (Address i)"
  let ?skip = "if InsecureSkipVerify i then ''true'' else []"
  define ls0 where "ls0 = ls\<lparr>ls_section := ''interface'', ls_currentPeer := None\<rparr>"
  define i1 where "i1 = ?z\<lparr>PrivateKey := PrivateKey i\<rparr>"
  define i2 where "i2 = i1\<lparr>Address := Address i\<rparr>"
  define i3 where "i3 = i2\<lparr>Role := Role i\<rparr>"
  define i4 where "i4 = i3\<lparr>ListenPort := ListenPort i\<rparr>"
  define i5 where "i5 = i4\<lparr>Relay := Relay i\<rparr>"
  define i6 where "i6 = i5\<lparr>InsecureSkipVerify := InsecureSkipVerify i\<rparr>"
  note ids = i1_def i2_def i3_def i4_def i5_def i6_def zero_interface_def
  have plains: "plain ?addr" "plain (Role i)" "plain ?skip"
    using assms(2,3) plain_words plain_solid prefix4_chars by auto
  have z: "ls_section ls0 = ''interface''" "Interface (ls_cfg ls0) = ?z"
    using assms(7) by (simp_all add: ls0_def)
  have "load_lines (interface_lines i @ rest) ls = load_lines (tl (interface_lines i) @ rest) ls0"
    by (simp add: interface_lines_def load_line_eqs(2) header_lines ls0_def)
  also have "tl (interface_lines i) @ rest = opt_line ''PrivateKey'' (PrivateKey i) @ opt_line ''Address'' ?addr @
      opt_line ''Role'' (Role i) @ opt_line ''ListenPort'' (ListenPort i) @ opt_line ''Relay'' (Relay i) @
      opt_line ''InsecureSkipVerify'' ?skip @ opt_line ''STUNServer'' (STUNServer i) @ rest"
    by (simp add: interface_lines_def)
  also have "load_lines \<dots> ls0 = load_lines (opt_line ''Address'' ?addr @
      opt_line ''Role'' (Role i) @ opt_line ''ListenPort'' (ListenPort i) @ opt_line ''Relay'' (Relay i) @
      opt_line ''InsecureSkipVerify'' ?skip @ opt_line ''STUNServer'' (STUNServer i) @ rest) (put_interface i1 ls0)"
    using z by (intro interface_field keys_ok assms) (auto simp: ids parseInterfaceField_def)
  also have "\<dots> = load_lines (opt_line ''Role'' (Role i) @ opt_line ''ListenPort'' (ListenPort i) @ opt_line ''Relay'' (Relay i) @
      opt_line ''InsecureSkipVerify'' ?skip @ opt_line ''STUNServer'' (STUNServer i) @ rest) (put_interface i2 ls0)"
    using z assms(2) prefix4_parse plains
    by (subst interface_field [where i = i2]) (auto simp: ids parseInterfaceField_def keys_ok split: if_splits)
  also have "\<dots> = load_lines (opt_line ''ListenPort'' (ListenPort i) @ opt_line ''Relay'' (Relay i) @
      opt_line ''InsecureSkipVerify'' ?skip @ opt_line ''STUNServer'' (STUNServer i) @ rest) (put_interface i3 ls0)"
    using z assms(3) plains
    by (subst interface_field [where i = i3]) (auto simp: ids parseInterfaceField_def keys_ok ToLower_words Let_def)
  also have "\<dots> = load_lines (opt_line ''Relay'' (Relay i) @
      opt_line ''InsecureSkipVerify'' ?skip @ opt_line ''STUNServer'' (STUNServer i) @ rest) (put_interface i4 ls0)"
    using z assms(4) by (subst interface_field [where i = i4]) (auto simp: ids parseInterfaceField_def keys_ok)
  also have "\<dots> = load_lines (opt_line ''InsecureSkipVerify'' ?skip @ opt_line ''STUNServer'' (STUNServer i) @ rest) (put_interface i5 ls0)"
    using z assms(5) by (subst interface_field [where i = i5]) (auto simp: ids parseInterfaceField_def keys_ok)
  also have "\<dots> = load_lines (opt_line ''STUNServer'' (STUNServer i) @ rest) (put_interface i6 ls0)"
    using z plains
    by (subst interface_field [where i = i6]) (auto simp: ids parseInterfaceField_def keys_ok ToLower_words split: if_splits)
  also have "\<dots> = load_lines rest (put_interface i ls0)"
    using z assms(6) by (subst interface_field [where i = i]) (auto simp: ids parseInterfaceField_def keys_ok)
  finally show ?thesis
    by (simp add: put_interface_def ls0_def)
qed

text \<open>Within a peer section the fields go to the last peer.\<close>

definition put_last :: "PeerConfig list \<Rightarrow> PeerConfig \<Rightarrow> load_state \<Rightarrow> load_state" where
  "put_last ps p ls =
     ls\<lparr>ls_section := ''peer'', ls_currentPeer := Some (length ps), ls_cfg := (ls_cfg ls)\<lparr>Peers := ps @ [p]\<rparr>\<rparr>"

lemma load_header_peer: "load_line ''[Peer]'' ls = Inr (put_last (Peers (ls_cfg ls)) zero_peer ls)"
  by (cases ls) (simp add: load_line_eqs(3) header_lines put_last_def)

lemma peer_field:
  assumes "key_ok k" "plain v" and "v = [] \<Longrightarrow> q = p" "v \<noteq> [] \<Longrightarrow> parsePeerField k v p = Inr q"
  shows "load_lines (opt_line k v @ rest) (put_last ps p ls) = load_lines rest (put_last ps q ls)"
  using assms
  by (cases "v = []") (simp add: opt_line_def, simp add: load_lines_append load_opt_line load_field_def put_last_def)

lemma parseAllowedIPs_texts:
  "\<forall>q \<in> set qs. prefix4_ok q \<Longrightarrow>
     parseAllowedIPs (map (\<lambda>q. CHR 0x20 # Prefix_String q) qs) p = Inr (p\<lparr>PeerAllowedIPs := PeerAllowedIPs p @ qs\<rparr>)"
  by (induction qs arbitrary: p) (simp_all add: TrimSpace_blank_front prefix4_parse)

lemma allowed_field:
  assumes "\<forall>q \<in> set qs. prefix4_ok q" "qs \<noteq> []"
  shows "parseAllowedIPs (Split CHR '','' (Join (map Prefix_String qs) '', '')) p = Inr (p\<lparr>PeerAllowedIPs := PeerAllowedIPs p @ qs\<rparr>)"
proof -
  have "Split CHR '','' (Join (map Prefix_String qs) '', '') =
      Prefix_String (hd qs) # map (\<lambda>q. CHR 0x20 # Prefix_String q) (tl qs)"
    using assms prefix4_chars by (subst Split_Join) (auto simp: hd_map map_tl comp_def)
  with assms show ?thesis
    by (cases qs) (simp_all add: prefix4_parse parseAllowedIPs_texts)
qed

lemma Join_chars: "c \<in> set (Join xs sep) \<Longrightarrow> c \<in> set sep \<or> (\<exists>x \<in> set xs. c \<in> set x)"
  by (induction xs sep rule: Join.induct) auto

lemma Join_ends:
  "xs \<noteq> [] \<Longrightarrow> \<forall>x \<in> set xs. x \<noteq> [] \<Longrightarrow> Join xs sep \<noteq> [] \<and> hd (Join xs sep) = hd (hd xs) \<and> last (Join xs sep) = last (last xs)"
  by (induction xs sep rule: Join.induct) auto

lemma allowed_text:
  assumes "\<forall>q \<in> set qs. prefix4_ok q"
  shows "plain (Join (map Prefix_String qs) '', '')" "Join (map Prefix_String qs) '', '' = [] \<longleftrightarrow> qs = []"
proof -
  let ?v = "Join (map Prefix_String qs) '', ''"
  have chars: "(solid c \<or> c = CHR 0x20) \<and> c \<noteq> CHR ''#''" if "c \<in> set ?v" for c
    using Join_chars [OF that] assms prefix4_chars by (auto simp: solid_def Let_def)
  have ends: "qs \<noteq> [] \<Longrightarrow> ?v \<noteq> [] \<and> hd ?v = hd (Prefix_String (hd qs)) \<and> last ?v = last (Prefix_String (last qs))"
    using Join_ends [of "map Prefix_String qs" "'', ''"] assms prefix4_parse(2) by (auto simp: hd_map last_map)
  have solid_ends: "solid (hd (Prefix_String q)) \<and> solid (last (Prefix_String q))" if "q \<in> set qs" for q
    using that assms prefix4_chars prefix4_parse(2) by (auto dest: hd_in_set last_in_set)
  have "Index ?v '' #'' = None"
    using chars by (intro Index_absent [of "CHR ''#''"]) auto
  moreover have "?v \<noteq> [] \<longrightarrow> solid (hd ?v) \<and> solid (last ?v)"
    using ends solid_ends by (cases "qs = []") auto
  ultimately show "plain ?v"
    using chars by (auto simp: plain_def printable_def)
  show "?v = [] \<longleftrightarrow> qs = []"
    using ends by (cases "qs = []") auto
qed

lemma load_peer:
  assumes "plain (PublicKey p)" "plain (PeerRelay p)" "\<forall>q \<in> set (PeerAllowedIPs p). prefix4_ok q"
  shows "load_lines (peer_lines p @ rest) ls = load_lines rest (put_last (Peers (ls_cfg ls)) p ls)"
proof -
  let ?ps = "Peers (ls_cfg ls)"
  have "load_lines (peer_lines p @ rest) ls = load_lines (tl (peer_lines p) @ rest) (put_last ?ps zero_peer ls)"
    by (simp add: peer_lines_def load_header_peer)
  also have "\<dots> = load_lines (opt_line ''Relay'' (PeerRelay p) @
      opt_line ''AllowedIPs'' (Join (map Prefix_String (PeerAllowedIPs p)) '', '') @ rest)
      (put_last ?ps (zero_peer\<lparr>PublicKey := PublicKey p\<rparr>) ls)"
    by (simp add: peer_lines_def, subst peer_field [where q = "zero_peer\<lparr>PublicKey := PublicKey p\<rparr>"])
      (auto simp: assms keys_ok parsePeerField_def zero_peer_def)
  also have "\<dots> = load_lines (opt_line ''AllowedIPs'' (Join (map Prefix_String (PeerAllowedIPs p)) '', '') @ rest)
      (put_last ?ps (p\<lparr>PeerAllowedIPs := []\<rparr>) ls)"
    by (subst peer_field [where q = "p\<lparr>PeerAllowedIPs := []\<rparr>"]) (auto simp: assms keys_ok parsePeerField_def zero_peer_def)
  also have "\<dots> = load_lines rest (put_last ?ps p ls)"
    using assms(3) by (subst peer_field [where q = p]) (auto simp: keys_ok allowed_text allowed_field parsePeerField_def)
  finally show ?thesis .
qed

lemma load_peers:
  "\<forall>p \<in> set ps. plain (PublicKey p) \<and> plain (PeerRelay p) \<and> (\<forall>q \<in> set (PeerAllowedIPs p). prefix4_ok q) \<Longrightarrow>
     \<exists>ls'. load_lines (concat (map peer_lines ps)) ls = Inr ls' \<and> Interface (ls_cfg ls') = Interface (ls_cfg ls) \<and>
       Peers (ls_cfg ls') = Peers (ls_cfg ls) @ ps"
proof (induction ps arbitrary: ls)
  case (Cons p ps)
  then obtain ls' where "load_lines (concat (map peer_lines ps)) (put_last (Peers (ls_cfg ls)) p ls) = Inr ls'"
    "Interface (ls_cfg ls') = Interface (ls_cfg ls)" "Peers (ls_cfg ls') = Peers (ls_cfg ls) @ p # ps"
    by (fastforce simp: put_last_def)
  with Cons.prems show ?case
    by (simp add: load_peer)
qed simp

lemma solid_equals: "solid CHR ''=''"
  by (simp add: solid_def)

lemma printable_field: "key_ok k \<Longrightarrow> plain v \<Longrightarrow> l \<in> set (opt_line k v) \<Longrightarrow> printable l"
  using solid_equals by (auto simp: opt_line_def field_line_def key_ok_def plain_def printable_def split: if_splits)

lemma printable_lines: "writable cfg \<Longrightarrow> l \<in> set (config_lines cfg) \<Longrightarrow> printable l"
proof -
  assume w: "writable cfg" and l: "l \<in> set (config_lines cfg)"
  have heads: "printable ''[Interface]''" "printable ''[Peer]''"
    by (simp_all add: solid_def)
  have "printable l" if i: "l \<in> set (interface_lines i)" "i = Interface cfg" for i
  proof -
    have "plain (if Address i = zero_prefix then [] else Prefix_String (Address i))" "plain (Role i)"
      "plain (if InsecureSkipVerify i then ''true'' else [])" "plain (PrivateKey i)" "plain (ListenPort i)" "plain (Relay i)"
      "plain (STUNServer i)"
      using w i(2) plain_words plain_solid prefix4_chars by (auto simp: writable_def Let_def)
    with i(1) show ?thesis
      unfolding interface_lines_def list.set(2) set_append Un_iff insert_iff
      using keys_ok heads printable_field by metis
  qed
  moreover have "printable l" if p: "p \<in> set (Peers cfg)" "l \<in> set (peer_lines p)" for p
  proof -
    have "plain (PublicKey p)" "plain (PeerRelay p)" "plain (Join (map Prefix_String (PeerAllowedIPs p)) '', '')"
      using w p(1) allowed_text by (auto simp: writable_def)
    with p(2) show ?thesis
      unfolding peer_lines_def list.set(2) set_append Un_iff insert_iff
      using keys_ok heads printable_field by metis
  qed
  ultimately show "printable l"
    using l by (auto simp: config_lines_def)
qed

section \<open>Properties\<close>

text \<open>
  C17: a configuration that is written out, one field to a line in the layout of the documentation,
  is read back unchanged: the keys, addresses, relay URLs, roles and the lists of allowed prefixes
  of all peers.
\<close>

theorem config_roundtrip:
  assumes "writable cfg"
  shows "Load (\<lambda>_. Some (config_text cfg, EOF)) path = Inr cfg"
proof -
  obtain ls where ls: "load_lines (concat (map peer_lines (Peers cfg)))
      (load_start\<lparr>ls_section := ''interface'', ls_currentPeer := None, ls_cfg := (ls_cfg load_start)\<lparr>Interface := Interface cfg\<rparr>\<rparr>) = Inr ls"
    "Interface (ls_cfg ls) = Interface cfg" "Peers (ls_cfg ls) = Peers cfg"
    using load_peers [of "Peers cfg"] assms by (fastforce simp: writable_def load_start_def)
  have "load_lines (config_lines cfg) load_start = Inr ls"
    using assms ls(1) unfolding config_lines_def
    by (subst load_interface) (auto simp: writable_def Let_def load_start_def)
  moreover have "ScanLines (config_text cfg) = (config_lines cfg, False)"
    unfolding config_text_def using assms printable_lines by (intro ScanLines_text) (auto simp: writable_def)
  moreover have "ls_cfg ls = cfg"
    using ls(2,3) by (cases "ls_cfg ls"; cases cfg) simp
  ultimately show ?thesis
    by (simp add: Load_def)
qed

definition sample_config :: Config where
  "sample_config =
     \<lparr>Interface = zero_interface\<lparr>PrivateKey := ''c2VlZA=='', Address := \<lparr>pf_ip = Addr4 0x64640001, pf_bits = Some 24\<rparr>, Role := ''client''\<rparr>,
      Peers = [\<lparr>PublicKey = ''a2V5'', PeerRelay = ''https://relay.example.com:443'',
                PeerAllowedIPs = [\<lparr>pf_ip = Addr4 0x64640003, pf_bits = Some 32\<rparr>, \<lparr>pf_ip = Addr4 0x64640002, pf_bits = Some 32\<rparr>]\<rparr>]\<rparr>"

lemma sample_config_writable: "writable sample_config"
  by code_simp

theorem config_roundtrip_witness:
  "writable sample_config \<and> Load (\<lambda>_. Some (config_text sample_config, EOF)) ''malond.conf'' = Inr sample_config"
  using config_roundtrip [OF sample_config_writable] sample_config_writable by blast

text \<open>
  C18: whatever the file holds, a configuration that \<open>Load\<close> returns is well-typed: the role is one of
  the two words or absent, the interface address is a valid prefix or absent, and every allowed
  prefix of every peer is valid, with a length within its address family and without a zone. The
  error for a key in a peer section without a peer is never returned.
\<close>

theorem loaded_config_typed:
  "(\<forall>cfg. Load open path = Inr cfg \<longrightarrow> config_typed cfg) \<and> Load open path \<noteq> Inl (OutsidePeer key)"
  using load_lines_inv [OF load_start_inv] load_lines_in_peer [OF load_start_inv]
  by (auto simp: Load_def load_inv_def split: option.splits prod.splits sum.splits if_splits)

theorem loaded_config_typed_witness:
  "\<exists>cfg. Load (\<lambda>_. Some (''[Interface]'' @ [CHR 0x0A] @ ''Role = Client'', EOF)) ''malond.conf'' = Inr cfg \<and>
     Role (Interface cfg) = ''client'' \<and> config_typed cfg"
proof -
  let ?cfg = "\<lparr>Interface = zero_interface\<lparr>Role := ''client''\<rparr>, Peers = []\<rparr>"
  have "Load (\<lambda>_. Some (''[Interface]'' @ [CHR 0x0A] @ ''Role = Client'', EOF)) ''malond.conf'' = Inr ?cfg"
    by code_simp
  then show ?thesis
    using loaded_config_typed by fastforce
qed

text \<open>A prefix longer than its family is an error.\<close>

lemma bad_prefix_rejected: "parsePeerField ''AllowedIPs'' ''10.0.0.1/32, 10.0.0.0/33'' zero_peer = Inl (InvalidAllowedIPs '' 10.0.0.0/33'')"
  by code_simp

end
