(* ===== verification/RelayDaemon.thy ===== *)
theory RelayDaemon
  imports Relay Config
begin

text \<open>
  The relay as a process: \<open>ListenAndServe\<close> and \<open>Serve\<close> of \<open>internal/relay/relay.go\<close> and
  \<open>cmd/malon-relayd/main.go\<close>. \<open>net/http\<close> and \<open>http2\<close> are the arguments \<open>http_lib\<close>: a server is a value that
  holds the handler, and to serve it ends with an error or without one. The flags are parsed already.
\<close>

section \<open>Servers\<close>

datatype tls_version = VersionTLS10 | VersionTLS11 | VersionTLS12 | VersionTLS13

datatype curve_id = X25519 | CurveP256 | CurveP384 | CurveP521 | X25519MLKEM768

record tls_server_config =
  ts_MinVersion :: tls_version
  ts_CurvePreferences :: "curve_id list"

type_synonym handler_fun = "nat \<Rightarrow> bool \<Rightarrow> http_request \<Rightarrow> Relay \<Rightarrow> nat \<times> relay_log list \<times> Relay"

record http_Server =
  srv_Addr :: string
  srv_Handler :: handler_fun
  srv_TLSConfig :: "tls_server_config option"

record ('ln, 'e) http_lib =
  hl_ConfigureServer :: "http_Server \<Rightarrow> 'e option"
  hl_ListenAndServeTLS :: "http_Server \<Rightarrow> string \<Rightarrow> string \<Rightarrow> 'e option"
  hl_Serve :: "http_Server \<Rightarrow> 'ln \<Rightarrow> 'e option"

datatype 'e serve_err = ConfigureHTTP2 'e | ServeEnded 'e

definition relay_server :: "string \<Rightarrow> http_Server" where
  "relay_server addr =
     \<lparr>srv_Addr = addr, srv_Handler = relay_handleHTTP,
      srv_TLSConfig = Some \<lparr>ts_MinVersion = VersionTLS13, ts_CurvePreferences = [X25519, CurveP256, CurveP384]\<rparr>\<rparr>"

definition relay_ListenAndServe :: "('ln, 'e) http_lib \<Rightarrow> string \<Rightarrow> string \<Rightarrow> string \<Rightarrow> 'e serve_err option" where
  "relay_ListenAndServe lib addr certFile keyFile =
     (let srv = relay_server addr in
      case hl_ConfigureServer lib srv of
        Some e \<Rightarrow> Some (ConfigureHTTP2 e)
      | None \<Rightarrow> map_option ServeEnded (hl_ListenAndServeTLS lib srv certFile keyFile))"

definition relay_Serve :: "('ln, 'e) http_lib \<Rightarrow> 'ln \<Rightarrow> 'e serve_err option" where
  "relay_Serve lib ln =
     (let srv = \<lparr>srv_Addr = [], srv_Handler = relay_handleHTTP, srv_TLSConfig = None\<rparr> in
      case hl_ConfigureServer lib srv of
        Some e \<Rightarrow> Some (ConfigureHTTP2 e)
      | None \<Rightarrow> map_option ServeEnded (hl_Serve lib srv ln))"

section \<open>main\<close>

text \<open>The exit status; \<open>flag\<close> is the value of \<open>-config\<close>, if given.\<close>

definition relayd_main ::
  "('ln, 'e) http_lib \<Rightarrow> (string \<Rightarrow> string option) \<Rightarrow> (string \<Rightarrow> RelayServerConfig option) \<Rightarrow> string option \<Rightarrow> nat" where
  "relayd_main lib readFile tomlDecode flag =
     (let cfgPath = (case flag of None \<Rightarrow> ''malon-relayd.toml'' | Some p \<Rightarrow> p) in
      case LoadRelayServer readFile tomlDecode cfgPath of
        None \<Rightarrow> 1
      | Some cfg \<Rightarrow>
          (case relay_ListenAndServe lib (ListenAddr cfg) (TLSCert cfg) (TLSKey cfg) of
             Some _ \<Rightarrow> 1
           | None \<Rightarrow> 0))"

text \<open>
  Only the server of the configuration is ever started, with TLS 1.3 and the relay's own handler: the
  exit status does not depend on what the library would do with any other one.
\<close>

lemma relayd_serves_only_its_configuration:
  assumes "LoadRelayServer readFile tomlDecode (case flag of None \<Rightarrow> ''malon-relayd.toml'' | Some p \<Rightarrow> p) = Some cfg"
    and "hl_ConfigureServer lib (relay_server (ListenAddr cfg)) = hl_ConfigureServer lib' (relay_server (ListenAddr cfg))"
    and "hl_ListenAndServeTLS lib (relay_server (ListenAddr cfg)) (TLSCert cfg) (TLSKey cfg) =
         hl_ListenAndServeTLS lib' (relay_server (ListenAddr cfg)) (TLSCert cfg) (TLSKey cfg)"
  shows "relayd_main lib readFile tomlDecode flag = relayd_main lib' readFile tomlDecode flag"
  using assms by (simp add: relayd_main_def relay_ListenAndServe_def Let_def split: option.split)

lemma relayd_exit_zero:
  "relayd_main lib readFile tomlDecode flag = 0 \<longleftrightarrow>
     (\<exists>cfg. LoadRelayServer readFile tomlDecode (case flag of None \<Rightarrow> ''malon-relayd.toml'' | Some p \<Rightarrow> p) = Some cfg \<and>
        relay_ListenAndServe lib (ListenAddr cfg) (TLSCert cfg) (TLSKey cfg) = None)"
  by (auto simp: relayd_main_def Let_def split: option.splits)

end
