(* ===== verification/GoChan.thy ===== *)
theory GoChan
  imports Prelude
begin

text \<open>
  Go's buffered channels, as far as the program uses them: the non-blocking send
  (\<open>select\<close> with a \<open>default\<close> branch), the receive and \<open>close\<close>, with the two panics of the
  language (send on a closed channel, close of a closed channel). The locale
  \<open>drop_tail_queue\<close> is the contract that the components rely on: a bounded first-in
  first-out queue that drops what does not fit.
\<close>

section \<open>Channels\<close>

record 'a chan =
  chan_buf :: "'a list"
  chan_cap :: nat
  chan_closed :: bool

definition make_chan :: "nat \<Rightarrow> 'a chan" where
  "make_chan n = \<lparr>chan_buf = [], chan_cap = n, chan_closed = False\<rparr>"

datatype send_outcome = Sent | Dropped | SendPanic

text \<open>\<open>select { case ch <- x: default: }\<close>\<close>

definition try_send :: "'a \<Rightarrow> 'a chan \<Rightarrow> send_outcome \<times> 'a chan" where
  "try_send x c =
     (if chan_closed c then (SendPanic, c)
      else if length (chan_buf c) < chan_cap c then (Sent, c\<lparr>chan_buf := chan_buf c @ [x]\<rparr>)
      else (Dropped, c))"

text \<open>
  \<open>x, ok := <-ch\<close>: buffered elements are delivered also after the channel is closed, then
  \<open>ok\<close> is false; a receive on an open empty channel blocks.
\<close>

datatype 'a recv_outcome = Received 'a | RecvClosed | RecvBlocks

definition try_recv :: "'a chan \<Rightarrow> 'a recv_outcome \<times> 'a chan" where
  "try_recv c =
     (case chan_buf c of
        x # xs \<Rightarrow> (Received x, c\<lparr>chan_buf := xs\<rparr>)
      | [] \<Rightarrow> (if chan_closed c then RecvClosed else RecvBlocks, c))"

text \<open>\<open>close(ch)\<close>; \<open>None\<close> is the panic.\<close>

definition chan_close :: "'a chan \<Rightarrow> 'a chan option" where
  "chan_close c = (if chan_closed c then None else Some (c\<lparr>chan_closed := True\<rparr>))"

definition chan_ok :: "'a chan \<Rightarrow> bool" where
  "chan_ok c \<longleftrightarrow> length (chan_buf c) \<le> chan_cap c"

section \<open>The contract of a queue that drops what does not fit\<close>

locale drop_tail_queue =
  fixes push :: "'a \<Rightarrow> 'q \<Rightarrow> 'q"
    and pop :: "'q \<Rightarrow> ('a \<times> 'q) option"
    and contents :: "'q \<Rightarrow> 'a list"
    and room :: "'q \<Rightarrow> nat"
  assumes push_contents: "contents (push x q) = contents q @ take (room q) [x]"
    and push_room: "room (push x q) = room q - 1"
    and pop_None: "pop q = None \<longleftrightarrow> contents q = []"
    and pop_Some: "pop q = Some (x, q') \<Longrightarrow> contents q = x # contents q'"
begin

text \<open>A burst of sends keeps the first elements that there is room for, in order.\<close>

lemma push_all: "contents (fold push xs q) = contents q @ take (room q) xs"
proof (induction xs arbitrary: q)
  case (Cons x xs)
  then show ?case
    by (cases "room q") (simp_all add: push_contents push_room)
qed simp

fun drain :: "nat \<Rightarrow> 'q \<Rightarrow> 'a list" where
  "drain 0 q = []"
| "drain (Suc n) q = (case pop q of None \<Rightarrow> [] | Some (x, q') \<Rightarrow> x # drain n q')"

text \<open>The receiver gets the contents in order, whatever it does between two receives.\<close>

lemma drain_contents: "drain n q = take n (contents q)"
proof (induction n arbitrary: q)
  case (Suc n)
  then show ?case
    using pop_None [of q] by (cases "pop q") (auto dest: pop_Some)
qed simp

end

section \<open>Channels meet the contract\<close>

definition chan_push :: "'a \<Rightarrow> 'a chan \<Rightarrow> 'a chan" where
  "chan_push x c = snd (try_send x c)"

definition chan_pop :: "'a chan \<Rightarrow> ('a \<times> 'a chan) option" where
  "chan_pop c = (case try_recv c of (Received x, c') \<Rightarrow> Some (x, c') | _ \<Rightarrow> None)"

definition chan_room :: "'a chan \<Rightarrow> nat" where
  "chan_room c = (if chan_closed c then 0 else chan_cap c - length (chan_buf c))"

interpretation chanq: drop_tail_queue chan_push chan_pop chan_buf chan_room
proof
  fix x :: 'a and c c' :: "'a chan"
  show "chan_buf (chan_push x c) = chan_buf c @ take (chan_room c) [x]"
    by (auto simp: chan_push_def try_send_def chan_room_def take_Cons')
  show "chan_room (chan_push x c) = chan_room c - 1"
    by (auto simp: chan_push_def try_send_def chan_room_def)
  show "chan_pop c = None \<longleftrightarrow> chan_buf c = []"
    by (auto simp: chan_pop_def try_recv_def split: list.splits)
  show "chan_pop c = Some (x, c') \<Longrightarrow> chan_buf c = x # chan_buf c'"
    by (auto simp: chan_pop_def try_recv_def split: list.splits if_splits)
qed

lemma chan_ok_make [simp]: "chan_ok (make_chan n)"
  by (simp add: chan_ok_def make_chan_def)

lemma make_chan_simps [simp]:
  "chan_buf (make_chan n) = []" "chan_cap (make_chan n) = n" "\<not> chan_closed (make_chan n)"
  by (simp_all add: make_chan_def)

lemma chan_push_simps [simp]:
  "chan_cap (chan_push x c) = chan_cap c" "chan_closed (chan_push x c) = chan_closed c"
  by (auto simp: chan_push_def try_send_def)

lemma chan_ok_push [simp]: "chan_ok c \<Longrightarrow> chan_ok (chan_push x c)"
  by (auto simp: chan_ok_def chan_push_def try_send_def)

lemma chan_ok_closed [simp]: "chan_ok (c\<lparr>chan_closed := b\<rparr>) = chan_ok c"
  by (simp add: chan_ok_def)

lemma chan_room_simps [simp]:
  "chan_room (make_chan n) = n"
  "chan_closed c \<Longrightarrow> chan_room c = 0"
  by (simp_all add: chan_room_def)

lemma try_recv_keeps:
  "try_recv c = (out, c') \<Longrightarrow> chan_cap c' = chan_cap c \<and> chan_closed c' = chan_closed c \<and>
     (chan_ok c \<longrightarrow> chan_ok c')"
  by (auto simp: try_recv_def chan_ok_def split: list.splits if_splits)

end
