(* ===== verification/Capsule.thy ===== *)
theory Capsule
  imports GoChan
begin

text \<open>
  \<open>internal/h2proxy/capsule.go\<close>: QUIC variable-length integers (RFC 9000) and the capsule
  framing (RFC 9297) that separates IP packets from control messages on one tunnel. The reader's
  loop is a terminating function: every capsule that it skips consumes at least two bytes.
\<close>

section \<open>Variable-length integers\<close>

fun readVarint_loop :: "nat \<Rightarrow> u64 \<Rightarrow> reader \<Rightarrow> (io_err + u64) \<times> reader" where
  "readVarint_loop 0 val r = (Inr val, r)"
| "readVarint_loop (Suc n) val r =
     (case ReadByte r of
        (Inl e, r') \<Rightarrow> (Inl e, r')
      | (Inr b, r') \<Rightarrow> readVarint_loop n (push_bit 8 val OR ucast b) r')"

definition readVarint :: "reader \<Rightarrow> (io_err + u64) \<times> reader" where
  "readVarint r =
     (case ReadByte r of
        (Inl e, r') \<Rightarrow> (Inl e, r')
      | (Inr b, r') \<Rightarrow>
          (let prefix = drop_bit 6 b;
               val = ucast (b AND 0x3f);
               n = 2 ^ unat prefix
           in readVarint_loop (n - 1) val r'))"

definition appendVarint :: "bytes \<Rightarrow> u64 \<Rightarrow> bytes" where
  "appendVarint b v =
     (if v < 64 then b @ [ucast v]
      else if v < 16384 then b @ [ucast (drop_bit 8 v) OR 0x40, ucast v]
      else if v < 1073741824 then
        b @ [ucast (drop_bit 24 v) OR 0x80, ucast (drop_bit 16 v), ucast (drop_bit 8 v), ucast v]
      else
        b @ [ucast (drop_bit 56 v) OR 0xc0, ucast (drop_bit 48 v), ucast (drop_bit 40 v),
             ucast (drop_bit 32 v), ucast (drop_bit 24 v), ucast (drop_bit 16 v),
             ucast (drop_bit 8 v), ucast v])"

lemma appendVarint_append: "appendVarint b v = b @ appendVarint [] v"
  by (simp add: appendVarint_def)

lemma length_appendVarint: "1 \<le> length (appendVarint [] v) \<and> length (appendVarint [] v) \<le> 8"
  by (simp add: appendVarint_def)

text \<open>
  One turn of the reader's loop undoes one shift of the writer, and the six low bits of the first
  byte are what is left of a value that fits.
\<close>

lemma varint_step:
  "push_bit 8 (drop_bit (8 + k) v) OR ucast (ucast (drop_bit k v) :: byte) = drop_bit k (v :: u64)"
  by (rule bit_word_eqI) (auto simp: bit_simps add.assoc)

lemma less_exp_bit:
  assumes "v < 2 ^ k" "k \<le> n"
  shows "\<not> bit (v :: u64) n"
proof -
  have "take_bit k v = v"
    using less_mask_eq [OF assms(1)] by (simp add: take_bit_eq_mask)
  then have "bit v n \<longleftrightarrow> bit (take_bit k v) n"
    by simp
  with assms(2) show ?thesis
    by (simp add: bit_simps)
qed

lemma and_0x3f: "(b :: byte) AND 0x3f = take_bit 6 b"
  using take_bit_eq_mask [of 6 b] by (simp add: mask_eq_exp_minus_1)

lemma varint_first:
  assumes "v < 2 ^ (k + 6)"
  shows "drop_bit 6 (ucast (drop_bit k v) :: byte) = 0"
    and "ucast ((ucast (drop_bit k v) :: byte) AND 0x3f) = drop_bit k (v :: u64)"
proof -
  have top: "n < 6" if "bit v (k + n)" for n
    using less_exp_bit [OF assms, of "k + n"] that by (auto simp: not_le [symmetric])
  then show "drop_bit 6 (ucast (drop_bit k v) :: byte) = 0"
    by (fastforce simp: bit_simps intro: bit_word_eqI)
  show "ucast ((ucast (drop_bit k v) :: byte) AND 0x3f) = drop_bit k (v :: u64)"
    by (rule bit_word_eqI) (auto simp: and_0x3f bit_simps dest: top)
qed

lemma varint_tag:
  "((x OR 0x40) AND 0x3f :: byte) = x AND 0x3f" "drop_bit 6 (x OR 0x40 :: byte) = drop_bit 6 x OR 1"
  "((x OR 0x80) AND 0x3f :: byte) = x AND 0x3f" "drop_bit 6 (x OR 0x80 :: byte) = drop_bit 6 x OR 2"
  "((x OR 0xc0) AND 0x3f :: byte) = x AND 0x3f" "drop_bit 6 (x OR 0xc0 :: byte) = drop_bit 6 x OR 3"
  by (simp_all add: bit.conj_disj_distrib2 drop_bit_or)

lemma readVarint_loop_numeral [simp]:
  "readVarint_loop (numeral n) val r =
     (case ReadByte r of
        (Inl e, r') \<Rightarrow> (Inl e, r')
      | (Inr b, r') \<Rightarrow> readVarint_loop (pred_numeral n) (push_bit 8 val OR ucast b) r')"
  by (simp add: numeral_eq_Suc)

lemma readVarint_appendVarint [wire_simps]:
  assumes "v < 2 ^ 62"
  shows "readVarint (r\<lparr>rd_data := appendVarint [] v @ rest\<rparr>) = (Inr v, r\<lparr>rd_data := rest\<rparr>)"
proof -
  consider "v < 64" | "\<not> v < 64" "v < 16384" | "\<not> v < 64" "\<not> v < 16384" "v < 1073741824"
    | "\<not> v < 64" "\<not> v < 16384" "\<not> v < 1073741824"
    by blast
  then show ?thesis
  proof cases
    case 1
    then show ?thesis
      using varint_first [of v 0] by (simp add: appendVarint_def readVarint_def wire_simps)
  next
    case 2
    then show ?thesis
      using varint_first [of v 8] varint_step [of 0 v]
      by (simp add: appendVarint_def readVarint_def wire_simps varint_tag)
  next
    case 3
    then show ?thesis
      using varint_first [of v 24] varint_step [of 0 v] varint_step [of 8 v] varint_step [of 16 v]
      by (simp add: appendVarint_def readVarint_def wire_simps varint_tag)
  next
    case 4
    then show ?thesis
      using assms varint_first [of v 56] varint_step [of 0 v] varint_step [of 8 v] varint_step [of 16 v]
        varint_step [of 24 v] varint_step [of 32 v] varint_step [of 40 v] varint_step [of 48 v]
      by (simp add: appendVarint_def readVarint_def wire_simps varint_tag)
  qed
qed

lemma readVarint_loop_consumes:
  "readVarint_loop n val r = (res, r') \<Longrightarrow>
     length (rd_data r') \<le> length (rd_data r) \<and> rd_end r' = rd_end r"
proof (induction n val r rule: readVarint_loop.induct)
  case (2 n val r)
  then show ?case
    by (fastforce simp: ReadByte_def split: list.splits)
qed simp

lemma readVarint_consumes:
  "readVarint r = (Inr v, r') \<Longrightarrow> length (rd_data r') < length (rd_data r)"
  by (auto simp: readVarint_def ReadByte_def Let_def split: list.splits dest!: readVarint_loop_consumes)

section \<open>Capsules\<close>

definition capsuleTypeIPPacket :: u64 where "capsuleTypeIPPacket = 0"
definition capsuleTypeControl :: u64 where "capsuleTypeControl = 1"
definition maxCapsuleLen :: u64 where "maxCapsuleLen = 65536"

text \<open>
  The reading half of \<open>capsuleConn\<close>: the buffered reader and the channel for control payloads,
  \<open>None\<close> where the source's channel is nil. The writing half is the \<open>io.Writer\<close> argument of
  \<open>WritePacket\<close> and \<open>WriteControl\<close>.
\<close>

record capsule_conn =
  cc_rd :: reader
  cc_ctrlCh :: "bytes chan option"

datatype capsule_err =
    ReadTypeVarint io_err | ReadLengthVarint io_err | PayloadTooLong u64
  | ReadControlPayload io_err | DiscardFailed u64 io_err | PacketExceedsBuffer u64 nat
  | ReadPacketPayload io_err | WriteCapsuleHeader io_err | WriteCapsulePayload io_err
  | ControlChannelPanic

text \<open>\<open>io.CopyN(io.Discard, r, n)\<close>: a source that ends early gives its error, \<open>io.EOF\<close> as such.\<close>

definition CopyN_Discard :: "nat \<Rightarrow> reader \<Rightarrow> io_err option \<times> reader" where
  "CopyN_Discard n r =
     (if n \<le> length (rd_data r) then (None, r\<lparr>rd_data := drop n (rd_data r)\<rparr>)
      else (Some (rd_end r), r\<lparr>rd_data := []\<rparr>))"

text \<open>The delivery of a control payload: dropped without a channel and when the channel is full.\<close>

definition deliver_control :: "bytes \<Rightarrow> bytes chan option \<Rightarrow> capsule_err + bytes chan option" where
  "deliver_control payload ctrlCh =
     (case ctrlCh of
        None \<Rightarrow> Inr None
      | Some ch \<Rightarrow>
          (case try_send payload ch of
             (SendPanic, _) \<Rightarrow> Inl ControlChannelPanic
           | (_, ch') \<Rightarrow> Inr (Some ch')))"

function capsule_ReadPacket :: "nat \<Rightarrow> capsule_conn \<Rightarrow> (capsule_err + bytes) \<times> capsule_conn" where
  "capsule_ReadPacket bufLen c =
     (case readVarint (cc_rd c) of
        (Inl e, r1) \<Rightarrow> (Inl (ReadTypeVarint e), c\<lparr>cc_rd := r1\<rparr>)
      | (Inr ct, r1) \<Rightarrow>
     (case readVarint r1 of
        (Inl e, r2) \<Rightarrow> (Inl (ReadLengthVarint e), c\<lparr>cc_rd := r2\<rparr>)
      | (Inr payloadLen, r2) \<Rightarrow>
          (if payloadLen > maxCapsuleLen then (Inl (PayloadTooLong payloadLen), c\<lparr>cc_rd := r2\<rparr>)
           else if ct = capsuleTypeControl then
             (case ReadFull (unat payloadLen) r2 of
                (Inl e, r3) \<Rightarrow> (Inl (ReadControlPayload e), c\<lparr>cc_rd := r3\<rparr>)
              | (Inr payload, r3) \<Rightarrow>
                  (case deliver_control payload (cc_ctrlCh c) of
                     Inl e \<Rightarrow> (Inl e, c\<lparr>cc_rd := r3\<rparr>)
                   | Inr ch \<Rightarrow> capsule_ReadPacket bufLen (c\<lparr>cc_rd := r3, cc_ctrlCh := ch\<rparr>)))
           else if ct \<noteq> capsuleTypeIPPacket then
             (case CopyN_Discard (unat payloadLen) r2 of
                (Some e, r3) \<Rightarrow> (Inl (DiscardFailed ct e), c\<lparr>cc_rd := r3\<rparr>)
              | (None, r3) \<Rightarrow> capsule_ReadPacket bufLen (c\<lparr>cc_rd := r3\<rparr>))
           else if unat payloadLen > bufLen then
             (Inl (PacketExceedsBuffer payloadLen bufLen), c\<lparr>cc_rd := r2\<rparr>)
           else
             (case ReadFull (unat payloadLen) r2 of
                (Inl e, r3) \<Rightarrow> (Inl (ReadPacketPayload e), c\<lparr>cc_rd := r3\<rparr>)
              | (Inr pkt, r3) \<Rightarrow> (Inr pkt, c\<lparr>cc_rd := r3\<rparr>)))))"
  by pat_completeness auto
termination
proof (relation "measure (\<lambda>(_, c). length (rd_data (cc_rd c)))", goal_cases)
  case 1
  show ?case by simp
next
  case (2 bufLen c x r1 ct x2 r2 plen x3 r3 payload ch)
  then show ?case
    by (auto dest!: readVarint_consumes [OF sym] ReadFull_Inr [OF sym])
next
  case (3 bufLen c x r1 ct x2 r2 plen x3 r3)
  then show ?case
    by (auto simp: CopyN_Discard_def split: if_splits dest!: readVarint_consumes [OF sym])
qed

declare capsule_ReadPacket.simps [simp del]

definition capsule_WritePacket :: "'w write_fn \<Rightarrow> 'w \<Rightarrow> bytes \<Rightarrow> capsule_err option \<times> 'w" where
  "capsule_WritePacket wr w pkt =
     (let hdr = appendVarint [] capsuleTypeIPPacket;
          hdr = appendVarint hdr (of_nat (length pkt))
      in case wr w hdr of
           (Some e, w') \<Rightarrow> (Some (WriteCapsuleHeader e), w')
         | (None, w') \<Rightarrow>
             (case wr w' pkt of
                (Some e, w'') \<Rightarrow> (Some (WriteCapsulePayload e), w'')
              | (None, w'') \<Rightarrow> (None, w'')))"

definition capsule_WriteControl :: "'w write_fn \<Rightarrow> 'w \<Rightarrow> bytes \<Rightarrow> capsule_err option \<times> 'w" where
  "capsule_WriteControl wr w payload =
     (let hdr = appendVarint [] capsuleTypeControl;
          hdr = appendVarint hdr (of_nat (length payload))
      in case wr w hdr of
           (Some e, w') \<Rightarrow> (Some (WriteCapsuleHeader e), w')
         | (None, w') \<Rightarrow>
             (case wr w' payload of
                (Some e, w'') \<Rightarrow> (Some (WriteCapsulePayload e), w'')
              | (None, w'') \<Rightarrow> (None, w'')))"

section \<open>Capsules on the wire\<close>

text \<open>The capsules that a peer may send; the third kind is what a later version might add.\<close>

datatype capsule = IPPacket bytes | Control bytes | OtherCapsule u64 bytes

fun capsule_type :: "capsule \<Rightarrow> u64" where
  "capsule_type (IPPacket _) = capsuleTypeIPPacket"
| "capsule_type (Control _) = capsuleTypeControl"
| "capsule_type (OtherCapsule ct _) = ct"

fun capsule_payload :: "capsule \<Rightarrow> bytes" where
  "capsule_payload (IPPacket p) = p"
| "capsule_payload (Control p) = p"
| "capsule_payload (OtherCapsule _ p) = p"

definition capsule_frame :: "capsule \<Rightarrow> bytes" where
  "capsule_frame c =
     appendVarint (appendVarint [] (capsule_type c)) (of_nat (length (capsule_payload c)))
       @ capsule_payload c"

definition capsule_wire :: "capsule list \<Rightarrow> bytes" where
  "capsule_wire cs = concat (map capsule_frame cs)"

text \<open>What the reader accepts: a payload within the limit, a packet that fits the buffer.\<close>

fun capsule_fits :: "nat \<Rightarrow> capsule \<Rightarrow> bool" where
  "capsule_fits bufLen (IPPacket p) \<longleftrightarrow> length p \<le> 65536 \<and> length p \<le> bufLen"
| "capsule_fits bufLen (Control p) \<longleftrightarrow> length p \<le> 65536"
| "capsule_fits bufLen (OtherCapsule ct p) \<longleftrightarrow> length p \<le> 65536 \<and> 1 < ct \<and> ct < 2 ^ 62"

context io_writer
begin

lemma WritePacket_ok:
  "capsule_WritePacket wr w pkt = (None, w') \<Longrightarrow> written w' = written w @ capsule_frame (IPPacket pkt)"
  by (auto simp: capsule_WritePacket_def capsule_frame_def Let_def split: prod.splits option.splits
      dest!: write_ok)

lemma WriteControl_ok:
  "capsule_WriteControl wr w p = (None, w') \<Longrightarrow> written w' = written w @ capsule_frame (Control p)"
  by (auto simp: capsule_WriteControl_def capsule_frame_def Let_def split: prod.splits option.splits
      dest!: write_ok)

end

lemma capsule_frame_append:
  "capsule_frame c @ rest =
     appendVarint [] (capsule_type c) @ appendVarint [] (of_nat (length (capsule_payload c)))
       @ capsule_payload c @ rest"
  by (simp add: capsule_frame_def appendVarint_append [of "appendVarint [] _"])

lemma capsule_length:
  assumes "n \<le> 65536"
  shows "unat (of_nat n :: u64) = n" "\<not> (of_nat n :: u64) > maxCapsuleLen" "(of_nat n :: u64) < 2 ^ 62"
  using assms by (simp_all add: unat_of_nat maxCapsuleLen_def word_less_nat_alt)

lemma capsule_fits_props:
  "capsule_fits bufLen c \<Longrightarrow> length (capsule_payload c) \<le> 65536 \<and> capsule_type c < 2 ^ 62"
  by (cases c) (auto simp: capsuleTypeIPPacket_def capsuleTypeControl_def)

text \<open>One capsule at the head of the stream: a packet is returned, the others are passed over.\<close>

lemma ReadPacket_frame:
  assumes "capsule_fits bufLen c" "cc_rd s = r\<lparr>rd_data := capsule_frame c @ rest\<rparr>"
  shows "capsule_ReadPacket bufLen s =
    (case c of
       IPPacket p \<Rightarrow> (Inr p, s\<lparr>cc_rd := r\<lparr>rd_data := rest\<rparr>\<rparr>)
     | Control p \<Rightarrow>
         (case deliver_control p (cc_ctrlCh s) of
            Inl e \<Rightarrow> (Inl e, s\<lparr>cc_rd := r\<lparr>rd_data := rest\<rparr>\<rparr>)
          | Inr ch \<Rightarrow> capsule_ReadPacket bufLen (s\<lparr>cc_rd := r\<lparr>rd_data := rest\<rparr>, cc_ctrlCh := ch\<rparr>))
     | OtherCapsule _ _ \<Rightarrow> capsule_ReadPacket bufLen (s\<lparr>cc_rd := r\<lparr>rd_data := rest\<rparr>\<rparr>))"
proof -
  note len = capsule_length [of "length (capsule_payload c)"] capsule_fits_props [OF assms(1)]
  show ?thesis
    using assms len
    by (subst capsule_ReadPacket.simps)
      (auto simp: capsule_frame_append wire_simps capsuleTypeControl_def capsuleTypeIPPacket_def
        CopyN_Discard_def ReadFull_append split: capsule.splits)
qed

lemma ReadPacket_bounds:
  "capsule_ReadPacket bufLen s = (Inr pkt, s') \<Longrightarrow>
     length pkt \<le> bufLen \<and> length pkt \<le> 65536 \<and>
     length (rd_data (cc_rd s')) < length (rd_data (cc_rd s))"
proof (induction bufLen s rule: capsule_ReadPacket.induct)
  case (1 bufLen s)
  obtain ct r1 plen r2 where v: "readVarint (cc_rd s) = (Inr ct, r1)" "readVarint r1 = (Inr plen, r2)"
    and le: "\<not> plen > maxCapsuleLen"
    using "1.prems" by (subst (asm) capsule_ReadPacket.simps) (auto split: prod.splits sum.splits if_splits)
  have shrink: "length (rd_data r2) < length (rd_data (cc_rd s))" and small: "unat plen \<le> 65536"
    using v [THEN readVarint_consumes] le by (auto simp: maxCapsuleLen_def word_less_nat_alt)
  consider (pkt) "ReadFull (unat plen) r2 = (Inr pkt, cc_rd s')" "unat plen \<le> bufLen"
    | (ctrl) p r3 ch where "ct = capsuleTypeControl" "ReadFull (unat plen) r2 = (Inr p, r3)"
        "deliver_control p (cc_ctrlCh s) = Inr ch"
        "capsule_ReadPacket bufLen (s\<lparr>cc_rd := r3, cc_ctrlCh := ch\<rparr>) = (Inr pkt, s')"
    | (skip) r3 where "ct \<noteq> capsuleTypeControl" "ct \<noteq> capsuleTypeIPPacket"
        "CopyN_Discard (unat plen) r2 = (None, r3)"
        "capsule_ReadPacket bufLen (s\<lparr>cc_rd := r3\<rparr>) = (Inr pkt, s')"
    using "1.prems" v le
    by (subst (asm) capsule_ReadPacket.simps)
      (auto split: prod.splits sum.splits if_splits option.splits)
  then show ?case
  proof cases
    case pkt
    with shrink small show ?thesis by (auto dest!: ReadFull_Inr)
  next
    case ctrl
    from "1.IH"(1) [OF v(1) [symmetric] refl v(2) [symmetric] refl le ctrl(1) ctrl(2) [symmetric] refl ctrl(3,4)]
    show ?thesis using shrink ReadFull_Inr [OF ctrl(2)] by auto
  next
    case skip
    from "1.IH"(2) [OF v(1) [symmetric] refl v(2) [symmetric] refl le skip(1,2) skip(3) [symmetric] refl skip(4)]
    show ?thesis using shrink skip(3) by (auto simp: CopyN_Discard_def split: if_splits)
  qed
qed

text \<open>The reader of a tunnel calls \<open>ReadPacket\<close> until it fails: the packets, the error, the end state.\<close>

function capsule_drain :: "nat \<Rightarrow> capsule_conn \<Rightarrow> bytes list \<times> capsule_err \<times> capsule_conn" where
  "capsule_drain bufLen s =
     (case capsule_ReadPacket bufLen s of
        (Inl e, s') \<Rightarrow> ([], e, s')
      | (Inr pkt, s') \<Rightarrow> (case capsule_drain bufLen s' of (pkts, e, s'') \<Rightarrow> (pkt # pkts, e, s'')))"
  by pat_completeness auto
termination
  by (relation "measure (\<lambda>(_, s). length (rd_data (cc_rd s)))") (auto dest: ReadPacket_bounds [OF sym])

declare capsule_drain.simps [simp del]

fun packets_of :: "capsule list \<Rightarrow> bytes list" where
  "packets_of [] = []"
| "packets_of (IPPacket p # cs) = p # packets_of cs"
| "packets_of (_ # cs) = packets_of cs"

fun controls_of :: "capsule list \<Rightarrow> bytes list" where
  "controls_of [] = []"
| "controls_of (Control p # cs) = p # controls_of cs"
| "controls_of (_ # cs) = controls_of cs"

lemma deliver_control_open:
  "\<not> chan_closed ch \<Longrightarrow> deliver_control p (Some ch) = Inr (Some (chan_push p ch))"
  by (simp add: deliver_control_def chan_push_def try_send_def)

lemma capsule_drain_skip:
  "capsule_ReadPacket n s = capsule_ReadPacket n s' \<Longrightarrow> capsule_drain n s = capsule_drain n s'"
  by (subst (1 2) capsule_drain.simps) simp

lemma capsule_drain_wire:
  assumes "\<forall>c \<in> set cs. capsule_fits n c" "\<not> chan_closed ch"
    and "cc_rd s = r\<lparr>rd_data := capsule_wire cs\<rparr>" "cc_ctrlCh s = Some ch"
  shows "capsule_drain n s =
    (packets_of cs, ReadTypeVarint (rd_end r),
     s\<lparr>cc_rd := r\<lparr>rd_data := []\<rparr>, cc_ctrlCh := Some (fold chan_push (controls_of cs) ch)\<rparr>)"
  using assms
proof (induction cs arbitrary: s ch)
  case Nil
  then have "capsule_ReadPacket n s = (Inl (ReadTypeVarint (rd_end r)), s\<lparr>cc_rd := r\<lparr>rd_data := []\<rparr>\<rparr>)"
    by (subst capsule_ReadPacket.simps) (simp add: readVarint_def ReadByte_def capsule_wire_def)
  with Nil show ?case
    by (subst capsule_drain.simps) simp
next
  case (Cons c cs)
  let ?r = "r\<lparr>rd_data := capsule_wire cs\<rparr>"
  have fits: "capsule_fits n c" and rd: "cc_rd s = r\<lparr>rd_data := capsule_frame c @ capsule_wire cs\<rparr>"
    using Cons.prems by (simp_all add: capsule_wire_def)
  note step = ReadPacket_frame [OF fits rd]
  show ?case
  proof (cases c)
    case (IPPacket p)
    then have "capsule_ReadPacket n s = (Inr p, s\<lparr>cc_rd := ?r\<rparr>)"
      using step by simp
    then show ?thesis
      using Cons.IH [of ch "s\<lparr>cc_rd := ?r\<rparr>"] Cons.prems IPPacket
      by (subst capsule_drain.simps) simp
  next
    case (Control p)
    then have "capsule_drain n s = capsule_drain n (s\<lparr>cc_rd := ?r, cc_ctrlCh := Some (chan_push p ch)\<rparr>)"
      using step Cons.prems by (intro capsule_drain_skip) (simp add: deliver_control_open)
    then show ?thesis
      using Cons.IH [of "chan_push p ch"] Cons.prems Control by simp
  next
    case (OtherCapsule ct p)
    then have "capsule_drain n s = capsule_drain n (s\<lparr>cc_rd := ?r\<rparr>)"
      using step by (intro capsule_drain_skip) simp
    then show ?thesis
      using Cons.IH [of ch] Cons.prems OtherCapsule by simp
  qed
qed

section \<open>Properties\<close>

lemma varint_long:
  assumes "v < 2 ^ 62"
  shows "readVarint (r\<lparr>rd_data := [ucast (drop_bit 56 v) OR 0xc0, ucast (drop_bit 48 v),
      ucast (drop_bit 40 v), ucast (drop_bit 32 v), ucast (drop_bit 24 v), ucast (drop_bit 16 v),
      ucast (drop_bit 8 v), ucast v] @ rest\<rparr>) = (Inr v, r\<lparr>rd_data := rest\<rparr>)"
  using assms varint_first [of v 56] varint_step [of 0 v] varint_step [of 8 v] varint_step [of 16 v]
    varint_step [of 24 v] varint_step [of 32 v] varint_step [of 40 v] varint_step [of 48 v]
  by (simp add: readVarint_def wire_simps varint_tag)

lemma varint_long_cut:
  "v \<ge> 2 ^ 62 \<Longrightarrow> readVarint (r\<lparr>rd_data := appendVarint [] v @ rest\<rparr>) =
     (Inr (take_bit 62 v), r\<lparr>rd_data := rest\<rparr>)"
proof -
  assume v: "v \<ge> 2 ^ 62"
  let ?v = "take_bit 62 v"
  have "ucast (drop_bit k v) = (ucast (drop_bit k ?v) :: byte)" if "k \<le> 54" for k
    using that by (intro bit_word_eqI) (auto simp: bit_simps)
  note low = this [of 0] this [of 8] this [of 16] this [of 24] this [of 32] this [of 40] this [of 48]
  have top: "ucast (drop_bit 56 v) OR 0xc0 = (ucast (drop_bit 56 ?v) OR 0xc0 :: byte)"
    by (rule bit_word_eqI) (auto simp: bit_simps dest!: less_8_cases)
  have "?v < 2 ^ 62"
    using take_bit_eq_mask [of 62 v] and_mask_less' [of 62 v] by simp
  from varint_long [OF this] show ?thesis
    using v low top by (simp add: appendVarint_def word_le_nat_alt word_less_nat_alt)
qed

text \<open>
  A variable-length integer survives the round trip modulo \<open>2 ^ 62\<close>, the range of the format,
  whatever follows it on the stream, and is written in the shortest of the four forms.
\<close>

theorem varint_roundtrip:
  "readVarint (r\<lparr>rd_data := appendVarint [] v @ rest\<rparr>) = (Inr (v mod 2 ^ 62), r\<lparr>rd_data := rest\<rparr>) \<and>
   length (appendVarint [] v) =
     (if v < 2 ^ 6 then 1 else if v < 2 ^ 14 then 2 else if v < 2 ^ 30 then 4 else 8)"
proof
  show "readVarint (r\<lparr>rd_data := appendVarint [] v @ rest\<rparr>) = (Inr (v mod 2 ^ 62), r\<lparr>rd_data := rest\<rparr>)"
  proof (cases "v < 2 ^ 62")
    case True
    then have "v mod 2 ^ 62 = v"
      by (rule mod_word_less)
    with True show ?thesis by (simp only: readVarint_appendVarint)
  next
    case False
    then show ?thesis
      by (simp only: varint_long_cut linorder_not_less take_bit_eq_mod [symmetric])
  qed
qed (simp add: appendVarint_def)

text \<open>
  A tunnel that carries any mix of packets, control messages and unknown capsules, each within
  the limits, delivers exactly the packets, in order, and ends with the error of the stream; the
  control messages reach the control channel in order, up to the room that it has, and the unknown
  capsules leave no trace.
\<close>

lemma capsule_stream_demultiplexed:
  assumes "\<forall>c \<in> set cs. capsule_fits n c" and "\<not> chan_closed ch"
  shows "\<exists>ch'. capsule_drain n \<lparr>cc_rd = \<lparr>rd_data = capsule_wire cs, rd_end = e\<rparr>, cc_ctrlCh = Some ch\<rparr> =
      (packets_of cs, ReadTypeVarint e, \<lparr>cc_rd = \<lparr>rd_data = [], rd_end = e\<rparr>, cc_ctrlCh = Some ch'\<rparr>) \<and>
    chan_buf ch' = chan_buf ch @ take (chan_room ch) (controls_of cs)"
  using capsule_drain_wire [OF assms, of _ "\<lparr>rd_data = [], rd_end = e\<rparr>"]
  by (auto simp: chanq.push_all)

text \<open>
  C24: whatever bytes arrive, a packet that \<open>ReadPacket\<close> returns fits the caller's buffer and the
  limit of 64 KiB, and input has been consumed, so that a loop over it comes to an end.
\<close>

theorem ReadPacket_within_bounds:
  assumes "capsule_ReadPacket bufLen s = (Inr pkt, s')"
  shows "length pkt \<le> bufLen \<and> length pkt \<le> 65536 \<and>
    length (rd_data (cc_rd s')) < length (rd_data (cc_rd s))"
  using assms by (rule ReadPacket_bounds)

theorem ReadPacket_within_bounds_witness:
  "length [4, 5 :: byte] \<le> 1500 \<and> length [4, 5 :: byte] \<le> 65536 \<and>
   (\<exists>s'. capsule_ReadPacket 1500 \<lparr>cc_rd = \<lparr>rd_data = capsule_frame (IPPacket [4, 5]), rd_end = EOF\<rparr>,
      cc_ctrlCh = None\<rparr> = (Inr [4, 5], s'))"
proof -
  let ?s = "\<lparr>cc_rd = \<lparr>rd_data = capsule_frame (IPPacket [4, 5]), rd_end = EOF\<rparr>, cc_ctrlCh = None\<rparr>"
  have "capsule_ReadPacket 1500 ?s = (Inr [4, 5], ?s\<lparr>cc_rd := \<lparr>rd_data = [], rd_end = EOF\<rparr>\<rparr>)"
    using ReadPacket_frame [of 1500 "IPPacket [4, 5]" ?s "[]" "\<lparr>rd_data = [], rd_end = EOF\<rparr>"] by simp
  from ReadPacket_within_bounds [OF this] this show ?thesis by auto
qed

end
