(* ===== verification/H2Proxy.thy ===== *)
theory H2Proxy
  imports Envelope GoChan "HOL-Library.Monad_Syntax"
begin

text \<open>
  \<open>internal/h2proxy/proxy.go\<close> and \<open>envelope_conn.go\<close>: the \<open>InternalProxy\<close>, which
  multiplexes the sessions of all peers over one stream to the relay, and \<open>EnvelopeNetConn\<close>,
  the end of one session. Channels are shared by reference (a session's entry and the connection
  that was handed out hold the same channel), so they live in an explicit store. An operation
  that can panic in Go (close of a closed channel, send on a closed channel) returns an option,
  \<open>None\<close> for the panic.
\<close>

section \<open>State\<close>

record ControlMessage =
  cm_SrcPeerID :: peer_id
  cm_Payload :: bytes

text \<open>
  \<open>EnvelopeNetConn\<close>: the proxy it belongs to is named by the proxy's relay URL, the key of the
  manager's pool; the channel is a reference into the store; \<open>None\<close> is the zero deadline.
\<close>

record EnvelopeNetConn =
  nc_proxy :: string
  nc_sessionID :: SessionID
  nc_peerID :: peer_id
  nc_recvCh :: nat
  nc_readBuf :: bytes
  nc_readDeadline :: "int option"

record sessionEntry =
  se_ch :: nat
  se_peerID :: peer_id
  se_once :: bool

text \<open>
  The store: the session channels by reference, with the next free reference; the
  \<open>connectedCh\<close> channels, of which only the closing matters; and the two channels that all
  proxies share with the manager.
\<close>

record h2store =
  ch_data :: "nat \<Rightarrow> bytes chan"
  ch_next :: nat
  sig_closed :: "nat \<Rightarrow> bool"
  sig_next :: nat
  controlCh :: "ControlMessage chan"
  acceptCh :: "EnvelopeNetConn chan"

record InternalProxy =
  selfID :: peer_id
  relayURL :: string
  tlsInsecure :: bool
  writer :: "stream option"
  sessions :: "SessionID \<rightharpoonup> sessionEntry"
  nextSID :: u32
  connectedCh :: nat

datatype h2_err =
    NotConnected | EncodeFailed envelope_err | DecodeFailed envelope_err
  | ParseRelayURL | BuildRequest | ConnectToRelay | RelayStatus nat

section \<open>Allocation and construction\<close>

definition new_data_chan :: "h2store \<Rightarrow> nat \<times> h2store" where
  "new_data_chan st =
     (ch_next st, st\<lparr>ch_data := (ch_data st)(ch_next st := make_chan 64), ch_next := Suc (ch_next st)\<rparr>)"

definition new_signal :: "h2store \<Rightarrow> nat \<times> h2store" where
  "new_signal st =
     (sig_next st, st\<lparr>sig_closed := (sig_closed st)(sig_next st := False), sig_next := Suc (sig_next st)\<rparr>)"

definition NewProxy :: "peer_id \<Rightarrow> string \<Rightarrow> bool \<Rightarrow> h2store \<Rightarrow> InternalProxy \<times> h2store" where
  "NewProxy self url insecure st =
     (let (ch, st') = new_signal st
      in (\<lparr>selfID = self, relayURL = url, tlsInsecure = insecure, writer = None,
           sessions = Map.empty, nextSID = 0, connectedCh = ch\<rparr>, st'))"

definition Reset :: "InternalProxy \<Rightarrow> h2store \<Rightarrow> InternalProxy \<times> h2store" where
  "Reset p st = (let (ch, st') = new_signal st in (p\<lparr>connectedCh := ch\<rparr>, st'))"

text \<open>\<open>select { case <-p.Connected(): ... default: }\<close> on a channel that is only ever closed.\<close>

definition IsConnected :: "InternalProxy \<Rightarrow> h2store \<Rightarrow> bool" where
  "IsConnected p st =
     (if sig_closed st (connectedCh p) then writer p \<noteq> None else False)"

section \<open>Sessions\<close>

definition safeSend :: "nat \<Rightarrow> bytes \<Rightarrow> h2store \<Rightarrow> h2store" where
  "safeSend ch data st =
     (case try_send data (ch_data st ch) of
        (SendPanic, _) \<Rightarrow> st \<comment> \<open>recovered\<close>
      | (Dropped, _) \<Rightarrow> st
      | (Sent, c') \<Rightarrow> st\<lparr>ch_data := (ch_data st)(ch := c')\<rparr>)"

definition closeOnce :: "sessionEntry \<Rightarrow> h2store \<Rightarrow> (sessionEntry \<times> h2store) option" where
  "closeOnce s st =
     (if se_once s then Some (s, st)
      else do {
        c' \<leftarrow> chan_close (ch_data st (se_ch s));
        Some (s\<lparr>se_once := True\<rparr>, st\<lparr>ch_data := (ch_data st)(se_ch s := c')\<rparr>)
      })"

definition removeSession :: "SessionID \<Rightarrow> InternalProxy \<Rightarrow> h2store \<Rightarrow> (InternalProxy \<times> h2store) option" where
  "removeSession sid p st =
     (case sessions p sid of
        None \<Rightarrow> Some (p, st)
      | Some s \<Rightarrow> do {
          (_, st') \<leftarrow> closeOnce s st;
          Some (p\<lparr>sessions := (sessions p)(sid := None)\<rparr>, st')
        })"

text \<open>
  \<open>for sid, s := range p.sessions { s.closeOnce(); delete(p.sessions, sid) }\<close>: the order in
  which Go visits the keys is unspecified and given as an argument.
\<close>

fun closeAllSessions :: "SessionID list \<Rightarrow> InternalProxy \<Rightarrow> h2store \<Rightarrow> (InternalProxy \<times> h2store) option" where
  "closeAllSessions [] p st = Some (p, st)"
| "closeAllSessions (sid # order) p st =
     (case sessions p sid of
        None \<Rightarrow> closeAllSessions order p st
      | Some s \<Rightarrow> do {
          (_, st') \<leftarrow> closeOnce s st;
          closeAllSessions order (p\<lparr>sessions := (sessions p)(sid := None)\<rparr>) st'
        })"

definition NewSession :: "peer_id \<Rightarrow> InternalProxy \<Rightarrow> h2store \<Rightarrow> EnvelopeNetConn \<times> InternalProxy \<times> h2store" where
  "NewSession peerID p st =
     (let sid = nextSID p + 1;
          (ch, st') = new_data_chan st;
          s = \<lparr>se_ch = ch, se_peerID = peerID, se_once = False\<rparr>
      in (\<lparr>nc_proxy = relayURL p, nc_sessionID = sid, nc_peerID = peerID, nc_recvCh = ch,
           nc_readBuf = [], nc_readDeadline = None\<rparr>,
          p\<lparr>nextSID := sid, sessions := (sessions p)(sid \<mapsto> s)\<rparr>, st'))"

section \<open>Receiving\<close>

text \<open>
  The goroutine that runs \<open>Connect\<close>, by the point it has reached: before the call, waiting for the
  relay's answer, the writer set and the signal not yet closed, at \<open>envelope.Decode\<close>, between the
  critical section of \<open>dispatchData\<close> and what follows it (\<open>safeSend\<close>, the offer on \<open>acceptCh\<close>, the
  removal of a session that could not be offered), between the two critical sections of the deferred
  clean-up, and returned.
\<close>

datatype connect_pc =
    ConnIdle | ConnDialing | ConnAnnounce | ConnReading
  | ConnDeliver nat bytes | ConnOffer EnvelopeNetConn | ConnTakeBack SessionID
  | ConnLeaving | ConnDone

text \<open>\<open>dispatchData\<close> up to the release of \<open>sessMu\<close>.\<close>

definition dispatch_lookup :: "envelope \<Rightarrow> InternalProxy \<Rightarrow> h2store \<Rightarrow> connect_pc \<times> InternalProxy \<times> h2store" where
  "dispatch_lookup env p st =
     (case sessions p (EnvSessionID env) of
        None \<Rightarrow>
          (let (ch, st1) = new_data_chan st;
               s = \<lparr>se_ch = ch, se_peerID = SrcPeerID env, se_once = False\<rparr>;
               conn = \<lparr>nc_proxy = relayURL p, nc_sessionID = EnvSessionID env,
                        nc_peerID = SrcPeerID env, nc_recvCh = ch,
                        nc_readBuf = [], nc_readDeadline = None\<rparr>
           in (ConnOffer conn, p\<lparr>sessions := (sessions p)(EnvSessionID env \<mapsto> s)\<rparr>, safeSend ch (Payload env) st1))
      | Some s \<Rightarrow> (ConnDeliver (se_ch s) (Payload env), p, st))"

text \<open>The \<open>select\<close> on \<open>acceptCh\<close>: whether the connection was taken; \<open>None\<close> is a panic.\<close>

definition dispatch_offer :: "EnvelopeNetConn \<Rightarrow> h2store \<Rightarrow> (bool \<times> h2store) option" where
  "dispatch_offer conn st =
     (case try_send conn (acceptCh st) of
        (Sent, c') \<Rightarrow> Some (True, st\<lparr>acceptCh := c'\<rparr>)
      | (Dropped, _) \<Rightarrow> Some (False, st)
      | (SendPanic, _) \<Rightarrow> None)"

text \<open>\<open>dispatchData\<close> when no other goroutine comes in between.\<close>

definition dispatchData :: "envelope \<Rightarrow> InternalProxy \<Rightarrow> h2store \<Rightarrow> (InternalProxy \<times> h2store) option" where
  "dispatchData env p st =
     (case dispatch_lookup env p st of
        (ConnOffer conn, p1, st1) \<Rightarrow>
          (case dispatch_offer conn st1 of
             None \<Rightarrow> None
           | Some (taken, st2) \<Rightarrow> if taken then Some (p1, st2) else removeSession (nc_sessionID conn) p1 st2)
      | (ConnDeliver ch data, p1, st1) \<Rightarrow> Some (p1, safeSend ch data st1)
      | (_, p1, st1) \<Rightarrow> Some (p1, st1))"

lemma dispatchData_known:
  "sessions p (EnvSessionID env) = Some s \<Longrightarrow> dispatchData env p st = Some (p, safeSend (se_ch s) (Payload env) st)"
  by (simp add: dispatchData_def dispatch_lookup_def)

definition dispatchControl :: "envelope \<Rightarrow> h2store \<Rightarrow> h2store option" where
  "dispatchControl env st =
     (case try_send \<lparr>cm_SrcPeerID = SrcPeerID env, cm_Payload = Payload env\<rparr> (controlCh st) of
        (Sent, c') \<Rightarrow> Some (st\<lparr>controlCh := c'\<rparr>)
      | (Dropped, _) \<Rightarrow> Some st
      | (SendPanic, _) \<Rightarrow> None)"

text \<open>The body of \<open>readLoop\<close>: the switch on the stream type.\<close>

definition dispatch :: "envelope \<Rightarrow> InternalProxy \<Rightarrow> h2store \<Rightarrow> (InternalProxy \<times> h2store) option" where
  "dispatch env p st =
     (if StreamType env = StreamTypeData then dispatchData env p st
      else if StreamType env = StreamTypeControl then
        do { st' \<leftarrow> dispatchControl env st; Some (p, st') }
      else Some (p, st))"

function readLoop :: "reader \<Rightarrow> InternalProxy \<Rightarrow> h2store \<Rightarrow> (envelope_err \<times> InternalProxy \<times> h2store) option" where
  "readLoop r p st =
     (case envelope_Decode r of
        (Inl e, _) \<Rightarrow> Some (e, p, st)
      | (Inr env, r') \<Rightarrow>
          (case dispatch env p st of
             None \<Rightarrow> None
           | Some (p', st') \<Rightarrow> readLoop r' p' st'))"
  by pat_completeness auto
termination
  by (relation "measure (\<lambda>(r, _). length (rd_data r))") (auto dest: Decode_consumes [OF sym])

declare readLoop.simps [simp del]

section \<open>Sending\<close>

definition writeEnvelope :: "envelope \<Rightarrow> InternalProxy \<Rightarrow> h2_err option \<times> InternalProxy" where
  "writeEnvelope env p =
     (case writer p of
        None \<Rightarrow> (Some NotConnected, p)
      | Some w \<Rightarrow>
          (case envelope_Encode stream_write w env of
             (err, w') \<Rightarrow> (map_option EncodeFailed err, p\<lparr>writer := Some w'\<rparr>)))"

definition SendControl :: "peer_id \<Rightarrow> bytes \<Rightarrow> InternalProxy \<Rightarrow> h2_err option \<times> InternalProxy" where
  "SendControl peerID payload p =
     writeEnvelope \<lparr>Version = Version1, StreamType = StreamTypeControl, SrcPeerID = selfID p,
       DstPeerID = peerID, EnvSessionID = 0, Payload = payload\<rparr> p"

section \<open>EnvelopeNetConn\<close>

datatype read_outcome = ReadOk bytes | ReadFailed io_err | ReadBlocks

text \<open>
  \<open>Read\<close> at time \<open>now\<close> with a buffer of \<open>bufLen\<close> bytes. \<open>ReadBlocks\<close> is the select that
  waits: it is taken again when something has arrived or, with a deadline, when the deadline has
  passed.
\<close>

definition conn_Read ::
  "nat \<Rightarrow> int \<Rightarrow> EnvelopeNetConn \<Rightarrow> h2store \<Rightarrow> read_outcome \<times> EnvelopeNetConn \<times> h2store" where
  "conn_Read bufLen now c st =
     (if length (nc_readBuf c) > 0 then
        (let n = min bufLen (length (nc_readBuf c))
         in (ReadOk (take n (nc_readBuf c)), c\<lparr>nc_readBuf := drop n (nc_readBuf c)\<rparr>, st))
      else if (case nc_readDeadline c of None \<Rightarrow> False | Some t \<Rightarrow> t - now \<le> 0) then
        (ReadFailed ErrDeadlineExceeded, c, st)
      else
        (case try_recv (ch_data st (nc_recvCh c)) of
           (Received data, ch') \<Rightarrow>
             (let n = min bufLen (length data);
                  st' = st\<lparr>ch_data := (ch_data st)(nc_recvCh c := ch')\<rparr>
              in (ReadOk (take n data),
                  if n < length data then c\<lparr>nc_readBuf := drop n data\<rparr> else c, st'))
         | (RecvClosed, _) \<Rightarrow> (ReadFailed EOF, c, st)
         | (RecvBlocks, _) \<Rightarrow> (ReadBlocks, c, st)))"

definition conn_Write :: "bytes \<Rightarrow> EnvelopeNetConn \<Rightarrow> InternalProxy \<Rightarrow> (h2_err + nat) \<times> InternalProxy" where
  "conn_Write b c p =
     (case writeEnvelope \<lparr>Version = Version1, StreamType = StreamTypeData, SrcPeerID = selfID p,
         DstPeerID = nc_peerID c, EnvSessionID = nc_sessionID c, Payload = b\<rparr> p of
        (Some e, p') \<Rightarrow> (Inl e, p')
      | (None, p') \<Rightarrow> (Inr (length b), p'))"

definition conn_Close :: "EnvelopeNetConn \<Rightarrow> InternalProxy \<Rightarrow> h2store \<Rightarrow> (InternalProxy \<times> h2store) option" where
  "conn_Close c p st = removeSession (nc_sessionID c) p st"

definition SetReadDeadline :: "int option \<Rightarrow> EnvelopeNetConn \<Rightarrow> EnvelopeNetConn" where
  "SetReadDeadline t c = c\<lparr>nc_readDeadline := t\<rparr>"

definition SetDeadline :: "int option \<Rightarrow> EnvelopeNetConn \<Rightarrow> EnvelopeNetConn" where
  "SetDeadline t c = SetReadDeadline t c"

section \<open>Connect\<close>

text \<open>The transport of the CONNECT request; times in seconds, \<open>tr_tls\<close> absent for plain HTTP.\<close>

record tls_settings =
  tls_InsecureSkipVerify :: bool
  tls_MinVersion :: string
  tls_CurvePreferences :: "string list"

record http2_transport =
  tr_AllowHTTP :: bool
  tr_tls :: "tls_settings option"
  tr_ReadIdleTimeout :: nat
  tr_PingTimeout :: nat

definition connect_transport :: "string \<Rightarrow> bool \<Rightarrow> http2_transport" where
  "connect_transport scheme insecure =
     (if scheme = ''https'' then
        \<lparr>tr_AllowHTTP = False,
         tr_tls = Some \<lparr>tls_InsecureSkipVerify = insecure, tls_MinVersion = ''TLS13'',
           tls_CurvePreferences = [''X25519'', ''P256'', ''P384'']\<rparr>,
         tr_ReadIdleTimeout = 15, tr_PingTimeout = 5\<rparr>
      else \<lparr>tr_AllowHTTP = True, tr_tls = None, tr_ReadIdleTimeout = 15, tr_PingTimeout = 5\<rparr>)"

text \<open>
  What the network answers: the error of building the request or of the round trip, or a status
  and the response body. The URL parser (the scheme, or an error) and the network are arguments.
\<close>

datatype dial_result = RequestFailed | RoundTripFailed | Response nat reader

text \<open>\<open>Connect\<close> up to the test of the status.\<close>

definition connect_dial ::
  "(string \<Rightarrow> string option) \<Rightarrow> (http2_transport \<Rightarrow> string \<Rightarrow> string \<Rightarrow> dial_result) \<Rightarrow> InternalProxy \<Rightarrow> h2_err + reader" where
  "connect_dial urlParse dial p =
     (case urlParse (relayURL p) of
        None \<Rightarrow> Inl ParseRelayURL
      | Some scheme \<Rightarrow>
          (case dial (connect_transport scheme (tlsInsecure p)) (relayURL p) (PeerID_String (selfID p)) of
             RequestFailed \<Rightarrow> Inl BuildRequest
           | RoundTripFailed \<Rightarrow> Inl ConnectToRelay
           | Response status body \<Rightarrow> if status \<noteq> 200 then Inl (RelayStatus status) else Inr body))"

definition open_stream :: stream where
  "open_stream = \<lparr>st_sent = [], st_broken = None\<rparr>"

text \<open>\<open>close(ch)\<close> of the channel that signals the connection; \<open>None\<close> is the panic.\<close>

definition connect_announce :: "InternalProxy \<Rightarrow> h2store \<Rightarrow> h2store option" where
  "connect_announce p st =
     (if sig_closed st (connectedCh p) then None
      else Some (st\<lparr>sig_closed := (sig_closed st)(connectedCh p := True)\<rparr>))"

text \<open>
  One move of the goroutine of \<open>Connect\<close>, at the granularity of its critical sections and channel
  operations: the relay's answer, an envelope that \<open>envelope.Decode\<close> returns, its error, the order
  in which Go visits the session map in \<open>closeAllSessions\<close>, or simply its turn.
\<close>

datatype connect_in = Answer "h2_err + reader" | Arrives envelope | StreamEnds | Visits "SessionID list" | Turn

datatype connect_out = ConnMoves connect_pc InternalProxy h2store | ConnWaits | ConnPanics

definition conn_moves :: "connect_pc \<Rightarrow> (InternalProxy \<times> h2store) option \<Rightarrow> connect_out" where
  "conn_moves pc res = (case res of None \<Rightarrow> ConnPanics | Some (p, st) \<Rightarrow> ConnMoves pc p st)"

fun connect_next :: "connect_in \<Rightarrow> connect_pc \<Rightarrow> InternalProxy \<Rightarrow> h2store \<Rightarrow> connect_out" where
  "connect_next i ConnIdle p st = ConnWaits"
| "connect_next i ConnDialing p st =
     (case i of
        Answer (Inl err) \<Rightarrow> ConnMoves ConnDone p st
      | Answer (Inr body) \<Rightarrow> ConnMoves ConnAnnounce (p\<lparr>writer := Some open_stream\<rparr>) st
      | _ \<Rightarrow> ConnWaits)"
| "connect_next i ConnAnnounce p st =
     (if i = Turn then conn_moves ConnReading (map_option (Pair p) (connect_announce p st)) else ConnWaits)"
| "connect_next i ConnReading p st =
     (case i of
        Arrives env \<Rightarrow>
          if StreamType env = StreamTypeData
          then (case dispatch_lookup env p st of (pc, p1, st1) \<Rightarrow> ConnMoves pc p1 st1)
          else if StreamType env = StreamTypeControl
          then conn_moves ConnReading (map_option (Pair p) (dispatchControl env st))
          else ConnMoves ConnReading p st
      | StreamEnds \<Rightarrow> ConnMoves ConnLeaving (p\<lparr>writer := None\<rparr>) st
      | _ \<Rightarrow> ConnWaits)"
| "connect_next i (ConnDeliver ch data) p st =
     (if i = Turn then ConnMoves ConnReading p (safeSend ch data st) else ConnWaits)"
| "connect_next i (ConnOffer conn) p st =
     (if i = Turn then
        (case dispatch_offer conn st of
           None \<Rightarrow> ConnPanics
         | Some (taken, st1) \<Rightarrow> ConnMoves (if taken then ConnReading else ConnTakeBack (nc_sessionID conn)) p st1)
      else ConnWaits)"
| "connect_next i (ConnTakeBack sid) p st =
     (if i = Turn then conn_moves ConnReading (removeSession sid p st) else ConnWaits)"
| "connect_next i ConnLeaving p st =
     (case i of
        Visits order \<Rightarrow>
          if set order = dom (sessions p) then conn_moves ConnDone (closeAllSessions order p st) else ConnWaits
      | _ \<Rightarrow> ConnWaits)"
| "connect_next i ConnDone p st = ConnWaits"

text \<open>The two ends of a connection without other goroutines, for the examples.\<close>

definition connect_established :: "InternalProxy \<Rightarrow> h2store \<Rightarrow> (InternalProxy \<times> h2store) option" where
  "connect_established p st =
     (let p1 = p\<lparr>writer := Some open_stream\<rparr> in map_option (Pair p1) (connect_announce p1 st))"

definition connect_teardown :: "SessionID list \<Rightarrow> InternalProxy \<Rightarrow> h2store \<Rightarrow> (InternalProxy \<times> h2store) option" where
  "connect_teardown order p st = closeAllSessions order (p\<lparr>writer := None\<rparr>) st"

section \<open>The invariant\<close>

text \<open>
  Every session of the map has a channel of its own, allocated, of capacity 64 and open; the two
  shared channels are open; no channel holds more than its capacity.
\<close>

definition store_ok :: "h2store \<Rightarrow> bool" where
  "store_ok st \<longleftrightarrow>
     (\<forall>ch < ch_next st. chan_ok (ch_data st ch) \<and> chan_cap (ch_data st ch) = 64) \<and>
     chan_ok (controlCh st) \<and> \<not> chan_closed (controlCh st) \<and>
     chan_ok (acceptCh st) \<and> \<not> chan_closed (acceptCh st)"

definition sessions_ok :: "InternalProxy \<Rightarrow> h2store \<Rightarrow> bool" where
  "sessions_ok p st \<longleftrightarrow>
     (\<forall>sid s. sessions p sid = Some s \<longrightarrow>
        se_ch s < ch_next st \<and> \<not> se_once s \<and> \<not> chan_closed (ch_data st (se_ch s))) \<and>
     (\<forall>sid sid' s s'. sessions p sid = Some s \<longrightarrow> sessions p sid' = Some s' \<longrightarrow>
        se_ch s = se_ch s' \<longrightarrow> sid = sid')"

definition h2_inv :: "InternalProxy \<Rightarrow> h2store \<Rightarrow> bool" where
  "h2_inv p st \<longleftrightarrow> store_ok st \<and> sessions_ok p st"

definition close_ref :: "nat \<Rightarrow> h2store \<Rightarrow> h2store" where
  "close_ref ch st = st\<lparr>ch_data := (ch_data st)(ch := (ch_data st ch)\<lparr>chan_closed := True\<rparr>)\<rparr>"

lemma safeSend_eq:
  "safeSend ch data st = st\<lparr>ch_data := (ch_data st)(ch := chan_push data (ch_data st ch))\<rparr>"
  by (auto simp: safeSend_def chan_push_def try_send_def)

lemma closeOnce_session:
  "sessions_ok p st \<Longrightarrow> sessions p sid = Some s \<Longrightarrow>
     closeOnce s st = Some (s\<lparr>se_once := True\<rparr>, close_ref (se_ch s) st)"
  by (auto simp: sessions_ok_def closeOnce_def chan_close_def close_ref_def)

lemma removeSession_eq:
  "sessions_ok p st \<Longrightarrow>
     removeSession sid p st =
       Some (p\<lparr>sessions := (sessions p)(sid := None)\<rparr>,
             case sessions p sid of None \<Rightarrow> st | Some s \<Rightarrow> close_ref (se_ch s) st)"
  by (auto simp: removeSession_def closeOnce_session fun_upd_idem split: option.splits)

lemma h2_inv_drop_session:
  "h2_inv p st \<Longrightarrow> sessions p sid = Some s \<Longrightarrow>
     h2_inv (p\<lparr>sessions := (sessions p)(sid := None)\<rparr>) (close_ref (se_ch s) st)"
  by (auto simp: h2_inv_def store_ok_def sessions_ok_def close_ref_def split: if_splits)

lemma removeSession_inv:
  assumes "h2_inv p st"
  shows "\<exists>p' st'. removeSession sid p st = Some (p', st') \<and> h2_inv p' st'"
proof (cases "sessions p sid")
  case None
  with assms show ?thesis by (simp add: removeSession_def)
next
  case (Some s)
  have "sessions_ok p st"
    using assms by (simp add: h2_inv_def)
  with Some h2_inv_drop_session [OF assms Some] show ?thesis
    by (simp add: removeSession_eq)
qed

lemma h2_inv_safeSend: "h2_inv p st \<Longrightarrow> h2_inv p (safeSend ch data st)"
  by (auto simp: h2_inv_def store_ok_def sessions_ok_def safeSend_eq)

text \<open>A fresh channel under a session number: the step that \<open>NewSession\<close> and \<open>dispatchData\<close> share.\<close>

lemma h2_inv_fresh_session:
  "h2_inv p st \<Longrightarrow> new_data_chan st = (ch, st1) \<Longrightarrow>
     h2_inv (p\<lparr>sessions := (sessions p)(sid \<mapsto> \<lparr>se_ch = ch, se_peerID = q, se_once = False\<rparr>)\<rparr>) st1"
  by (fastforce simp: h2_inv_def store_ok_def sessions_ok_def new_data_chan_def less_Suc_eq)

lemma h2_inv_update [simp]:
  "h2_inv (p\<lparr>nextSID := n\<rparr>) st = h2_inv p st"
  "h2_inv (p\<lparr>writer := w\<rparr>) st = h2_inv p st"
  "h2_inv (p\<lparr>connectedCh := c\<rparr>) st = h2_inv p st"
  "h2_inv p (st\<lparr>sig_closed := f\<rparr>) = h2_inv p st"
  "h2_inv p (st\<lparr>sig_next := k\<rparr>) = h2_inv p st"
  by (simp_all add: h2_inv_def store_ok_def sessions_ok_def)

lemma NewSession_inv:
  assumes "h2_inv p st" "NewSession q p st = (c, p', st')"
  shows "h2_inv p' st'"
proof -
  obtain ch where alloc: "new_data_chan st = (ch, st')"
    and p': "p' = (p\<lparr>nextSID := nextSID p + 1\<rparr>)\<lparr>sessions := (sessions p)
      (nextSID p + 1 \<mapsto> \<lparr>se_ch = ch, se_peerID = q, se_once = False\<rparr>)\<rparr>"
    using assms(2) by (auto simp: NewSession_def Let_def split: prod.splits)
  show ?thesis
    using h2_inv_fresh_session [of "p\<lparr>nextSID := nextSID p + 1\<rparr>", OF _ alloc] assms(1)
    by (simp add: p')
qed

text \<open>What an envelope for an unknown session does: the connection is offered, or taken back.\<close>

definition incoming_conn :: "envelope \<Rightarrow> InternalProxy \<Rightarrow> h2store \<Rightarrow> EnvelopeNetConn" where
  "incoming_conn env p st =
     \<lparr>nc_proxy = relayURL p, nc_sessionID = EnvSessionID env, nc_peerID = SrcPeerID env,
      nc_recvCh = ch_next st, nc_readBuf = [], nc_readDeadline = None\<rparr>"

definition incoming_proxy :: "envelope \<Rightarrow> InternalProxy \<Rightarrow> h2store \<Rightarrow> InternalProxy" where
  "incoming_proxy env p st =
     p\<lparr>sessions := (sessions p)(EnvSessionID env \<mapsto>
         \<lparr>se_ch = ch_next st, se_peerID = SrcPeerID env, se_once = False\<rparr>)\<rparr>"

definition incoming_store :: "envelope \<Rightarrow> h2store \<Rightarrow> h2store" where
  "incoming_store env st = safeSend (ch_next st) (Payload env) (snd (new_data_chan st))"

lemma dispatchData_new:
  assumes "sessions p (EnvSessionID env) = None" "\<not> chan_closed (acceptCh st)"
  shows "dispatchData env p st =
    (if chan_room (acceptCh st) > 0
     then Some (incoming_proxy env p st,
       (incoming_store env st)\<lparr>acceptCh := chan_push (incoming_conn env p st) (acceptCh st)\<rparr>)
     else removeSession (EnvSessionID env) (incoming_proxy env p st) (incoming_store env st))"
proof -
  obtain st1 where alloc: "new_data_chan st = (ch_next st, st1)" and acc: "acceptCh st1 = acceptCh st"
    by (simp add: new_data_chan_def)
  then have acc': "acceptCh (safeSend ch data st1) = acceptCh st" for ch data
    by (simp add: safeSend_eq)
  show ?thesis
    using assms
    by (simp add: dispatchData_def dispatch_lookup_def dispatch_offer_def incoming_proxy_def incoming_conn_def
        incoming_store_def alloc acc' Let_def try_send_def chan_push_def chan_room_def)
qed

lemma incoming_inv: "h2_inv p st \<Longrightarrow> h2_inv (incoming_proxy env p st) (incoming_store env st)"
  unfolding incoming_proxy_def incoming_store_def
  by (rule h2_inv_safeSend, rule h2_inv_fresh_session) (simp_all add: new_data_chan_def)

lemma h2_inv_accept:
  "h2_inv p st \<Longrightarrow> chan_ok c \<Longrightarrow> \<not> chan_closed c \<Longrightarrow> h2_inv p (st\<lparr>acceptCh := c\<rparr>)"
  by (simp add: h2_inv_def store_ok_def sessions_ok_def)

lemma h2_inv_control:
  "h2_inv p st \<Longrightarrow> chan_ok c \<Longrightarrow> \<not> chan_closed c \<Longrightarrow> h2_inv p (st\<lparr>controlCh := c\<rparr>)"
  by (simp add: h2_inv_def store_ok_def sessions_ok_def)

lemma h2_inv_shared:
  "h2_inv p st \<Longrightarrow> chan_ok (acceptCh st)" "h2_inv p st \<Longrightarrow> \<not> chan_closed (acceptCh st)"
  "h2_inv p st \<Longrightarrow> chan_ok (controlCh st)" "h2_inv p st \<Longrightarrow> \<not> chan_closed (controlCh st)"
  by (simp_all add: h2_inv_def store_ok_def)

lemma dispatchData_inv:
  assumes "h2_inv p st"
  shows "\<exists>p' st'. dispatchData env p st = Some (p', st') \<and> h2_inv p' st'"
proof (cases "sessions p (EnvSessionID env)")
  case (Some s)
  with assms show ?thesis by (simp add: dispatchData_known h2_inv_safeSend)
next
  case None
  note inv = incoming_inv [OF assms, of env]
  note shared = h2_inv_shared [OF assms]
  show ?thesis
  proof (cases "chan_room (acceptCh st) > 0")
    case True
    with None shared h2_inv_accept [OF inv] show ?thesis by (simp add: dispatchData_new)
  next
    case False
    with None shared removeSession_inv [OF inv] show ?thesis by (simp add: dispatchData_new)
  qed
qed

lemma dispatchControl_inv:
  "h2_inv p st \<Longrightarrow> \<exists>st'. dispatchControl env st = Some st' \<and> h2_inv p st'"
  by (auto simp: h2_inv_def store_ok_def sessions_ok_def dispatchControl_def try_send_def chan_ok_def)

lemma dispatch_inv:
  "h2_inv p st \<Longrightarrow> \<exists>p' st'. dispatch env p st = Some (p', st') \<and> h2_inv p' st'"
  using dispatchData_inv [of p st env] dispatchControl_inv [of p st env]
  by (auto simp: dispatch_def)

lemma readLoop_inv:
  "h2_inv p st \<Longrightarrow> \<exists>e p' st'. readLoop r p st = Some (e, p', st') \<and> h2_inv p' st'"
proof (induction r p st rule: readLoop.induct)
  case (1 r p st)
  show ?case
  proof (cases "envelope_Decode r")
    case (Pair res r')
    show ?thesis
    proof (cases res)
      case (Inl e)
      with Pair "1.prems" show ?thesis by (subst readLoop.simps) simp
    next
      case (Inr env)
      obtain p' st' where d: "dispatch env p st = Some (p', st')" and "h2_inv p' st'"
        using dispatch_inv [OF "1.prems"] by blast
      then have "\<exists>e p'' st''. readLoop r' p' st' = Some (e, p'', st'') \<and> h2_inv p'' st''"
        using "1.IH" [OF Pair [symmetric]] Inr by simp
      with Pair Inr d show ?thesis by (subst readLoop.simps) simp
    qed
  qed
qed

section \<open>Closing all sessions\<close>

definition session_refs :: "InternalProxy \<Rightarrow> SessionID set \<Rightarrow> nat set" where
  "session_refs p S = {se_ch s |sid s. sid \<in> S \<and> sessions p sid = Some s}"

definition close_refs :: "nat set \<Rightarrow> h2store \<Rightarrow> h2store" where
  "close_refs R st =
     st\<lparr>ch_data := (\<lambda>ch. if ch \<in> R then (ch_data st ch)\<lparr>chan_closed := True\<rparr> else ch_data st ch)\<rparr>"

lemma close_refs_insert: "close_refs R (close_ref ch st) = close_refs (insert ch R) st"
  by (auto simp: close_refs_def close_ref_def fun_eq_iff)

lemma session_refs_drop:
  "sessions p sid = Some s \<Longrightarrow>
     insert (se_ch s) (session_refs (p\<lparr>sessions := (sessions p)(sid := None)\<rparr>) S) =
       session_refs p (insert sid S)"
  by (auto simp: session_refs_def split: if_splits) (metis option.inject)

lemma closeAllSessions_eq:
  "h2_inv p st \<Longrightarrow>
     closeAllSessions order p st =
       Some (p\<lparr>sessions := sessions p |` (- set order)\<rparr>, close_refs (session_refs p (set order)) st)"
proof (induction order arbitrary: p st)
  case Nil
  then show ?case by (simp add: session_refs_def close_refs_def)
next
  case (Cons sid order)
  show ?case
  proof (cases "sessions p sid")
    case None
    then have "sessions p |` (- set (sid # order)) = sessions p |` (- set order)"
      and "session_refs p (set (sid # order)) = session_refs p (set order)"
      by (auto simp: restrict_map_def session_refs_def fun_eq_iff)
    with None Cons show ?thesis by simp
  next
    case (Some s)
    define p1 where "p1 = p\<lparr>sessions := (sessions p)(sid := None)\<rparr>"
    have "sessions_ok p st"
      using Cons.prems by (simp add: h2_inv_def)
    then have "closeAllSessions (sid # order) p st = closeAllSessions order p1 (close_ref (se_ch s) st)"
      using Some by (simp add: closeOnce_session p1_def)
    also have "\<dots> = Some (p1\<lparr>sessions := sessions p1 |` (- set order)\<rparr>,
        close_refs (session_refs p1 (set order)) (close_ref (se_ch s) st))"
      using h2_inv_drop_session [OF Cons.prems Some] by (intro Cons.IH) (simp add: p1_def)
    also have "p1\<lparr>sessions := sessions p1 |` (- set order)\<rparr> = p\<lparr>sessions := sessions p |` (- set (sid # order))\<rparr>"
      by (auto simp: p1_def restrict_map_def intro!: InternalProxy.equality)
    finally show ?thesis
      using session_refs_drop [OF Some] by (simp add: close_refs_insert p1_def)
  qed
qed

lemma session_refs_memb: "sessions p sid = Some s \<Longrightarrow> se_ch s \<in> session_refs p (dom (sessions p))"
  by (auto simp: session_refs_def)

lemma connect_teardown_eq:
  assumes "h2_inv p st" "set order = dom (sessions p)"
  shows "connect_teardown order p st =
    Some (p\<lparr>writer := None, sessions := Map.empty\<rparr>, close_refs (session_refs p (dom (sessions p))) st)"
proof -
  have "sessions p |` (- dom (sessions p)) = Map.empty"
    by (auto simp: restrict_map_def fun_eq_iff domIff)
  then show ?thesis
    using assms closeAllSessions_eq [of "p\<lparr>writer := None\<rparr>" st order]
    by (simp add: connect_teardown_def session_refs_def)
qed

lemma connect_teardown_inv:
  "h2_inv p st \<Longrightarrow> set order = dom (sessions p) \<Longrightarrow>
     \<exists>p' st'. connect_teardown order p st = Some (p', st') \<and> h2_inv p' st'"
  by (simp add: connect_teardown_eq h2_inv_def store_ok_def sessions_ok_def close_refs_def)

section \<open>Delivery to a session\<close>

text \<open>The decoding loop hands the decoded envelopes to \<open>dispatch\<close> one after the other.\<close>

fun dispatch_all :: "envelope list \<Rightarrow> InternalProxy \<Rightarrow> h2store \<Rightarrow> (InternalProxy \<times> h2store) option" where
  "dispatch_all [] p st = Some (p, st)"
| "dispatch_all (env # envs) p st =
     (case dispatch env p st of None \<Rightarrow> None | Some (p', st') \<Rightarrow> dispatch_all envs p' st')"

lemma readLoop_dispatch_all:
  "readLoop r p st =
     (case decode_stream r of
        (envs, e) \<Rightarrow> map_option (\<lambda>(p', st'). (e, p', st')) (dispatch_all envs p st))"
proof (induction r p st rule: readLoop.induct)
  case (1 r p st)
  show ?case
  proof (cases "envelope_Decode r")
    case (Pair res r')
    show ?thesis
    proof (cases res)
      case (Inl e)
      with Pair show ?thesis
        by (subst readLoop.simps, subst decode_stream.simps) simp
    next
      case (Inr env)
      with Pair "1.IH" [OF Pair [symmetric] Inr] show ?thesis
        by (subst readLoop.simps, subst decode_stream.simps)
          (auto split: prod.splits option.splits)
    qed
  qed
qed

definition for_session :: "SessionID \<Rightarrow> envelope \<Rightarrow> bool" where
  "for_session sid env \<longleftrightarrow> StreamType env = StreamTypeData \<and> EnvSessionID env = sid"

lemma dispatchData_other:
  assumes "h2_inv p st" "sessions p sid = Some s" "EnvSessionID env \<noteq> sid"
    and "dispatchData env p st = Some (p', st')"
  shows "sessions p' sid = Some s \<and> ch_data st' (se_ch s) = ch_data st (se_ch s)"
proof (cases "sessions p (EnvSessionID env)")
  case (Some s')
  then have "se_ch s' \<noteq> se_ch s"
    using assms(1-3) by (auto simp: h2_inv_def sessions_ok_def)
  with Some assms show ?thesis by (auto simp: dispatchData_known safeSend_eq)
next
  case None
  have fresh: "se_ch s < ch_next st"
    using assms(1,2) by (auto simp: h2_inv_def sessions_ok_def)
  have "sessions_ok (incoming_proxy env p st) (incoming_store env st)"
    using incoming_inv [OF assms(1)] by (simp add: h2_inv_def)
  note rem = removeSession_eq [OF this, of "EnvSessionID env"]
  have inc: "sessions (incoming_proxy env p st) sid = Some s"
    "\<exists>s1. sessions (incoming_proxy env p st) (EnvSessionID env) = Some s1 \<and> se_ch s1 = ch_next st"
    "ch_data (incoming_store env st) (se_ch s) = ch_data st (se_ch s)"
    using assms(2,3) fresh
    by (simp_all add: incoming_proxy_def incoming_store_def safeSend_eq new_data_chan_def)
  then show ?thesis
    using None assms(3,4) fresh h2_inv_shared(2) [OF assms(1)]
    by (auto simp: dispatchData_new rem close_ref_def split: if_splits)
qed

lemma dispatch_session:
  assumes "h2_inv p st" "sessions p sid = Some s" "dispatch env p st = Some (p', st')"
  shows "sessions p' sid = Some s \<and>
    ch_data st' (se_ch s) =
      (if for_session sid env then chan_push (Payload env) (ch_data st (se_ch s))
       else ch_data st (se_ch s))"
proof (cases "StreamType env = StreamTypeData")
  case True
  then show ?thesis
    using assms dispatchData_other [OF assms(1,2), of env p' st']
    by (cases "EnvSessionID env = sid") (auto simp: dispatch_def dispatchData_known for_session_def safeSend_eq)
next
  case False
  with assms show ?thesis
    by (auto simp: dispatch_def dispatchControl_def for_session_def split: if_splits prod.splits send_outcome.splits
        bind_splits)
qed

lemma dispatch_all_session:
  assumes "h2_inv p st" "sessions p sid = Some s" "dispatch_all envs p st = Some (p', st')"
  shows "sessions p' sid = Some s \<and>
    ch_data st' (se_ch s) =
      fold chan_push (map Payload (filter (for_session sid) envs)) (ch_data st (se_ch s))"
  using assms
proof (induction envs arbitrary: p st)
  case (Cons env envs)
  then obtain p1 st1 where d: "dispatch env p st = Some (p1, st1)" "dispatch_all envs p1 st1 = Some (p', st')"
    by (auto split: option.splits)
  moreover have "h2_inv p1 st1"
    using dispatch_inv [OF Cons.prems(1), of env] d(1) by auto
  ultimately show ?case
    using dispatch_session [OF Cons.prems(1,2) d(1)] Cons.IH by auto
qed simp

section \<open>A connection as a byte stream\<close>

text \<open>
  The abstract view of the receiving end of a session: the bytes that have arrived and have not
  been read, wherever they are held.
\<close>

definition conn_stream :: "EnvelopeNetConn \<Rightarrow> h2store \<Rightarrow> bytes" where
  "conn_stream c st = nc_readBuf c @ concat (chan_buf (ch_data st (nc_recvCh c)))"

lemma conn_Read_stream:
  "conn_Read n now c st = (ReadOk bs, c', st') \<Longrightarrow>
     conn_stream c st = bs @ conn_stream c' st' \<and> length bs \<le> n \<and> nc_recvCh c' = nc_recvCh c \<and>
     chan_closed (ch_data st' (nc_recvCh c)) = chan_closed (ch_data st (nc_recvCh c))"
  by (auto simp: conn_Read_def conn_stream_def Let_def try_recv_def split: if_splits list.splits option.splits)

lemma conn_Read_failed:
  "conn_Read n now c st = (ReadFailed EOF, c', st') \<Longrightarrow>
     conn_stream c st = [] \<and> chan_closed (ch_data st (nc_recvCh c))"
  by (auto simp: conn_Read_def conn_stream_def Let_def try_recv_def split: if_splits list.splits option.splits)

definition read_measure :: "EnvelopeNetConn \<Rightarrow> h2store \<Rightarrow> nat" where
  "read_measure c st =
     length (nc_readBuf c) + sum_list (map (\<lambda>x. Suc (length x)) (chan_buf (ch_data st (nc_recvCh c))))"

lemma conn_Read_measure:
  "conn_Read (Suc n) now c st = (ReadOk bs, c', st') \<Longrightarrow> read_measure c' st' < read_measure c st"
  by (auto simp: conn_Read_def read_measure_def Let_def try_recv_def min_def
      split: if_splits list.splits option.splits)

text \<open>A reader that calls \<open>Read\<close> with a non-empty buffer until it does not return data.\<close>

function conn_drain :: "nat \<Rightarrow> int \<Rightarrow> EnvelopeNetConn \<Rightarrow> h2store \<Rightarrow> bytes \<times> read_outcome" where
  "conn_drain n now c st =
     (case conn_Read (Suc n) now c st of
        (ReadOk bs, c', st') \<Rightarrow> (case conn_drain n now c' st' of (bs', out) \<Rightarrow> (bs @ bs', out))
      | (out, _, _) \<Rightarrow> ([], out))"
  by pat_completeness auto
termination
  by (relation "measure (\<lambda>(_, _, c, st). read_measure c st)") (auto dest: conn_Read_measure [OF sym])

declare conn_drain.simps [simp del]

lemma conn_drain_all:
  "nc_readDeadline c = None \<Longrightarrow>
     conn_drain n now c st =
       (conn_stream c st, if chan_closed (ch_data st (nc_recvCh c)) then ReadFailed EOF else ReadBlocks)"
proof (induction n now c st rule: conn_drain.induct)
  case (1 n now c st)
  obtain out c' st' where read: "conn_Read (Suc n) now c st = (out, c', st')"
    by (metis prod_cases3)
  show ?case
  proof (cases out)
    case (ReadOk bs)
    have "nc_readDeadline c' = None"
      using read "1.prems" by (auto simp: conn_Read_def Let_def split: if_splits prod.splits recv_outcome.splits)
    with ReadOk read "1.IH" [OF read [symmetric] ReadOk refl] show ?thesis
      by (subst conn_drain.simps) (use conn_Read_stream [of "Suc n" now c st bs c' st'] in auto)
  next
    case (ReadFailed e)
    with read "1.prems" show ?thesis
      by (subst conn_drain.simps)
        (auto simp: conn_Read_def conn_stream_def Let_def try_recv_def split: if_splits list.splits)
  next
    case ReadBlocks
    with read "1.prems" show ?thesis
      by (subst conn_drain.simps)
        (auto simp: conn_Read_def conn_stream_def Let_def try_recv_def split: if_splits list.splits)
  qed
qed

section \<open>Reachable states\<close>

definition fresh_store :: h2store where
  "fresh_store =
     \<lparr>ch_data = (\<lambda>_. make_chan 64), ch_next = 0, sig_closed = (\<lambda>_. False), sig_next = 0,
      controlCh = make_chan 64, acceptCh = make_chan 16\<rparr>"

text \<open>
  The goroutines that share one proxy interleave at the granularity of its critical sections and
  channel operations: the goroutine of \<open>Connect\<close>; the opening, reading, writing and closing of
  sessions; the manager's receives from the shared channels; and \<open>relayConnectLoop\<close>, which calls
  \<open>Connect\<close> again only when it has returned, and \<open>Reset\<close> before. The predicate \<open>ok\<close> restricts when
  sessions are opened; it is true throughout unless a property says otherwise.
\<close>

type_synonym h2_state = "connect_pc \<times> InternalProxy \<times> h2store"

inductive h2_step :: "(InternalProxy \<Rightarrow> bool) \<Rightarrow> h2_state \<Rightarrow> h2_state \<Rightarrow> bool" for ok where
  step_first: "h2_step ok (ConnIdle, p, st) (ConnDialing, p, st)"
| step_again: "Reset p st = (p', st') \<Longrightarrow> h2_step ok (ConnDone, p, st) (ConnDialing, p', st')"
| step_connect: "connect_next i pc p st = ConnMoves pc' p' st' \<Longrightarrow> h2_step ok (pc, p, st) (pc', p', st')"
| step_open: "ok p \<Longrightarrow> NewSession q p st = (c, p', st') \<Longrightarrow> h2_step ok (pc, p, st) (pc, p', st')"
| step_write: "writeEnvelope env p = (e, p') \<Longrightarrow> h2_step ok (pc, p, st) (pc, p', st)"
| step_close: "conn_Close c p st = Some (p', st') \<Longrightarrow> h2_step ok (pc, p, st) (pc, p', st')"
| step_read: "nc_recvCh c < ch_next st \<Longrightarrow> conn_Read n now c st = (out, c', st') \<Longrightarrow>
    h2_step ok (pc, p, st) (pc, p, st')"
| step_accept: "try_recv (acceptCh st) = (out, ch) \<Longrightarrow> h2_step ok (pc, p, st) (pc, p, st\<lparr>acceptCh := ch\<rparr>)"
| step_control: "try_recv (controlCh st) = (out, ch) \<Longrightarrow> h2_step ok (pc, p, st) (pc, p, st\<lparr>controlCh := ch\<rparr>)"

inductive h2_reach :: "(InternalProxy \<Rightarrow> bool) \<Rightarrow> h2_state \<Rightarrow> bool" for ok where
  reach_new: "NewProxy self url insecure fresh_store = (p, st) \<Longrightarrow> h2_reach ok (ConnIdle, p, st)"
| reach_step: "h2_reach ok s \<Longrightarrow> h2_step ok s t \<Longrightarrow> h2_reach ok t"

abbreviation any_time :: "InternalProxy \<Rightarrow> bool" where
  "any_time \<equiv> \<lambda>_. True"

lemma conn_Read_store:
  assumes "h2_inv p st" "nc_recvCh c < ch_next st" "conn_Read n now c st = (out, c', st')"
  shows "h2_inv p st'"
proof (cases "st' = st")
  case False
  then obtain data ch' where recv: "try_recv (ch_data st (nc_recvCh c)) = (Received data, ch')"
    and st': "st' = st\<lparr>ch_data := (ch_data st)(nc_recvCh c := ch')\<rparr>"
    using assms(3) by (auto simp: conn_Read_def Let_def split: if_splits prod.splits recv_outcome.splits)
  show ?thesis
    using assms(1,2) try_recv_keeps [OF recv]
    by (fastforce simp: st' h2_inv_def store_ok_def sessions_ok_def)
qed (use assms in simp)

lemma writeEnvelope_inv: "writeEnvelope env p = (e, p') \<Longrightarrow> h2_inv p st \<Longrightarrow> h2_inv p' st"
  by (auto simp: writeEnvelope_def split: option.splits prod.splits)

text \<open>The operations of a session leave the signal of the connection alone.\<close>

lemma closeOnce_sigs: "closeOnce s st = Some (s', st') \<Longrightarrow> sig_closed st' = sig_closed st \<and> sig_next st' = sig_next st"
  by (auto simp: closeOnce_def split: if_splits bind_splits)

lemma removeSession_sigs:
  "removeSession sid p st = Some (p', st') \<Longrightarrow>
     connectedCh p' = connectedCh p \<and> sig_closed st' = sig_closed st \<and> sig_next st' = sig_next st \<and> writer p' = writer p"
  by (auto simp: removeSession_def split: option.splits bind_splits dest!: closeOnce_sigs)

lemma closeAllSessions_sigs:
  "closeAllSessions order p st = Some (p', st') \<Longrightarrow>
     connectedCh p' = connectedCh p \<and> sig_closed st' = sig_closed st \<and> sig_next st' = sig_next st \<and> writer p' = writer p"
proof (induction order arbitrary: p st)
  case (Cons sid order)
  then show ?case
    by (fastforce split: option.splits bind_splits dest: closeOnce_sigs)
qed simp

lemma writeEnvelope_frame:
  "writeEnvelope env p = (e, p') \<Longrightarrow>
     connectedCh p' = connectedCh p \<and> sessions p' = sessions p \<and> (writer p' = None \<longleftrightarrow> writer p = None)"
  by (auto simp: writeEnvelope_def split: option.splits prod.splits)

lemma conn_Read_frame:
  assumes "conn_Read n now c st = (out, c', st')"
  shows "ch_next st' = ch_next st \<and> sig_closed st' = sig_closed st \<and> sig_next st' = sig_next st \<and>
    (\<forall>ch. chan_closed (ch_data st' ch) = chan_closed (ch_data st ch))"
proof (cases "st' = st")
  case False
  then obtain data ch' where "try_recv (ch_data st (nc_recvCh c)) = (Received data, ch')"
    and "st' = st\<lparr>ch_data := (ch_data st)(nc_recvCh c := ch')\<rparr>"
    using assms by (auto simp: conn_Read_def Let_def split: if_splits prod.splits recv_outcome.splits)
  then show ?thesis
    by (auto dest: try_recv_keeps)
qed simp

text \<open>The moves of the goroutine of \<open>Connect\<close>, by case of \<open>dispatch_lookup\<close>.\<close>

lemma dispatch_lookup_new:
  "sessions p (EnvSessionID env) = None \<Longrightarrow>
     dispatch_lookup env p st = (ConnOffer (incoming_conn env p st), incoming_proxy env p st, incoming_store env st)"
  by (simp add: dispatch_lookup_def incoming_conn_def incoming_proxy_def incoming_store_def new_data_chan_def)

lemma dispatch_lookup_known:
  "sessions p (EnvSessionID env) = Some s \<Longrightarrow>
     dispatch_lookup env p st = (ConnDeliver (se_ch s) (Payload env), p, st)"
  by (simp add: dispatch_lookup_def)

lemma dispatch_lookup_inv: "h2_inv p st \<Longrightarrow> dispatch_lookup env p st = (pc, p', st') \<Longrightarrow> h2_inv p' st'"
  by (cases "sessions p (EnvSessionID env)") (auto simp: dispatch_lookup_new dispatch_lookup_known incoming_inv)

lemma dispatch_offer_frame:
  "h2_inv p st \<Longrightarrow> \<exists>taken ch. dispatch_offer conn st = Some (taken, st\<lparr>acceptCh := ch\<rparr>) \<and> chan_ok ch \<and> \<not> chan_closed ch"
  using h2_inv_shared(1,2) [of p st]
  by (cases "length (chan_buf (acceptCh st)) < chan_cap (acceptCh st)")
    (auto simp: dispatch_offer_def try_send_def chan_ok_def intro: exI [of _ "acceptCh st"])

lemma dispatchControl_frame:
  "h2_inv p st \<Longrightarrow> \<exists>ch. dispatchControl env st = Some (st\<lparr>controlCh := ch\<rparr>) \<and> chan_ok ch \<and> \<not> chan_closed ch"
  using h2_inv_shared(3,4) [of p st]
  by (cases "length (chan_buf (controlCh st)) < chan_cap (controlCh st)")
    (auto simp: dispatchControl_def try_send_def chan_ok_def intro: exI [of _ "controlCh st"])

lemma closeAllSessions_inv:
  "h2_inv p st \<Longrightarrow> \<exists>p' st'. closeAllSessions order p st = Some (p', st') \<and> h2_inv p' st'"
  by (simp add: closeAllSessions_eq)
    (auto simp: h2_inv_def store_ok_def sessions_ok_def close_refs_def session_refs_def restrict_map_def
      split: if_splits, metis)

text \<open>
  What a move of the goroutine does: it does not panic, provided that the signal is open when it is
  to be closed; it keeps the invariant; it leaves the signal alone otherwise.
\<close>

lemma connect_next_total:
  assumes "h2_inv p st" "pc = ConnAnnounce \<Longrightarrow> \<not> sig_closed st (connectedCh p)"
  shows "connect_next i pc p st \<noteq> ConnPanics"
proof (cases pc)
  case ConnReading
  then show ?thesis
    using dispatchControl_frame [OF assms(1)]
    by (auto simp: conn_moves_def split: connect_in.splits prod.splits option.splits) (metis option.distinct(1))
next
  case (ConnOffer conn)
  then show ?thesis
    using dispatch_offer_frame [OF assms(1), of conn] by (auto split: option.splits)
next
  case (ConnTakeBack sid)
  then show ?thesis
    using removeSession_inv [OF assms(1), of sid] by (auto simp: conn_moves_def)
next
  case ConnLeaving
  then show ?thesis
    using closeAllSessions_inv [OF assms(1)]
    by (auto simp: conn_moves_def split: connect_in.splits option.splits) (metis option.distinct(1))
qed (use assms in \<open>auto simp: conn_moves_def connect_announce_def split: connect_in.splits sum.splits\<close>)

lemma conn_moves_iff: "conn_moves pc res = ConnMoves pc' p' st' \<longleftrightarrow> pc' = pc \<and> res = Some (p', st')"
  by (auto simp: conn_moves_def split: option.splits)

lemma connect_next_inv:
  assumes "h2_inv p st" "connect_next i pc p st = ConnMoves pc' p' st'"
  shows "h2_inv p' st'"
proof (cases pc)
  case ConnReading
  with assms show ?thesis
    using dispatchControl_inv [OF assms(1)]
    by (auto simp: conn_moves_iff split: connect_in.splits if_splits prod.splits
        intro: dispatch_lookup_inv) (metis option.inject)
next
  case (ConnOffer conn)
  with assms show ?thesis
    using dispatch_offer_frame [OF assms(1), of conn] h2_inv_accept [OF assms(1)]
    by (auto split: if_splits option.splits)
next
  case (ConnTakeBack sid)
  with assms show ?thesis
    using removeSession_inv [OF assms(1), of sid] by (auto simp: conn_moves_iff split: if_splits)
next
  case ConnLeaving
  with assms show ?thesis
    using closeAllSessions_inv [OF assms(1)]
    by (auto simp: conn_moves_iff split: connect_in.splits if_splits) (metis option.inject prod.inject)
qed (use assms in \<open>auto simp: conn_moves_iff connect_announce_def h2_inv_safeSend
    split: connect_in.splits sum.splits if_splits\<close>)

lemma dispatch_lookup_sigs:
  "dispatch_lookup env p st = (pc, p', st') \<Longrightarrow>
     connectedCh p' = connectedCh p \<and> sig_closed st' = sig_closed st \<and> sig_next st' = sig_next st \<and> writer p' = writer p \<and>
     ((\<exists>c. pc = ConnOffer c) \<or> (\<exists>ch data. pc = ConnDeliver ch data))"
  by (auto simp: dispatch_lookup_def new_data_chan_def safeSend_eq split: option.splits)

definition before_signal :: "connect_pc \<Rightarrow> bool" where
  "before_signal pc \<longleftrightarrow> pc = ConnIdle \<or> pc = ConnDialing \<or> pc = ConnAnnounce"

definition no_writer :: "connect_pc \<Rightarrow> bool" where
  "no_writer pc \<longleftrightarrow> pc = ConnIdle \<or> pc = ConnDialing \<or> pc = ConnLeaving \<or> pc = ConnDone"

lemmas pc_defs = before_signal_def no_writer_def

lemma connect_next_frame:
  assumes "connect_next i pc p st = ConnMoves pc' p' st'"
  shows "connectedCh p' = connectedCh p \<and> sig_next st' = sig_next st \<and> pc' \<noteq> ConnIdle \<and> pc' \<noteq> ConnDialing \<and>
    (before_signal pc' \<longrightarrow> before_signal pc) \<and>
    (if pc = ConnAnnounce then sig_closed st' = (sig_closed st)(connectedCh p := True) \<and> \<not> before_signal pc'
     else sig_closed st' = sig_closed st) \<and>
    ((no_writer pc \<longrightarrow> writer p = None) \<longrightarrow> no_writer pc' \<longrightarrow> writer p' = None)"
proof (cases pc)
  case ConnReading
  with assms show ?thesis
    by (auto simp: conn_moves_iff dispatchControl_def pc_defs split: connect_in.splits if_splits prod.splits send_outcome.splits
        dest!: dispatch_lookup_sigs)
next
  case (ConnOffer conn)
  with assms show ?thesis
    by (auto simp: dispatch_offer_def pc_defs split: if_splits option.splits prod.splits send_outcome.splits)
next
  case (ConnTakeBack sid)
  with assms show ?thesis
    by (auto simp: conn_moves_iff pc_defs split: if_splits dest!: removeSession_sigs)
next
  case ConnLeaving
  with assms show ?thesis
    by (auto simp: conn_moves_iff pc_defs split: connect_in.splits if_splits dest!: closeAllSessions_sigs)
qed (use assms in \<open>auto simp: conn_moves_iff connect_announce_def safeSend_eq pc_defs
    split: connect_in.splits sum.splits if_splits\<close>)

text \<open>
  The invariant of the proxy and its goroutines: the signal is open as long as it is still to be
  closed, and there is a writer only while the connection is up.
\<close>

fun h2_state_ok :: "h2_state \<Rightarrow> bool" where
  "h2_state_ok (pc, p, st) \<longleftrightarrow>
     h2_inv p st \<and> connectedCh p < sig_next st \<and> (before_signal pc \<longrightarrow> \<not> sig_closed st (connectedCh p)) \<and>
     (no_writer pc \<longrightarrow> writer p = None)"

lemma h2_step_ok: "h2_step ok s t \<Longrightarrow> h2_state_ok s \<Longrightarrow> h2_state_ok t"
proof (induction rule: h2_step.induct)
  case (step_first p st)
  then show ?case by (simp add: pc_defs)
next
  case (step_again p st p' st')
  then show ?case by (auto simp: Reset_def new_signal_def pc_defs)
next
  case (step_connect i pc p st pc' p' st')
  then show ?case
    using connect_next_inv [of p st i pc pc' p' st'] connect_next_frame [OF step_connect.hyps]
    by (auto split: if_splits)
next
  case (step_open p q st c p' st' pc)
  then show ?case
    using NewSession_inv [of p st q c p' st'] by (auto simp: NewSession_def new_data_chan_def Let_def)
next
  case (step_write env p e p' pc st)
  then show ?case
    using writeEnvelope_inv [OF step_write.hyps] writeEnvelope_frame [OF step_write.hyps] by auto
next
  case (step_close c p st p' st' pc)
  then show ?case
    using removeSession_inv [of p st "nc_sessionID c"] removeSession_sigs [of "nc_sessionID c" p st p' st']
    by (auto simp: conn_Close_def)
next
  case (step_read c st n now out c' st' pc p)
  then show ?case
    using conn_Read_frame [OF step_read.hyps(2)] conn_Read_store [OF _ step_read.hyps] by auto
next
  case (step_accept st out ch pc p)
  then show ?case
    using try_recv_keeps [OF step_accept.hyps] by (auto intro!: h2_inv_accept dest: h2_inv_shared)
next
  case (step_control st out ch pc p)
  then show ?case
    using try_recv_keeps [OF step_control.hyps] by (auto intro!: h2_inv_control dest: h2_inv_shared)
qed

lemma h2_reach_ok: "h2_reach ok s \<Longrightarrow> h2_state_ok s"
proof (induction rule: h2_reach.induct)
  case (reach_new self url insecure p st)
  then show ?case
    by (auto simp: NewProxy_def new_signal_def fresh_store_def h2_inv_def store_ok_def sessions_ok_def)
next
  case (reach_step s t)
  then show ?case by (auto intro: h2_step_ok)
qed

lemma h2_reach_inv: "h2_reach ok (pc, p, st) \<Longrightarrow> h2_inv p st"
  using h2_reach_ok by fastforce

section \<open>Channels without a session\<close>

text \<open>
  The channels that were ever made and are still open, all of them held by the map: what fails when
  \<open>NewSession\<close> takes a number that is in use.
\<close>

definition all_held :: "InternalProxy \<Rightarrow> h2store \<Rightarrow> bool" where
  "all_held p st \<longleftrightarrow>
     (\<forall>ch < ch_next st. \<not> chan_closed (ch_data st ch) \<longrightarrow> (\<exists>sid s. sessions p sid = Some s \<and> se_ch s = ch))"

definition unused_number :: "InternalProxy \<Rightarrow> bool" where
  "unused_number p \<longleftrightarrow> sessions p (nextSID p + 1) = None"

text \<open>An operation that neither opens a channel nor takes a session out of the map.\<close>

lemma all_held_frame:
  "all_held p st \<Longrightarrow> ch_next st' = ch_next st \<Longrightarrow> (\<And>ch. chan_closed (ch_data st' ch) = chan_closed (ch_data st ch)) \<Longrightarrow>
     sessions p' = sessions p \<Longrightarrow> all_held p' st'"
  by (simp add: all_held_def)

text \<open>A fresh channel is put under a number that is not in use.\<close>

lemma all_held_fresh:
  assumes "all_held p st" "sessions p sid = None" "ch_next st' = Suc (ch_next st)"
    and "\<And>ch. ch < ch_next st \<Longrightarrow> chan_closed (ch_data st' ch) = chan_closed (ch_data st ch)"
    and "sessions p' = (sessions p)(sid \<mapsto> s)" "se_ch s = ch_next st"
  shows "all_held p' st'"
  unfolding all_held_def
proof (intro allI impI)
  fix ch
  assume ch: "ch < ch_next st'" "\<not> chan_closed (ch_data st' ch)"
  show "\<exists>sid s. sessions p' sid = Some s \<and> se_ch s = ch"
  proof (cases "ch = ch_next st")
    case False
    then obtain sid' s' where "sessions p sid' = Some s'" "se_ch s' = ch"
      using ch assms(1,3,4) by (auto simp: all_held_def less_Suc_eq)
    moreover from this have "sid' \<noteq> sid"
      using assms(2) by auto
    ultimately show ?thesis
      using assms(5) by fastforce
  qed (use assms(5,6) in force)
qed

text \<open>Sessions are taken out of the map with their channels closed.\<close>

lemma all_held_removed:
  assumes "all_held p st" "h2_inv p st" "removeSession sid p st = Some (p', st')"
  shows "all_held p' st'"
proof (cases "sessions p sid")
  case None
  with assms show ?thesis by (simp add: removeSession_def)
next
  case (Some s)
  have p': "p' = p\<lparr>sessions := (sessions p)(sid := None)\<rparr>" and st': "st' = close_ref (se_ch s) st"
    using assms(2,3) Some by (simp_all add: removeSession_eq h2_inv_def)
  have "\<exists>sid' s'. sid' \<noteq> sid \<and> sessions p sid' = Some s' \<and> se_ch s' = ch"
    if "ch < ch_next st" "ch \<noteq> se_ch s" "\<not> chan_closed (ch_data st ch)" for ch
    using that assms(1) Some unfolding all_held_def by (metis option.inject)
  then show ?thesis
    by (auto simp: all_held_def p' st' close_ref_def)
qed

lemma all_held_closed:
  assumes "all_held p st" "h2_inv p st" "set order = dom (sessions p)" "closeAllSessions order p st = Some (p', st')"
  shows "sessions p' = Map.empty \<and> (\<forall>ch < ch_next st'. chan_closed (ch_data st' ch))"
proof -
  have p': "p' = p\<lparr>sessions := sessions p |` (- dom (sessions p))\<rparr>"
    and st': "st' = close_refs (session_refs p (dom (sessions p))) st"
    using assms(4) closeAllSessions_eq [OF assms(2), of order] by (simp_all add: assms(3))
  have "chan_closed (ch_data st' ch)" if "ch < ch_next st'" for ch
    using that assms(1) session_refs_memb by (fastforce simp: st' close_refs_def all_held_def)
  then show ?thesis
    by (auto simp: p' restrict_map_def fun_eq_iff domIff)
qed

lemma all_held_connect:
  assumes "all_held p st" "h2_inv p st" "connect_next i pc p st = ConnMoves pc' p' st'"
  shows "all_held p' st'"
proof (cases pc)
  case ConnReading
  show ?thesis
  proof (cases "\<exists>env. i = Arrives env \<and> StreamType env = StreamTypeData \<and> sessions p (EnvSessionID env) = None")
    case True
    then obtain env where env: "sessions p (EnvSessionID env) = None"
      and p': "p' = incoming_proxy env p st" and st': "st' = incoming_store env st"
      using assms(3) ConnReading by (auto simp: dispatch_lookup_new)
    show ?thesis
      by (rule all_held_fresh [OF assms(1) env,
            where s = "\<lparr>se_ch = ch_next st, se_peerID = SrcPeerID env, se_once = False\<rparr>"])
        (simp_all add: p' st' incoming_proxy_def incoming_store_def safeSend_eq new_data_chan_def)
  next
    case False
    have "sessions p' = sessions p \<and> ch_data st' = ch_data st \<and> ch_next st' = ch_next st"
      using assms(3) False ConnReading
      by (auto simp: conn_moves_iff dispatchControl_def dispatch_lookup_known
          split: connect_in.splits if_splits prod.splits send_outcome.splits)
    then show ?thesis
      using assms(1) by (intro all_held_frame [OF assms(1)]) auto
  qed
next
  case (ConnOffer conn)
  with assms(3) show ?thesis
    by (intro all_held_frame [OF assms(1)])
      (auto simp: dispatch_offer_def split: if_splits option.splits prod.splits send_outcome.splits)
next
  case (ConnTakeBack sid)
  with assms show ?thesis
    by (auto simp: conn_moves_iff split: if_splits intro: all_held_removed)
next
  case ConnLeaving
  with assms(3) obtain order where "set order = dom (sessions p)" "closeAllSessions order p st = Some (p', st')"
    by (auto simp: conn_moves_iff split: connect_in.splits if_splits)
  from all_held_closed [OF assms(1,2) this] show ?thesis
    by (simp add: all_held_def)
qed (use assms in \<open>auto simp: conn_moves_iff connect_announce_def safeSend_eq all_held_def
    split: connect_in.splits sum.splits if_splits\<close>)

lemma h2_step_held:
  "h2_step unused_number s t \<Longrightarrow> h2_state_ok s \<Longrightarrow> all_held (fst (snd s)) (snd (snd s)) \<Longrightarrow> all_held (fst (snd t)) (snd (snd t))"
proof (induction rule: h2_step.induct)
  case (step_again p st p' st')
  then show ?case by (auto simp: Reset_def new_signal_def all_held_def)
next
  case (step_connect i pc p st pc' p' st')
  then show ?case by (auto intro: all_held_connect)
next
  case (step_open p q st c p' st' pc)
  have "sessions p (nextSID p + 1) = None"
    using step_open.hyps(1) by (simp add: unused_number_def)
  with step_open show ?case
    unfolding fst_conv snd_conv
    by (intro all_held_fresh [of p st "nextSID p + 1" st' p' "\<lparr>se_ch = ch_next st, se_peerID = q, se_once = False\<rparr>"])
      (auto simp: NewSession_def new_data_chan_def Let_def)
next
  case (step_write env p e p' pc st)
  then show ?case by (auto simp: all_held_def dest: writeEnvelope_frame)
next
  case (step_close c p st p' st' pc)
  then show ?case by (auto simp: conn_Close_def intro: all_held_removed)
next
  case (step_read c st n now out c' st' pc p)
  then show ?case by (auto simp: all_held_def dest: conn_Read_frame)
qed (auto simp: all_held_def)

lemma h2_reach_held: "h2_reach unused_number s \<Longrightarrow> all_held (fst (snd s)) (snd (snd s))"
proof (induction rule: h2_reach.induct)
  case (reach_new self url insecure p st)
  then show ?case by (auto simp: NewProxy_def new_signal_def fresh_store_def all_held_def)
next
  case (reach_step s t)
  then show ?case using h2_reach_ok h2_step_held by blast
qed

text \<open>
  Without other goroutines, the moves from an envelope back to \<open>envelope.Decode\<close> are \<open>dispatch\<close>.
\<close>

fun settle :: "nat \<Rightarrow> connect_out \<Rightarrow> connect_out" where
  "settle (Suc n) (ConnMoves pc p st) =
     (if pc = ConnReading then ConnMoves pc p st else settle n (connect_next Turn pc p st))"
| "settle n out = out"

lemma dispatch_is_settled:
  "settle 3 (connect_next (Arrives env) ConnReading p st) = conn_moves ConnReading (dispatch env p st)"
proof (cases "StreamType env = StreamTypeData")
  case True
  show ?thesis
  proof (cases "sessions p (EnvSessionID env)")
    case None
    then show ?thesis
      using True
      by (auto simp: dispatch_def dispatchData_def dispatch_lookup_new conn_moves_def numeral_3_eq_3
          split: option.splits)
  next
    case (Some s)
    with True show ?thesis
      by (simp add: dispatch_def dispatchData_known dispatch_lookup_known conn_moves_def numeral_3_eq_3)
  qed
next
  case False
  then show ?thesis
    by (auto simp: dispatch_def conn_moves_def numeral_3_eq_3 split: option.splits)
qed

section \<open>Properties\<close>

text \<open>
  C6: in every state that the goroutines sharing a proxy can reach, whatever the relay sends and
  however sessions are opened, read, written and closed between any two critical sections of
  \<open>Connect\<close>, no panic leaves the proxy: the next move of the goroutine of \<open>Connect\<close> does not panic (the
  signal of the connection is closed once, and \<open>acceptCh\<close>, \<open>controlCh\<close> and the sessions' channels are
  used as the language allows), nor does the closing of any session; each session of the map has an
  open channel of its own; and when a session was closed between its look-up and the delivery, the
  panic of the send is recovered and the payload is dropped without a trace.
\<close>

theorem h2_never_panics:
  assumes "h2_reach any_time (pc, p, st)"
  shows "h2_inv p st \<and> connect_next i pc p st \<noteq> ConnPanics \<and> conn_Close c p st \<noteq> None \<and>
    (pc = ConnAnnounce \<longrightarrow> \<not> sig_closed st (connectedCh p)) \<and>
    (\<forall>ch data. pc = ConnDeliver ch data \<longrightarrow> chan_closed (ch_data st ch) \<longrightarrow>
       connect_next Turn pc p st = ConnMoves ConnReading p st)"
proof -
  have ok: "h2_state_ok (pc, p, st)"
    using h2_reach_ok [OF assms] .
  then have inv: "h2_inv p st" and sig: "pc = ConnAnnounce \<Longrightarrow> \<not> sig_closed st (connectedCh p)"
    by (simp_all add: pc_defs)
  have "safeSend ch data st = st" if "chan_closed (ch_data st ch)" for ch data
    using that by (simp add: safeSend_def try_send_def)
  with inv sig connect_next_total [OF inv sig, where i = i] removeSession_inv [OF inv, of "nc_sessionID c"]
  show ?thesis by (auto simp: conn_Close_def)
qed

definition sample_proxy :: "InternalProxy \<times> h2store" where
  "sample_proxy = NewProxy (peer_id_of [2]) ''https://relay'' False fresh_store"

definition sample_session :: "EnvelopeNetConn \<times> InternalProxy \<times> h2store" where
  "sample_session = NewSession (peer_id_of [1]) (fst sample_proxy) (snd sample_proxy)"

lemma reach_connect:
  "h2_reach ok (pc, s) \<Longrightarrow> connect_next i pc (fst s) (snd s) = ConnMoves pc' (fst s') (snd s') \<Longrightarrow> h2_reach ok (pc', s')"
  using h2_reach.reach_step [of ok "(pc, s)" "(pc', s')"] step_connect [of i pc "fst s" "snd s" pc' "fst s'" "snd s'" ok]
  by simp

lemma sample_session_facts:
  "h2_reach ok (ConnIdle, sample_proxy)"
  "ok (fst sample_proxy) \<Longrightarrow> h2_reach ok (ConnIdle, snd sample_session)"
  "sessions (fst (snd sample_session)) 1 = Some \<lparr>se_ch = 0, se_peerID = peer_id_of [1], se_once = False\<rparr>"
  "ch_data (snd (snd sample_session)) 0 = make_chan 64"
proof -
  show new: "h2_reach ok (ConnIdle, sample_proxy)" for ok
    using h2_reach.reach_new [of "peer_id_of [2]" "''https://relay''" False "fst sample_proxy" "snd sample_proxy" ok]
    by (simp add: sample_proxy_def)
  show "h2_reach ok (ConnIdle, snd sample_session)" if "ok (fst sample_proxy)" for ok
    using new [of ok] step_open [of ok "fst sample_proxy" "peer_id_of [1]" "snd sample_proxy" "fst sample_session"
        "fst (snd sample_session)" "snd (snd sample_session)" ConnIdle] that
    by (intro h2_reach.reach_step [OF new]) (simp add: sample_session_def)
qed (simp_all add: sample_session_def sample_proxy_def NewProxy_def new_signal_def NewSession_def
    new_data_chan_def fresh_store_def)

lemma sample_session_inv: "h2_inv (fst (snd sample_session)) (snd (snd sample_session))"
  by (rule h2_reach_inv [of any_time ConnIdle]) (use sample_session_facts(2) [of any_time] in simp)

text \<open>
  A session that is closed between the look-up and the delivery: the connection is up, an envelope
  for session 1 arrives, and before it is delivered the session's owner closes it.
\<close>

definition sample_up :: "InternalProxy \<times> h2store" where
  "sample_up =
     ((fst (snd sample_session))\<lparr>writer := Some open_stream\<rparr>,
      (snd (snd sample_session))\<lparr>sig_closed := (sig_closed (snd (snd sample_session)))(0 := True)\<rparr>)"

definition sample_closing :: "InternalProxy \<times> h2store" where
  "sample_closing =
     ((fst sample_up)\<lparr>sessions := (sessions (fst sample_up))(1 := None)\<rparr>, close_ref 0 (snd sample_up))"

lemmas sample_defs = sample_session_def sample_proxy_def NewProxy_def new_signal_def NewSession_def
  new_data_chan_def fresh_store_def

lemma sample_up_reach:
  assumes "ok (fst sample_proxy)"
  shows "h2_reach ok (ConnReading, sample_up)"
proof -
  let ?p = "fst (snd sample_session)" and ?st = "snd (snd sample_session)"
  have "h2_reach ok (ConnDialing, ?p, ?st)"
    using sample_session_facts(2) [of ok, OF assms] step_first [of ok ?p ?st] by (auto intro: h2_reach.reach_step)
  then have "h2_reach ok (ConnAnnounce, ?p\<lparr>writer := Some open_stream\<rparr>, ?st)"
    by (rule reach_connect [where i = "Answer (Inr \<lparr>rd_data = [], rd_end = EOF\<rparr>)"]) simp
  then show ?thesis
    by (rule reach_connect [where i = Turn]) (simp add: sample_up_def conn_moves_def connect_announce_def sample_defs)
qed

lemma sample_closing_reach: "h2_reach any_time (ConnDeliver 0 [0xde, 0xad], sample_closing)"
proof -
  let ?env = "sample_envelope\<lparr>EnvSessionID := 1\<rparr>"
  let ?c = "fst sample_session"
  have "h2_reach any_time (ConnDeliver 0 [0xde, 0xad], sample_up)"
    by (rule reach_connect [OF sample_up_reach, where i = "Arrives ?env"])
      (simp_all add: dispatch_lookup_def sample_up_def sample_defs sample_envelope_def StreamTypeData_def)
  then show ?thesis
  proof (rule h2_reach.reach_step)
    have "conn_Close ?c (fst sample_up) (snd sample_up) = Some (fst sample_closing, snd sample_closing)"
      by (simp add: conn_Close_def removeSession_def closeOnce_def chan_close_def sample_closing_def sample_up_def
          sample_defs close_ref_def)
    from step_close [OF this, of any_time "ConnDeliver 0 [0xde, 0xad]"]
    show "h2_step any_time (ConnDeliver 0 [0xde, 0xad], sample_up) (ConnDeliver 0 [0xde, 0xad], sample_closing)"
      by simp
  qed
qed

theorem h2_never_panics_witness:
  "chan_closed (ch_data (snd sample_closing) 0) \<and>
   connect_next Turn (ConnDeliver 0 [0xde, 0xad]) (fst sample_closing) (snd sample_closing) =
     ConnMoves ConnReading (fst sample_closing) (snd sample_closing)"
proof -
  have "h2_reach any_time (ConnDeliver 0 [0xde, 0xad], fst sample_closing, snd sample_closing)"
    using sample_closing_reach by simp
  from h2_never_panics [OF this] show ?thesis
    by (simp add: sample_closing_def close_ref_def)
qed

text \<open>
  C25: the read loop delivers to each session of the map exactly the payloads of the DATA envelopes
  that carry its number, in the order in which they were sent, after what the session's channel
  held, as long as the channel's 64 places last; the session stays in the map, and envelopes for
  other sessions do not touch it.
\<close>

theorem readLoop_delivers_in_order:
  assumes "h2_inv p st" and "sessions p sid = Some s" and "\<forall>env \<in> set envs. wire_envelope env"
  shows "\<exists>p' st'. readLoop \<lparr>rd_data = envelope_wire envs, rd_end = e\<rparr> p st = Some (ReadHeader e, p', st') \<and>
    sessions p' sid = Some s \<and>
    chan_buf (ch_data st' (se_ch s)) =
      chan_buf (ch_data st (se_ch s)) @
        take (64 - length (chan_buf (ch_data st (se_ch s)))) (map Payload (filter (for_session sid) envs))"
proof -
  have "decode_stream \<lparr>rd_data = [], rd_end = e\<rparr> = ([], ReadHeader e)"
    by (subst decode_stream.simps) (simp add: envelope_Decode_def ReadFull_def headerSize_def)
  then have dec: "decode_stream \<lparr>rd_data = envelope_wire envs, rd_end = e\<rparr> = (envs, ReadHeader e)"
    using decode_stream_wire [OF assms(3), of "[]" "\<lparr>rd_data = [], rd_end = e\<rparr>"] by simp
  obtain p' st' where all: "dispatch_all envs p st = Some (p', st')"
    using readLoop_inv [OF assms(1), of "\<lparr>rd_data = envelope_wire envs, rd_end = e\<rparr>"] dec
    by (auto simp: readLoop_dispatch_all)
  have "chan_room (ch_data st (se_ch s)) = 64 - length (chan_buf (ch_data st (se_ch s)))"
    using assms(1,2) by (auto simp: h2_inv_def store_ok_def sessions_ok_def chan_room_def)
  then show ?thesis
    using dispatch_all_session [OF assms(1,2) all] dec all
    by (simp add: readLoop_dispatch_all chanq.push_all)
qed

theorem readLoop_delivers_in_order_witness:
  "\<exists>p' st'. readLoop \<lparr>rd_data = envelope_wire [sample_envelope\<lparr>EnvSessionID := 1\<rparr>, sample_envelope], rd_end = EOF\<rparr>
       (fst (snd sample_session)) (snd (snd sample_session)) = Some (ReadHeader EOF, p', st') \<and>
     chan_buf (ch_data st' 0) = [[0xde, 0xad]]"
proof -
  note inv = sample_session_inv
  have "\<forall>env \<in> set [sample_envelope\<lparr>EnvSessionID := 1\<rparr>, sample_envelope]. wire_envelope env"
    by (simp add: wire_envelope_def sample_envelope_def)
  from readLoop_delivers_in_order [OF inv sample_session_facts(3) this, of EOF] sample_session_facts(4)
  show ?thesis
    by (auto simp: for_session_def sample_envelope_def StreamTypeData_def)
qed

text \<open>
  C26: every return of \<open>Connect\<close>. When the URL does not parse, the request cannot be built or sent or
  the relay answers with another status than 200, it returns with the proxy and all sessions as they
  were. When the relay has accepted, it returns only through the deferred clean-up, and then, in
  whichever order Go visits the session map, the proxy has no writer, reports that it is not
  connected and has no session, and the channel of every session that was ever opened, by this node
  or by the relay, before or during the attempt, is closed, so that its readers come to an end.
  Other goroutines may open, use and close sessions throughout; it is only assumed that
  \<open>NewSession\<close> does not meet a number that a remote node has brought in, since a session that is
  replaced in the map keeps its channel open.
\<close>

theorem connect_cleans_up:
  assumes "h2_reach unused_number (pc, p, st)"
  shows "(pc = ConnDialing \<longrightarrow> connect_dial urlParse dial p = Inl err \<longrightarrow>
      connect_next (Answer (connect_dial urlParse dial p)) pc p st = ConnMoves ConnDone p st) \<and>
    (connect_next i pc p st = ConnMoves ConnDone p' st' \<longrightarrow> pc = ConnDialing \<or> pc = ConnLeaving) \<and>
    (pc = ConnLeaving \<longrightarrow> set order = dom (sessions p) \<longrightarrow>
      (\<exists>p' st'. connect_next (Visits order) pc p st = ConnMoves ConnDone p' st' \<and> writer p' = None \<and>
         \<not> IsConnected p' st' \<and> sessions p' = Map.empty \<and> (\<forall>ch < ch_next st'. chan_closed (ch_data st' ch))))"
proof (intro conjI impI)
  have ok: "h2_state_ok (pc, p, st)" and held: "all_held p st"
    using h2_reach_ok [OF assms] h2_reach_held [OF assms] by simp_all
  show "connect_next (Answer (connect_dial urlParse dial p)) pc p st = ConnMoves ConnDone p st"
    if "pc = ConnDialing" "connect_dial urlParse dial p = Inl err"
    using that by simp
  show "pc = ConnDialing \<or> pc = ConnLeaving" if "connect_next i pc p st = ConnMoves ConnDone p' st'"
    using that
    by (cases pc) (auto simp: conn_moves_iff split: connect_in.splits if_splits prod.splits option.splits
        dest!: dispatch_lookup_sigs)
  show "\<exists>p' st'. connect_next (Visits order) pc p st = ConnMoves ConnDone p' st' \<and> writer p' = None \<and>
      \<not> IsConnected p' st' \<and> sessions p' = Map.empty \<and> (\<forall>ch < ch_next st'. chan_closed (ch_data st' ch))"
    if pc: "pc = ConnLeaving" and order: "set order = dom (sessions p)"
  proof -
    obtain p1 st1 where close: "closeAllSessions order p st = Some (p1, st1)"
      using closeAllSessions_inv [of p st order] ok by auto
    have "writer p1 = None"
      using closeAllSessions_sigs [OF close] ok pc by (simp add: pc_defs)
    then show ?thesis
      using all_held_closed [OF held _ order close] ok close order
      by (simp add: pc conn_moves_def IsConnected_def)
  qed
qed

theorem connect_cleans_up_witness:
  "\<exists>p' st'. connect_next (Visits [1]) ConnLeaving ((fst sample_up)\<lparr>writer := None\<rparr>) (snd sample_up) =
     ConnMoves ConnDone p' st' \<and> sessions p' = Map.empty \<and> (\<forall>ch < ch_next st'. chan_closed (ch_data st' ch))"
proof -
  have "h2_reach unused_number (ConnReading, sample_up)"
    by (rule sample_up_reach) (simp add: unused_number_def sample_defs)
  then have "h2_reach unused_number (ConnLeaving, (fst sample_up)\<lparr>writer := None\<rparr>, snd sample_up)"
    by (rule reach_connect [where i = StreamEnds]) simp
  moreover have "set [1] = dom (sessions ((fst sample_up)\<lparr>writer := None\<rparr>))"
    by (auto simp: sample_up_def sample_defs split: if_splits)
  ultimately show ?thesis
    using connect_cleans_up [of ConnLeaving "(fst sample_up)\<lparr>writer := None\<rparr>" "snd sample_up"] by blast
qed

text \<open>
  C27: with any buffer size, a reader without a deadline gets exactly the bytes that have arrived,
  in order and without loss or repetition across messages, and then \<open>io.EOF\<close> if the session is
  closed and blocks otherwise.
\<close>

theorem conn_read_is_stream:
  assumes "nc_readDeadline c = None"
  shows "conn_drain n now c st =
    (nc_readBuf c @ concat (chan_buf (ch_data st (nc_recvCh c))),
     if chan_closed (ch_data st (nc_recvCh c)) then ReadFailed EOF else ReadBlocks)"
  using conn_drain_all [OF assms] by (simp add: conn_stream_def)

theorem conn_read_is_stream_witness:
  "conn_drain 0 0 (fst sample_session)
     ((snd (snd sample_session))\<lparr>ch_data := (\<lambda>_. \<lparr>chan_buf = [[1, 2], [], [3]], chan_cap = 64, chan_closed = True\<rparr>)\<rparr>) =
   ([1, 2, 3], ReadFailed EOF)"
proof -
  have "nc_readDeadline (fst sample_session) = None" "nc_readBuf (fst sample_session) = []"
    by (simp_all add: sample_session_def sample_proxy_def NewProxy_def new_signal_def NewSession_def
        new_data_chan_def fresh_store_def)
  then show ?thesis
    by (simp add: conn_read_is_stream)
qed

section \<open>Session numbers\<close>

text \<open>
  The first DATA envelope of a freshly started node: its first session has number 1, whoever the
  node is.
\<close>

definition first_data_envelope :: "peer_id \<Rightarrow> peer_id \<Rightarrow> bytes \<Rightarrow> envelope" where
  "first_data_envelope self peer b =
     \<lparr>Version = Version1, StreamType = StreamTypeData, SrcPeerID = self, DstPeerID = peer,
      EnvSessionID = 1, Payload = b\<rparr>"

lemma first_write:
  assumes "NewProxy self url insecure fresh_store = (p, st)" "connect_established p st = Some (p1, st1)"
    and "NewSession peer p1 st1 = (c, p2, st2)"
  shows "\<exists>p3. conn_Write b c p2 = (Inr (length b), p3) \<and>
    map_option st_sent (writer p3) = Some (envelope_frame (first_data_envelope self peer b))"
  using assms
  by (auto simp: NewProxy_def new_signal_def fresh_store_def connect_established_def connect_announce_def NewSession_def Let_def
      new_data_chan_def conn_Write_def writeEnvelope_def Encode_stream open_stream_def first_data_envelope_def)

text \<open>
  C38: sessions are found by their number alone. When two nodes that have just started, \<open>A\<close> and
  \<open>B\<close>, each send the first envelope of their first session to the same node, only \<open>A\<close>'s session
  is offered to the manager, and \<open>B\<close>'s bytes are appended to it.
\<close>

theorem first_sessions_collide:
  "\<exists>p st c. NewProxy self url insecure fresh_store = (fst p, snd p) \<and>
     dispatch_all [first_data_envelope A self bA, first_data_envelope B self bB] (fst p) (snd p) = Some st \<and>
     chan_buf (acceptCh (snd st)) = [c] \<and> nc_peerID c = A \<and> conn_stream c (snd st) = bA @ bB"
  by (simp add: NewProxy_def new_signal_def fresh_store_def first_data_envelope_def dispatch_def
      StreamTypeData_def dispatchData_def dispatch_lookup_def dispatch_offer_def new_data_chan_def safeSend_eq try_send_def chan_push_def
      conn_stream_def)

text \<open>
  The local counter does not avoid numbers that a remote node has already brought in. When it
  reaches such a number, the new session replaces the old one in the map without closing it, and
  the tear-down of the relay connection then does not close the old session's channel: its reader
  is never told that the connection is gone.
\<close>

theorem replaced_session_not_closed:
  assumes "h2_inv p st" and "sessions p (nextSID p + 1) = Some s" and "NewSession q p st = (c, p1, st1)"
    and "set order = dom (sessions p1)" and "connect_teardown order p1 st1 = Some (p2, st2)"
  shows "\<not> chan_closed (ch_data st2 (se_ch s))"
proof -
  have inv1: "h2_inv p1 st1"
    using assms(1,3) by (rule NewSession_inv)
  have st2: "st2 = close_refs (session_refs p1 (dom (sessions p1))) st1"
    using connect_teardown_eq [OF inv1 assms(4)] assms(5) by simp
  have s: "se_ch s < ch_next st" "\<not> chan_closed (ch_data st (se_ch s))"
    using assms(1,2) by (auto simp: h2_inv_def sessions_ok_def)
  have "se_ch s' \<noteq> se_ch s" if "sessions p1 sid = Some s'" for sid s'
    using that assms(1-3) s
    by (fastforce simp: NewSession_def new_data_chan_def h2_inv_def sessions_ok_def Let_def split: if_splits)
  then have "se_ch s \<notin> session_refs p1 (dom (sessions p1))"
    by (force simp: session_refs_def)
  then show ?thesis
    using assms(3) s by (auto simp: st2 close_refs_def NewSession_def new_data_chan_def Let_def)
qed

theorem replaced_session_not_closed_witness:
  "\<exists>p st c p1 st1 p2 st2. dispatch (first_data_envelope (peer_id_of [1]) (peer_id_of [2]) [5])
       (fst sample_proxy) (snd sample_proxy) = Some (p, st) \<and>
     NewSession (peer_id_of [3]) p st = (c, p1, st1) \<and> connect_teardown [1] p1 st1 = Some (p2, st2) \<and>
     \<not> chan_closed (ch_data st2 0)"
proof -
  let ?env = "first_data_envelope (peer_id_of [1]) (peer_id_of [2]) [5]"
  have inv0: "h2_inv (fst sample_proxy) (snd sample_proxy)"
    using h2_reach_inv [of any_time ConnIdle "fst sample_proxy" "snd sample_proxy"] sample_session_facts(1) [of any_time] by simp
  then obtain p st where d: "dispatch ?env (fst sample_proxy) (snd sample_proxy) = Some (p, st)"
    and inv: "h2_inv p st"
    using dispatch_inv by blast
  have sess: "sessions p = [1 \<mapsto> \<lparr>se_ch = 0, se_peerID = peer_id_of [1], se_once = False\<rparr>]" "nextSID p = 0"
    using d by (auto simp: sample_proxy_def NewProxy_def new_signal_def fresh_store_def dispatch_def
        first_data_envelope_def StreamTypeData_def dispatchData_def dispatch_lookup_def dispatch_offer_def new_data_chan_def safeSend_eq try_send_def)
  obtain c p1 st1 where new: "NewSession (peer_id_of [3]) p st = (c, p1, st1)"
    by (metis prod_cases3)
  have dom: "set [1] = dom (sessions p1)"
    using new sess by (auto simp: NewSession_def new_data_chan_def split: if_splits)
  obtain p2 st2 where tear: "connect_teardown [1] p1 st1 = Some (p2, st2)"
    using connect_teardown_inv [OF NewSession_inv [OF inv new] dom] by blast
  have "sessions p (nextSID p + 1) = Some \<lparr>se_ch = 0, se_peerID = peer_id_of [1], se_once = False\<rparr>"
    using sess by simp
  from replaced_session_not_closed [OF inv this new dom tear] d new tear show ?thesis by auto
qed

end
