(* ===== verification/Candidate.thy ===== *)
theory Candidate
  imports Netip
begin

text \<open>
  \<open>internal/candidate/candidate.go\<close>: the addresses that a node offers for a direct path. The
  interfaces of the host, as \<open>net.Interfaces\<close> returns them, are an argument. The methods of the
  older \<open>net.IP\<close>, a slice of 4 or 16 bytes, are modelled on the slice.
\<close>

section \<open>Candidates\<close>

text \<open>A \<open>uint8\<close> with three named values.\<close>

datatype Kind = KindEmbedded | KindStuned | KindH3Proxy | KindOther byte

fun Kind_String :: "Kind \<Rightarrow> string" where
  "Kind_String KindEmbedded = ''embedded''"
| "Kind_String KindStuned = ''stuned''"
| "Kind_String KindH3Proxy = ''h3proxy''"
| "Kind_String (KindOther _) = ''unknown''"

datatype State = StateIdle | StateProbing | StateValidated | StateFailed | StateCooldown

record candidate =
  cd_Kind :: Kind
  cd_Addr :: addrport
  cd_Generation :: u32
  cd_State :: State

section \<open>Interfaces and net.IP\<close>

text \<open>\<open>if_Addrs\<close> is absent when \<open>Addrs\<close> fails; an address that is neither \<open>IPNet\<close> nor \<open>IPAddr\<close> has no IP.\<close>

record iface =
  if_FlagLoopback :: bool
  if_FlagUp :: bool
  if_Addrs :: "bytes option list option"

definition To4 :: "bytes \<Rightarrow> bytes option" where
  "To4 ip =
     (if length ip = 4 then Some ip
      else if length ip = 16 \<and> take 12 ip = replicate 10 0 @ [0xff, 0xff] then Some (drop 12 ip)
      else None)"

definition IP_IsLoopback :: "bytes \<Rightarrow> bool" where
  "IP_IsLoopback ip =
     (case To4 ip of
        Some ip4 \<Rightarrow> ip4 ! 0 = 127
      | None \<Rightarrow> ip = replicate 15 0 @ [1])"

definition IP_IsLinkLocalUnicast :: "bytes \<Rightarrow> bool" where
  "IP_IsLinkLocalUnicast ip =
     (case To4 ip of
        Some ip4 \<Rightarrow> ip4 ! 0 = 169 \<and> ip4 ! 1 = 254
      | None \<Rightarrow> length ip = 16 \<and> ip ! 0 = 0xfe \<and> (ip ! 1) AND 0xc0 = 0x80)"

section \<open>Collection\<close>

fun containedIn :: "addr \<Rightarrow> prefix list \<Rightarrow> bool" where
  "containedIn a [] = False"
| "containedIn a (p # ps) = (if prefix_Contains p a then True else containedIn a ps)"

definition embedded_candidate :: "u16 \<Rightarrow> u32 \<Rightarrow> prefix list \<Rightarrow> bytes option \<Rightarrow> candidate list" where
  "embedded_candidate port generation exclude a =
     (case a of
        None \<Rightarrow> []
      | Some ip \<Rightarrow>
          if IP_IsLoopback ip \<or> IP_IsLinkLocalUnicast ip then []
          else case AddrFromSlice ip of
            None \<Rightarrow> []
          | Some addr \<Rightarrow>
              (let addr' = Unmap addr in
               if containedIn addr' exclude then []
               else [\<lparr>cd_Kind = KindEmbedded, cd_Addr = \<lparr>ap_addr = addr', ap_port = port\<rparr>,
                      cd_Generation = generation, cd_State = StateIdle\<rparr>]))"

definition CollectEmbedded :: "iface list option \<Rightarrow> u16 \<Rightarrow> u32 \<Rightarrow> prefix list \<Rightarrow> candidate list option" where
  "CollectEmbedded interfaces port generation exclude =
     (case interfaces of
        None \<Rightarrow> None
      | Some ifaces \<Rightarrow> Some (concat (map (\<lambda>iface.
          if if_FlagLoopback iface \<or> \<not> if_FlagUp iface then []
          else case if_Addrs iface of
            None \<Rightarrow> []
          | Some addrs \<Rightarrow> concat (map (embedded_candidate port generation exclude) addrs)) ifaces)))"

section \<open>Slices and addresses\<close>

lemma containedIn_iff: "containedIn a ps \<longleftrightarrow> (\<exists>p \<in> set ps. prefix_Contains p a)"
  by (induction ps) auto

lemma be_word_bound: "bit (be_word bs) n \<Longrightarrow> n < 8 * length bs"
proof (induction bs)
  case (Cons b bs)
  then have "bit (push_bit (8 * length bs) (ucast b :: u128)) n \<or> bit (be_word bs) n"
    by (simp add: bit_or_iff)
  then show ?case
    using Cons.IH by (auto simp: bit_push_bit_iff bit_ucast_iff dest: bit_imp_le_length)
qed simp

lemma be_word_append: "be_word (xs @ ys) = push_bit (8 * length ys) (be_word xs) OR be_word ys"
  by (induction xs) (simp_all add: push_bit_or or.assoc algebra_simps)

lemma be_word_drop:
  assumes "length (xs @ ys) \<le> 16"
  shows "drop_bit (8 * length ys) (be_word (xs @ ys)) = be_word xs"
proof (rule bit_word_eqI)
  fix n
  assume "n < LENGTH(128)"
  have "bit (be_word xs) n \<Longrightarrow> 8 * length ys + n < 128"
    using be_word_bound [of xs n] assms by simp
  moreover have "\<not> bit (be_word ys) (8 * length ys + n)"
    using be_word_bound [of ys "8 * length ys + n"] by auto
  ultimately show "bit (drop_bit (8 * length ys) (be_word (xs @ ys))) n \<longleftrightarrow> bit (be_word xs) n"
    by (auto simp: be_word_append bit_simps)
qed

lemma be_word_low: "length ys = 4 \<Longrightarrow> ucast (be_word (xs @ ys)) = Uint32 ys"
proof -
  assume "length ys = 4"
  then obtain a b c d where ys: "ys = [a, b, c, d]"
    using list_of_length_4 by blast
  show ?thesis
    by (rule bit_word_eqI) (auto simp: ys be_word_append bit_simps)
qed

lemma be_word_last: "ucast (be_word (xs @ [x])) = x"
  by (rule bit_word_eqI) (auto simp: be_word_append bit_simps)

lemma be_word_inject:
  "length xs = length ys \<Longrightarrow> length xs \<le> 16 \<Longrightarrow> be_word xs = be_word ys \<longleftrightarrow> xs = ys"
proof (induction xs ys rule: rev_induct2)
  case (4 x xs y ys)
  have "be_word (xs @ [x]) = be_word (ys @ [y]) \<Longrightarrow> be_word xs = be_word ys"
    using be_word_drop [of xs "[x]"] be_word_drop [of ys "[y]"] 4 by simp
  moreover have "be_word (xs @ [x]) = be_word (ys @ [y]) \<Longrightarrow> x = y"
    by (metis be_word_last)
  ultimately show ?case
    using 4 by auto
qed auto

text \<open>The two representations agree on what is an IPv4 address, a loopback and a link-local one.\<close>

lemma Unmap_slice:
  assumes "AddrFromSlice ip = Some a"
  shows "Unmap a = (case To4 ip of Some ip4 \<Rightarrow> Addr4 (Uint32 ip4) | None \<Rightarrow> Addr6 (be_word ip) [])"
proof (cases "length ip = 16")
  case True
  define hi lo where "hi = take 12 ip" and "lo = drop 12 ip"
  have ip: "ip = hi @ lo" "length hi = 12" "length lo = 4"
    using True by (simp_all add: hi_def lo_def)
  have "be_word (replicate 10 0 @ [0xff, 0xff]) = 0xffff"
    by code_simp
  moreover have "drop_bit 32 (be_word ip) = be_word hi"
    using be_word_drop [of hi lo] ip by simp
  ultimately have "drop_bit 32 (be_word ip) = 0xffff \<longleftrightarrow> hi = replicate 10 0 @ [0xff, 0xff]"
    using be_word_inject [of hi "replicate 10 0 @ [0xff, 0xff]"] ip by simp
  moreover have "ucast (be_word ip) = Uint32 lo"
    using be_word_low [of lo hi] ip by simp
  ultimately show ?thesis
    using assms True by (auto simp: AddrFromSlice_def AddrFrom16_def To4_def hi_def lo_def)
qed (use assms in \<open>auto simp: AddrFromSlice_def AddrFrom4_def To4_def split: if_splits\<close>)

lemma Uint32_high:
  "drop_bit 24 (Uint32 [a, b, c, d]) = ucast a"
  "drop_bit 16 (Uint32 [a, b, c, d]) = push_bit 8 (ucast a) OR ucast b"
  by (rule bit_word_eqI, auto simp: bit_simps dest: bit_imp_le_length)
    (rule bit_word_eqI, auto simp: bit_simps dest: bit_imp_le_length)

lemma first_octet: "drop_bit 24 (Uint32 [a, b, c, d]) = 127 \<Longrightarrow> a = 127"
proof -
  assume h: "drop_bit 24 (Uint32 [a, b, c, d]) = 127"
  have "a = ucast (ucast a :: u32)"
    by (rule bit_word_eqI) (simp add: bit_simps)
  also have "(ucast a :: u32) = 127"
    using h Uint32_high(1) by metis
  finally show "a = 127"
    by simp
qed

lemma byte_pair:
  assumes "push_bit 8 (ucast (a :: byte)) OR (ucast (b :: byte) :: u32) = 0xa9fe"
  shows "a = 169 \<and> b = 254"
proof -
  have "a = ucast (drop_bit 8 (push_bit 8 (ucast a) OR ucast b :: u32))" "b = ucast (push_bit 8 (ucast a) OR ucast b :: u32)"
    by (rule bit_word_eqI, auto simp: bit_simps)+
  then show ?thesis
    unfolding assms by simp
qed

lemma link_local_bits:
  assumes "drop_bit 6 (be_word [x, y]) = 0x3fa"
  shows "x = 0xfe \<and> y AND 0xc0 = 0x80"
proof -
  have "x = ucast (drop_bit 2 (drop_bit 6 (be_word [x, y])))"
    by (rule bit_word_eqI) (auto simp: bit_simps)
  moreover have "y AND 0xc0 = push_bit 6 (ucast (drop_bit 6 (be_word [x, y]))) AND 0xc0"
    by (rule bit_word_eqI) (auto simp: bit_simps dest!: less_8_cases)
  ultimately show ?thesis
    unfolding assms by simp
qed

lemma IP_loopback6: "be_word ip = 1 \<Longrightarrow> length ip = 16 \<Longrightarrow> ip = replicate 15 0 @ [1]"
proof -
  assume "be_word ip = 1" "length ip = 16"
  moreover have "be_word (replicate 15 0 @ [1]) = 1"
    by code_simp
  ultimately show ?thesis
    using be_word_inject [of ip "replicate 15 0 @ [1]"] by simp
qed

lemma IP_link_local6:
  assumes "drop_bit 118 (be_word ip) = 0x3fa" "length ip = 16"
  shows "ip ! 0 = 0xfe \<and> (ip ! 1) AND 0xc0 = 0x80"
proof -
  obtain x y rest where ip: "ip = x # y # rest" "length rest = 14"
    using assms(2) by (auto simp: length_Suc_conv numeral_eq_Suc)
  have "drop_bit 112 (be_word ip) = be_word [x, y]"
    using be_word_drop [of "[x, y]" rest] ip by simp
  then have "drop_bit 6 (be_word [x, y]) = drop_bit 118 (be_word ip)"
    using drop_bit_drop_bit [of 6 112 "be_word ip"] by simp
  with assms(1) link_local_bits [of x y] show ?thesis
    by (simp add: ip)
qed

section \<open>Properties\<close>

text \<open>
  C32: what a node offers to its peers as a local address is usable by them: it is in canonical form
  (an IPv4 address is never hidden in an IPv6 one), it lies in none of the excluded prefixes, and
  it is neither a loopback (\<open>127.0.0.0/8\<close>, \<open>::1\<close>) nor a link-local address
  (\<open>169.254.0.0/16\<close>, \<open>fe80::/10\<close>), in whichever of the two slice forms the host reported it.
\<close>

theorem embedded_candidates_usable:
  assumes "CollectEmbedded interfaces port gen exclude = Some out" and "c \<in> set out"
    and "ap_addr (cd_Addr c) = a"
  shows "cd_Kind c = KindEmbedded \<and> ap_port (cd_Addr c) = port \<and> cd_Generation c = gen \<and>
    \<not> Is4In6 a \<and> \<not> hasZone a \<and> (\<forall>p \<in> set exclude. \<not> prefix_Contains p a) \<and>
    ((\<exists>b. a = Addr4 b \<and> drop_bit 24 b \<noteq> 127 \<and> drop_bit 16 b \<noteq> 0xa9fe) \<or>
     (\<exists>b. a = Addr6 b [] \<and> b \<noteq> 1 \<and> drop_bit 118 b \<noteq> 0x3fa))"
proof -
  obtain x where "c \<in> set (embedded_candidate port gen exclude x)"
    using assms(1,2) by (auto simp: CollectEmbedded_def split: option.splits if_splits)
  then obtain ip addr where ip: "\<not> IP_IsLoopback ip" "\<not> IP_IsLinkLocalUnicast ip" "AddrFromSlice ip = Some addr"
      "\<not> containedIn (Unmap addr) exclude"
    and c: "c = \<lparr>cd_Kind = KindEmbedded, cd_Addr = \<lparr>ap_addr = Unmap addr, ap_port = port\<rparr>,
      cd_Generation = gen, cd_State = StateIdle\<rparr>"
    by (auto simp: embedded_candidate_def Let_def split: option.splits if_splits)
  have "(\<exists>b. a = Addr4 b \<and> drop_bit 24 b \<noteq> 127 \<and> drop_bit 16 b \<noteq> 0xa9fe) \<or>
     (\<exists>b. a = Addr6 b [] \<and> b \<noteq> 1 \<and> drop_bit 118 b \<noteq> 0x3fa)"
  proof (cases "To4 ip")
    case (Some ip4)
    then have "length ip4 = 4"
      by (auto simp: To4_def split: if_splits)
    then obtain w x y z where ip4: "ip4 = [w, x, y, z]"
      using list_of_length_4 by blast
    have "drop_bit 24 (Uint32 ip4) \<noteq> 127" "drop_bit 16 (Uint32 ip4) \<noteq> 0xa9fe"
      using ip(1,2) Some first_octet [of w x y z] byte_pair [of w x]
      by (auto simp: IP_IsLoopback_def IP_IsLinkLocalUnicast_def ip4 Uint32_high(2) simp del: Uint32.simps)
    moreover have "a = Addr4 (Uint32 ip4)"
      using Unmap_slice [OF ip(3)] Some c assms(3) by simp
    ultimately show ?thesis
      by blast
  next
    case None
    have len: "length ip = 16"
      using ip(3) None by (auto simp: AddrFromSlice_def To4_def split: if_splits)
    have "be_word ip \<noteq> 1" "drop_bit 118 (be_word ip) \<noteq> 0x3fa"
      using ip(1,2) None IP_loopback6 [OF _ len] IP_link_local6 [OF _ len] len
      by (auto simp: IP_IsLoopback_def IP_IsLinkLocalUnicast_def)
    moreover have "a = Addr6 (be_word ip) []"
      using Unmap_slice [OF ip(3)] None c assms(3) by simp
    ultimately show ?thesis
      by blast
  qed
  moreover have "\<not> Is4In6 (Unmap addr)"
    by (cases addr) auto
  ultimately show ?thesis
    using ip(4) c assms(3) by (auto simp: containedIn_iff)
qed

definition sample_interfaces :: "iface list" where
  "sample_interfaces =
     [\<lparr>if_FlagLoopback = True, if_FlagUp = True, if_Addrs = Some [Some [127, 0, 0, 1]]\<rparr>,
      \<lparr>if_FlagLoopback = False, if_FlagUp = True,
       if_Addrs = Some [Some [192, 0, 2, 5], Some [169, 254, 0, 1], Some (replicate 10 0 @ [0xff, 0xff, 100, 100, 100, 7])]\<rparr>]"

definition sample_candidate :: candidate where
  "sample_candidate =
     \<lparr>cd_Kind = KindEmbedded, cd_Addr = \<lparr>ap_addr = AddrFrom4 [192, 0, 2, 5], ap_port = 4433\<rparr>, cd_Generation = 1,
      cd_State = StateIdle\<rparr>"

theorem embedded_candidates_usable_witness:
  "CollectEmbedded (Some sample_interfaces) 4433 1 [PrefixFrom (AddrFrom4 [100, 100, 100, 0]) 24] = Some [sample_candidate] \<and>
   \<not> Is4In6 (ap_addr (cd_Addr sample_candidate))"
proof -
  have run: "CollectEmbedded (Some sample_interfaces) 4433 1 [PrefixFrom (AddrFrom4 [100, 100, 100, 0]) 24] =
      Some [sample_candidate]"
    by code_simp
  from embedded_candidates_usable [OF run, of sample_candidate] run show ?thesis by simp
qed

end
