(* ===== verification/Tunnel.thy ===== *)
theory Tunnel
  imports Capsule H2Proxy Candidate
begin

text \<open>
  \<open>internal/h2proxy/relay_conn.go\<close> and the data path of \<open>internal/manager/manager.go\<close>: the
  tunnel connection (capsules over an inner TLS stream over a session) and the loops that move IP
  packets from a connection to the TUN device after checking their source address. The peer object
  belongs to package \<open>mion\<close>: its methods are an argument, \<open>mion_api\<close>, and the predicate
  \<open>mion_peer\<close> states what the program relies on.
\<close>

section \<open>RelayTunnelConn\<close>

record RelayTunnelConn =
  rt_conn :: EnvelopeNetConn
  rt_capsule :: capsule_conn

definition newCapsuleConn :: "reader \<Rightarrow> bytes chan option \<Rightarrow> capsule_conn" where
  "newCapsuleConn r ctrlCh = \<lparr>cc_rd = r, cc_ctrlCh = ctrlCh\<rparr>"

text \<open>\<open>stream\<close> is what the session will deliver, without and with the inner TLS removed.\<close>

definition NewRelayTunnelConn :: "EnvelopeNetConn \<Rightarrow> reader \<Rightarrow> RelayTunnelConn" where
  "NewRelayTunnelConn envConn strm = \<lparr>rt_conn = envConn, rt_capsule = newCapsuleConn strm None\<rparr>"

datatype tunnel_err = InnerHandshake

definition NewRelayTunnelConnWithMTLS ::
  "EnvelopeNetConn \<Rightarrow> reader option \<Rightarrow> tunnel_err + RelayTunnelConn" where
  "NewRelayTunnelConnWithMTLS envConn handshaked =
     (case handshaked of
        None \<Rightarrow> Inl InnerHandshake
      | Some plain \<Rightarrow> Inr \<lparr>rt_conn = envConn, rt_capsule = newCapsuleConn plain (Some (make_chan 16))\<rparr>)"

definition tunnel_ReadPacket :: "nat \<Rightarrow> RelayTunnelConn \<Rightarrow> (capsule_err + bytes) \<times> RelayTunnelConn" where
  "tunnel_ReadPacket bufLen rc =
     (case capsule_ReadPacket bufLen (rt_capsule rc) of (res, c) \<Rightarrow> (res, rc\<lparr>rt_capsule := c\<rparr>))"

text \<open>Writing is on the TLS stream, or on the session itself, whose writer is the argument.\<close>

definition tunnel_WritePacket :: "'w write_fn \<Rightarrow> 'w \<Rightarrow> bytes \<Rightarrow> capsule_err option \<times> 'w" where
  "tunnel_WritePacket wr w pkt = capsule_WritePacket wr w pkt"

definition tunnel_WriteControl :: "'w write_fn \<Rightarrow> 'w \<Rightarrow> bytes \<Rightarrow> capsule_err option \<times> 'w" where
  "tunnel_WriteControl wr w payload = capsule_WriteControl wr w payload"

datatype control_outcome = ControlMsg bytes | ControlEOF | ControlBlocks

text \<open>\<open>payload, ok := <-r.ctrlCh\<close>; a receive on a nil channel blocks for ever.\<close>

definition tunnel_ReadControl :: "RelayTunnelConn \<Rightarrow> control_outcome \<times> RelayTunnelConn" where
  "tunnel_ReadControl rc =
     (case cc_ctrlCh (rt_capsule rc) of
        None \<Rightarrow> (ControlBlocks, rc)
      | Some ch \<Rightarrow>
          (case try_recv ch of
             (Received payload, ch') \<Rightarrow>
               (ControlMsg payload, rc\<lparr>rt_capsule := (rt_capsule rc)\<lparr>cc_ctrlCh := Some ch'\<rparr>\<rparr>)
           | (RecvClosed, _) \<Rightarrow> (ControlEOF, rc)
           | (RecvBlocks, _) \<Rightarrow> (ControlBlocks, rc)))"

text \<open>\<open>Close\<close> closes the TLS connection, which closes the session.\<close>

definition tunnel_Close :: "RelayTunnelConn \<Rightarrow> InternalProxy \<Rightarrow> h2store \<Rightarrow> (InternalProxy \<times> h2store) option" where
  "tunnel_Close rc p st = conn_Close (rt_conn rc) p st"

section \<open>The mion peer\<close>

text \<open>The connection objects that the manager hands to a peer, told apart by their identity.\<close>

datatype conn_ref = RelayConn nat | DirectConn nat

record 'p mion_api =
  SetConn :: "conn_ref \<Rightarrow> 'p \<Rightarrow> 'p"
  ClearConnIf :: "conn_ref \<Rightarrow> 'p \<Rightarrow> 'p"
  UpdateLastReceive :: "'p \<Rightarrow> 'p"
  AllowedIPs :: "'p \<Rightarrow> prefix list"

text \<open>
  \<open>active\<close> is the connection that mion sends the peer's packets to: \<open>SetConn\<close> replaces it,
  \<open>ClearConnIf\<close> removes it if it is the given one, and nothing else changes it.
\<close>

definition mion_peer :: "'p mion_api \<Rightarrow> ('p \<Rightarrow> conn_ref option) \<Rightarrow> bool" where
  "mion_peer api active \<longleftrightarrow>
     (\<forall>c p. active (SetConn api c p) = Some c) \<and>
     (\<forall>c p. active (ClearConnIf api c p) = (if active p = Some c then None else active p)) \<and>
     (\<forall>p. active (UpdateLastReceive api p) = active p) \<and>
     (\<forall>c p. AllowedIPs api (SetConn api c p) = AllowedIPs api p) \<and>
     (\<forall>c p. AllowedIPs api (ClearConnIf api c p) = AllowedIPs api p) \<and>
     (\<forall>p. AllowedIPs api (UpdateLastReceive api p) = AllowedIPs api p)"

section \<open>Source address check\<close>

definition malonExtractSrcIP :: "bytes \<Rightarrow> addr" where
  "malonExtractSrcIP pkt =
     (if length pkt < 20 then AddrZero
      else if drop_bit 4 (pkt ! 0) = 4 then AddrFrom4 (go_slice 12 16 pkt)
      else if drop_bit 4 (pkt ! 0) = 6 then
        (if length pkt < 40 then AddrZero else AddrFrom16 (go_slice 8 24 pkt))
      else AddrZero)"

fun malonAllowedIPsContains :: "prefix list \<Rightarrow> addr \<Rightarrow> bool" where
  "malonAllowedIPsContains [] addr = False"
| "malonAllowedIPsContains (prefix # prefixes) addr =
     (if prefix_Contains prefix addr then True else malonAllowedIPsContains prefixes addr)"

text \<open>One packet of either loop: the bytes for the TUN device, if any, and the peer.\<close>

definition forward_packet :: "'p mion_api \<Rightarrow> bytes \<Rightarrow> 'p \<Rightarrow> bytes list \<times> 'p" where
  "forward_packet api pkt p =
     (if length pkt = 0 then ([], UpdateLastReceive api p)
      else
        (let p' = UpdateLastReceive api p;
             srcIP = malonExtractSrcIP pkt
         in if \<not> malonAllowedIPsContains (AllowedIPs api p') srcIP then ([], p')
            else ([pkt], p')))"

function forward_loop ::
  "'p mion_api \<Rightarrow> nat \<Rightarrow> conn_ref \<Rightarrow> RelayTunnelConn \<Rightarrow> 'p \<Rightarrow> bytes list \<times> 'p \<times> RelayTunnelConn" where
  "forward_loop api mtu ref rc p =
     (case tunnel_ReadPacket mtu rc of
        (Inl e, rc') \<Rightarrow> ([], ClearConnIf api ref p, rc')
      | (Inr pkt, rc') \<Rightarrow>
          (case forward_packet api pkt p of
             (out, p') \<Rightarrow>
               (case forward_loop api mtu ref rc' p' of (outs, p'', rc'') \<Rightarrow> (out @ outs, p'', rc''))))"
  by pat_completeness auto
termination
  by (relation "measure (\<lambda>(_, _, _, rc, _). length (rd_data (cc_rd (rt_capsule rc))))")
    (auto simp: tunnel_ReadPacket_def dest!: ReadPacket_bounds split: prod.splits)

declare forward_loop.simps [simp del]

text \<open>\<open>tun\<close> is the MTU of the TUN device, absent when the node runs without mion.\<close>

definition forwardConnToTUN ::
  "'p mion_api \<Rightarrow> nat option \<Rightarrow> conn_ref \<Rightarrow> RelayTunnelConn \<Rightarrow> 'p \<Rightarrow> bytes list \<times> 'p \<times> RelayTunnelConn" where
  "forwardConnToTUN api tun ref rc p =
     (case tun of None \<Rightarrow> ([], p, rc) | Some mtu \<Rightarrow> forward_loop api mtu ref rc p)"

section \<open>The loop and the packets\<close>

fun forward_all :: "'p mion_api \<Rightarrow> bytes list \<Rightarrow> 'p \<Rightarrow> bytes list \<times> 'p" where
  "forward_all api [] p = ([], p)"
| "forward_all api (pkt # pkts) p =
     (case forward_packet api pkt p of
        (out, p') \<Rightarrow> (case forward_all api pkts p' of (outs, p'') \<Rightarrow> (out @ outs, p'')))"

lemma forward_loop_drain:
  "forward_loop api mtu ref rc p =
     (case capsule_drain mtu (rt_capsule rc) of
        (pkts, e, c) \<Rightarrow>
          (case forward_all api pkts p of (outs, p') \<Rightarrow> (outs, ClearConnIf api ref p', rc\<lparr>rt_capsule := c\<rparr>)))"
proof (induction api mtu ref rc p rule: forward_loop.induct)
  case (1 api mtu ref rc p)
  show ?case
  proof (cases "capsule_ReadPacket mtu (rt_capsule rc)")
    case (Pair res c)
    then have read: "tunnel_ReadPacket mtu rc = (res, rc\<lparr>rt_capsule := c\<rparr>)"
      by (simp add: tunnel_ReadPacket_def)
    show ?thesis
    proof (cases res)
      case (Inl e)
      with Pair read show ?thesis
        by (subst forward_loop.simps, subst capsule_drain.simps) simp
    next
      case (Inr pkt)
      obtain out p' where f: "forward_packet api pkt p = (out, p')"
        by fastforce
      from "1.IH" [OF read [symmetric] Inr f [symmetric]] Pair read Inr f show ?thesis
        by (subst forward_loop.simps, subst capsule_drain.simps) (simp split: prod.splits)
    qed
  qed
qed

lemma malonAllowedIPsContains_iff:
  "malonAllowedIPsContains ps a \<longleftrightarrow> (\<exists>p \<in> set ps. prefix_Contains p a)"
  by (induction ps) auto

definition admitted :: "prefix list \<Rightarrow> bytes \<Rightarrow> bool" where
  "admitted ps pkt \<longleftrightarrow> pkt \<noteq> [] \<and> malonAllowedIPsContains ps (malonExtractSrcIP pkt)"

lemma forward_all_filter:
  assumes "mion_peer api active"
  shows "forward_all api pkts p =
    (filter (admitted (AllowedIPs api p)) pkts, ((UpdateLastReceive api) ^^ length pkts) p)"
proof (induction pkts arbitrary: p)
  case (Cons pkt pkts)
  have "AllowedIPs api (UpdateLastReceive api p) = AllowedIPs api p"
    using assms by (simp add: mion_peer_def)
  then show ?case
    using Cons.IH [of "UpdateLastReceive api p"]
    by (auto simp: forward_packet_def admitted_def Let_def funpow_swap1)
qed simp

lemma malonExtractSrcIP_zone [simp]: "\<not> hasZone (malonExtractSrcIP pkt)"
  by (simp add: malonExtractSrcIP_def AddrFrom4_def AddrFrom16_def)

lemma Contains_AddrZero [simp]: "\<not> prefix_Contains p AddrZero"
  by (simp add: prefix_Contains_def split: option.splits addr.splits)

lemma BitLen_0: "BitLen a = 0 \<longleftrightarrow> a = AddrZero"
  by (cases a) auto

section \<open>Source addresses, bit by bit\<close>

text \<open>Bit \<open>i\<close>, from the most significant one of byte \<open>off\<close> on, of a packet.\<close>

definition packet_bit :: "bytes \<Rightarrow> nat \<Rightarrow> nat \<Rightarrow> bool" where
  "packet_bit pkt off i \<longleftrightarrow> bit (pkt ! (off + i div 8)) (7 - i mod 8)"

lemma be_word_bit:
  "n < 8 * length bs \<Longrightarrow> n < 128 \<Longrightarrow> bit (be_word bs) n \<longleftrightarrow> bit (bs ! (length bs - 1 - n div 8)) (n mod 8)"
proof (induction bs)
  case (Cons b bs)
  show ?case
  proof (cases "n < 8 * length bs")
    case True
    then have "length bs - n div 8 = Suc (length bs - 1 - n div 8)"
      by (auto simp: less_mult_imp_div_less mult.commute)
    with True Cons show ?thesis by (auto simp: bit_simps)
  next
    case False
    then have len: "n div 8 = length bs"
      using Cons.prems(1) by (simp add: div_nat_eqI)
    moreover have "n - 8 * length bs = n mod 8"
      unfolding len [symmetric] by (rule minus_mult_div_eq_mod)
    moreover have "\<not> bit (be_word bs) n"
      using False be_word_bound [of bs n] by auto
    ultimately show ?thesis
      using False Cons.prems(2) by (auto simp: bit_simps)
  qed
qed simp

lemma Uint32_bit:
  assumes "length bs = 4" "n < 32"
  shows "bit (Uint32 bs) n \<longleftrightarrow> bit (bs ! (3 - n div 8)) (n mod 8)"
proof -
  have "Uint32 bs = ucast (be_word bs)"
    using be_word_low [OF assms(1), of "[]"] by simp
  then show ?thesis
    using be_word_bit [of n bs] assms by (simp add: bit_simps)
qed

text \<open>The bits of the extracted address are those of the packet.\<close>

lemma slice_bit:
  assumes "k \<le> length pkt - off" "off \<le> length pkt" "i < 8 * k"
  shows "bit (take k (drop off pkt) ! (k - 1 - (8 * k - 1 - i) div 8)) ((8 * k - 1 - i) mod 8) = packet_bit pkt off i"
proof -
  define q r where "q = i div 8" and "r = i mod 8"
  have i: "i = 8 * q + r" and r: "r < 8" and q: "q < k"
    using assms(3) by (auto simp: q_def r_def less_mult_imp_div_less mult.commute)
  have e: "8 * k - 1 - i = (7 - r) + (k - 1 - q) * 8"
    using r q by (simp add: i)
  have "(x + y * 8) div 8 = y" "(x + y * 8) mod 8 = x" if "x < 8" for x y :: nat
    using that by simp_all
  from this [of "7 - r" "k - 1 - q"]
  have "(8 * k - 1 - i) div 8 = k - 1 - i div 8" "(8 * k - 1 - i) mod 8 = 7 - i mod 8" "i div 8 < k"
    using q by (simp_all only: e q_def [symmetric] r_def [symmetric])
  then show ?thesis
    using assms by (simp add: packet_bit_def)
qed

lemma extracted_bits:
  "malonExtractSrcIP pkt = AddrZero \<and> \<not> (20 \<le> length pkt \<and> drop_bit 4 (pkt ! 0) = 4) \<and>
     \<not> (40 \<le> length pkt \<and> drop_bit 4 (pkt ! 0) = 6) \<or>
   (\<exists>a. malonExtractSrcIP pkt = Addr4 a \<and> 20 \<le> length pkt \<and> drop_bit 4 (pkt ! 0) = 4 \<and>
      (\<forall>i < 32. bit a (31 - i) = packet_bit pkt 12 i)) \<or>
   (\<exists>a. malonExtractSrcIP pkt = Addr6 a [] \<and> 40 \<le> length pkt \<and> drop_bit 4 (pkt ! 0) = 6 \<and>
      (\<forall>i < 128. bit a (127 - i) = packet_bit pkt 8 i))"
proof -
  have "bit (Uint32 (go_slice 12 16 pkt)) (31 - i) = packet_bit pkt 12 i" if "20 \<le> length pkt" "i < 32" for i
    using slice_bit [of 4 pkt 12 i] Uint32_bit [of "go_slice 12 16 pkt" "31 - i"] that by (simp add: go_slice_def)
  moreover have "bit (be_word (go_slice 8 24 pkt)) (127 - i) = packet_bit pkt 8 i" if "40 \<le> length pkt" "i < 128" for i
    using slice_bit [of 16 pkt 8 i] be_word_bit [of "127 - i" "go_slice 8 24 pkt"] that by (simp add: go_slice_def)
  ultimately show ?thesis
    by (auto simp: malonExtractSrcIP_def AddrFrom4_def AddrFrom16_def)
qed

section \<open>The control channel stays open\<close>

definition ctrl_open :: "capsule_conn \<Rightarrow> bool" where
  "ctrl_open s \<longleftrightarrow> (case cc_ctrlCh s of None \<Rightarrow> True | Some ch \<Rightarrow> \<not> chan_closed ch)"

lemma deliver_control_keeps_open:
  "deliver_control payload ch = Inr ch' \<Longrightarrow> ctrl_open (s\<lparr>cc_ctrlCh := ch\<rparr>) \<Longrightarrow> ctrl_open (s\<lparr>cc_ctrlCh := ch'\<rparr>)"
  by (auto simp: deliver_control_def ctrl_open_def try_send_def split: option.splits if_splits)

lemma ReadPacket_keeps_open:
  "capsule_ReadPacket n s = (res, s') \<Longrightarrow> ctrl_open s \<Longrightarrow> ctrl_open s'"
proof (induction n s arbitrary: res s' rule: capsule_ReadPacket.induct)
  case (1 n s)
  consider (kept) "cc_ctrlCh s' = cc_ctrlCh s"
    | (ctrl) ct r1 plen r2 p r3 ch where "readVarint (cc_rd s) = (Inr ct, r1)" "readVarint r1 = (Inr plen, r2)"
        "\<not> plen > maxCapsuleLen" "ct = capsuleTypeControl" "ReadFull (unat plen) r2 = (Inr p, r3)"
        "deliver_control p (cc_ctrlCh s) = Inr ch"
        "capsule_ReadPacket n (s\<lparr>cc_rd := r3, cc_ctrlCh := ch\<rparr>) = (res, s')"
    | (skip) ct r1 plen r2 r3 where "readVarint (cc_rd s) = (Inr ct, r1)" "readVarint r1 = (Inr plen, r2)"
        "\<not> plen > maxCapsuleLen" "ct \<noteq> capsuleTypeControl" "ct \<noteq> capsuleTypeIPPacket"
        "CopyN_Discard (unat plen) r2 = (None, r3)" "capsule_ReadPacket n (s\<lparr>cc_rd := r3\<rparr>) = (res, s')"
    using "1.prems"(1)
    by (subst (asm) capsule_ReadPacket.simps) (auto split: prod.splits sum.splits if_splits option.splits)
  then show ?case
  proof cases
    case kept
    with "1.prems"(2) show ?thesis by (simp add: ctrl_open_def)
  next
    case ctrl
    have "ctrl_open (s\<lparr>cc_rd := r3, cc_ctrlCh := ch\<rparr>)"
      using deliver_control_keeps_open [OF ctrl(6), of "s\<lparr>cc_rd := r3\<rparr>"] "1.prems"(2) by (simp add: ctrl_open_def)
    from "1.IH"(1) [OF ctrl(1) [symmetric] refl ctrl(2) [symmetric] refl ctrl(3,4) ctrl(5) [symmetric] refl ctrl(6,7) this]
    show ?thesis .
  next
    case skip
    have "ctrl_open (s\<lparr>cc_rd := r3\<rparr>)"
      using "1.prems"(2) by (simp add: ctrl_open_def)
    from "1.IH"(2) [OF skip(1) [symmetric] refl skip(2) [symmetric] refl skip(3,4,5) skip(6) [symmetric] refl skip(7) this]
    show ?thesis .
  qed
qed

lemma drain_keeps_open: "capsule_drain n s = (pkts, e, s') \<Longrightarrow> ctrl_open s \<Longrightarrow> ctrl_open s'"
proof (induction n s arbitrary: pkts rule: capsule_drain.induct)
  case (1 n s)
  obtain res s1 where read: "capsule_ReadPacket n s = (res, s1)"
    by fastforce
  show ?case
  proof (cases res)
    case (Inl e')
    with read "1.prems" ReadPacket_keeps_open [OF read] show ?thesis
      by (subst (asm) capsule_drain.simps) simp
  next
    case (Inr pkt)
    obtain pkts' where "capsule_drain n s1 = (pkts', e, s')"
      using "1.prems"(1) read Inr by (subst (asm) capsule_drain.simps) (auto split: prod.splits)
    from "1.IH" [OF read [symmetric] Inr this] show ?thesis
      using ReadPacket_keeps_open [OF read] "1.prems"(2) by simp
  qed
qed

section \<open>A peer for the examples\<close>

record sample_peer =
  sp_active :: "conn_ref option"
  sp_received :: nat
  sp_allowed :: "prefix list"

definition sample_mion :: "sample_peer mion_api" where
  "sample_mion =
     \<lparr>SetConn = (\<lambda>c p. p\<lparr>sp_active := Some c\<rparr>),
      ClearConnIf = (\<lambda>c p. if sp_active p = Some c then p\<lparr>sp_active := None\<rparr> else p),
      UpdateLastReceive = (\<lambda>p. p\<lparr>sp_received := Suc (sp_received p)\<rparr>), AllowedIPs = sp_allowed\<rparr>"

lemma sample_mion_peer [simp]: "mion_peer sample_mion sp_active"
  by (simp add: mion_peer_def sample_mion_def)

definition sample_packet :: "byte \<Rightarrow> bytes" where
  "sample_packet host = 0x45 # replicate 11 0 @ [10, 0, 0, host] @ replicate 4 0"

section \<open>Properties\<close>

text \<open>
  C29: no packet with a foreign source address enters the host. From a relay tunnel that carries
  any mix of packets, control messages and unknown capsules, the TUN device gets exactly the
  packets whose source address the peer is allowed, unmodified and in order; every packet and
  keepalive counts as a sign of life; and when the tunnel ends, the loop removes it from the peer
  if it is still the active connection, and only then.
\<close>

theorem tun_gets_admitted_packets:
  assumes "mion_peer api active" and "\<forall>c \<in> set cs. capsule_fits mtu c" and "\<not> chan_closed ch"
    and "rt_capsule rc = \<lparr>cc_rd = \<lparr>rd_data = capsule_wire cs, rd_end = e\<rparr>, cc_ctrlCh = Some ch\<rparr>"
    and "forwardConnToTUN api (Some mtu) ref rc p = (outs, p', rc')"
  shows "outs = filter (admitted (AllowedIPs api p)) (packets_of cs) \<and>
    p' = ClearConnIf api ref ((UpdateLastReceive api ^^ length (packets_of cs)) p) \<and>
    active p' = (if active p = Some ref then None else active p)"
proof -
  have keep: "active ((UpdateLastReceive api ^^ n) p) = active p" for n
    using assms(1) by (induction n) (simp_all add: mion_peer_def)
  have "capsule_drain mtu (rt_capsule rc) =
      (packets_of cs, ReadTypeVarint e, \<lparr>cc_rd = \<lparr>rd_data = [], rd_end = e\<rparr>,
        cc_ctrlCh = Some (fold chan_push (controls_of cs) ch)\<rparr>)"
    using capsule_drain_wire [OF assms(2,3), of "rt_capsule rc" "\<lparr>rd_data = [], rd_end = e\<rparr>"] assms(4) by simp
  then have "outs = filter (admitted (AllowedIPs api p)) (packets_of cs)"
    "p' = ClearConnIf api ref ((UpdateLastReceive api ^^ length (packets_of cs)) p)"
    using assms(5) by (simp_all add: forwardConnToTUN_def forward_loop_drain forward_all_filter [OF assms(1)])
  then show ?thesis
    using assms(1) keep by (simp add: mion_peer_def)
qed

theorem tun_gets_admitted_packets_witness:
  "fst (forwardConnToTUN sample_mion (Some 1500) (RelayConn 0)
     \<lparr>rt_conn = fst sample_session, rt_capsule = \<lparr>cc_rd = \<lparr>rd_data = capsule_wire [IPPacket (sample_packet 1), Control [7], IPPacket (sample_packet 2)],
        rd_end = EOF\<rparr>, cc_ctrlCh = Some (make_chan 16)\<rparr>\<rparr>
     \<lparr>sp_active = Some (RelayConn 0), sp_received = 0, sp_allowed = [PrefixFrom (AddrFrom4 [10, 0, 0, 2]) 32]\<rparr>) =
   [sample_packet 2]"
proof -
  let ?cs = "[IPPacket (sample_packet 1), Control [7], IPPacket (sample_packet 2)]"
  let ?rc = "\<lparr>rt_conn = fst sample_session, rt_capsule = \<lparr>cc_rd = \<lparr>rd_data = capsule_wire ?cs, rd_end = EOF\<rparr>,
    cc_ctrlCh = Some (make_chan 16)\<rparr>\<rparr>"
  let ?p = "\<lparr>sp_active = Some (RelayConn 0), sp_received = 0, sp_allowed = [PrefixFrom (AddrFrom4 [10, 0, 0, 2]) 32]\<rparr>"
  obtain outs p' rc' where run: "forwardConnToTUN sample_mion (Some 1500) (RelayConn 0) ?rc ?p = (outs, p', rc')"
    by (metis prod_cases3)
  have fits: "\<forall>c \<in> set ?cs. capsule_fits 1500 c"
    by (simp add: sample_packet_def)
  have "filter (admitted (AllowedIPs sample_mion ?p)) (packets_of ?cs) = [sample_packet 2]"
    by code_simp
  then show ?thesis
    using tun_gets_admitted_packets [OF sample_mion_peer fits _ _ run, of "make_chan 16" EOF] run by simp
qed

text \<open>
  C30: what the check means, bit by bit of the packet: a packet is admitted exactly when it has at
  least 20 bytes and version 4 and the bits from byte 12 on agree with the leading bits of an allowed
  IPv4 prefix, or it has at least 40 bytes and version 6 and the bits from byte 8 on agree with the
  leading bits of an allowed IPv6 prefix. Empty, truncated and other packets are never admitted.
\<close>

theorem admitted_iff_leading_bits:
  assumes "\<forall>p \<in> set ps. wf_prefix p"
  shows "admitted ps pkt \<longleftrightarrow>
    (\<exists>p \<in> set ps. \<exists>n. pf_bits p = Some n \<and>
      ((\<exists>a. pf_ip p = Addr4 a \<and> 20 \<le> length pkt \<and> drop_bit 4 (pkt ! 0) = 4 \<and>
          (\<forall>i < n. packet_bit pkt 12 i = bit a (31 - i))) \<or>
       (\<exists>a z. pf_ip p = Addr6 a z \<and> 40 \<le> length pkt \<and> drop_bit 4 (pkt ! 0) = 6 \<and>
          (\<forall>i < n. packet_bit pkt 8 i = bit a (127 - i)))))"
proof -
  have contains: "prefix_Contains p (malonExtractSrcIP pkt) \<longleftrightarrow> (\<exists>n. pf_bits p = Some n \<and>
      ((\<exists>a. pf_ip p = Addr4 a \<and> 20 \<le> length pkt \<and> drop_bit 4 (pkt ! 0) = 4 \<and>
          (\<forall>i < n. packet_bit pkt 12 i = bit a (31 - i))) \<or>
       (\<exists>a z. pf_ip p = Addr6 a z \<and> 40 \<le> length pkt \<and> drop_bit 4 (pkt ! 0) = 6 \<and>
          (\<forall>i < n. packet_bit pkt 8 i = bit a (127 - i)))))" if "p \<in> set ps" for p
  proof (cases "pf_bits p")
    case None
    then show ?thesis by (simp add: prefix_Contains_def)
  next
    case (Some n)
    then have "n \<le> BitLen (pf_ip p)"
      using assms that by (force simp: wf_prefix_def)
    from this Some show ?thesis
      using Contains_leading_bits [OF Some \<open>n \<le> BitLen (pf_ip p)\<close>, of "malonExtractSrcIP pkt"] extracted_bits [of pkt]
      by (cases "pf_ip p") auto
  qed
  have "malonExtractSrcIP [] = AddrZero"
    by (simp add: malonExtractSrcIP_def)
  then have "admitted ps pkt \<longleftrightarrow> (\<exists>p \<in> set ps. prefix_Contains p (malonExtractSrcIP pkt))"
    by (cases "pkt = []") (simp_all add: admitted_def malonAllowedIPsContains_iff)
  also have "\<dots> \<longleftrightarrow> (\<exists>p \<in> set ps. \<exists>n. pf_bits p = Some n \<and>
      ((\<exists>a. pf_ip p = Addr4 a \<and> 20 \<le> length pkt \<and> drop_bit 4 (pkt ! 0) = 4 \<and>
          (\<forall>i < n. packet_bit pkt 12 i = bit a (31 - i))) \<or>
       (\<exists>a z. pf_ip p = Addr6 a z \<and> 40 \<le> length pkt \<and> drop_bit 4 (pkt ! 0) = 6 \<and>
          (\<forall>i < n. packet_bit pkt 8 i = bit a (127 - i)))))"
    by (rule bex_cong [OF refl contains])
  finally show ?thesis .
qed

theorem admitted_iff_leading_bits_witness:
  "admitted [PrefixFrom (AddrFrom4 [10, 0, 0, 0]) 8] (sample_packet 2)"
proof -
  have "PrefixFrom (AddrFrom4 [10, 0, 0, 0]) 8 = \<lparr>pf_ip = Addr4 0x0a000000, pf_bits = Some 8\<rparr>"
    by code_simp
  moreover have "\<forall>i < 8. packet_bit (sample_packet 2) 12 i = bit (0x0a000000 :: u32) (31 - i)"
    by (auto dest!: less_8_cases simp: packet_bit_def sample_packet_def nth_append)
  moreover have "drop_bit 4 (sample_packet 2 ! 0) = 4" "20 \<le> length (sample_packet 2)"
    by (simp_all add: sample_packet_def)
  ultimately show ?thesis
    by (subst admitted_iff_leading_bits) (auto simp: wf_prefix_def)
qed

text \<open>
  The reader of the control channel is never told that its tunnel is gone: nobody closes the
  channel, so that \<open>ReadControl\<close> does not return \<open>io.EOF\<close>, however the tunnel was read and
  whatever it delivered; after the end of the tunnel it blocks.
\<close>

theorem ReadControl_never_EOF:
  assumes "NewRelayTunnelConnWithMTLS envConn (Some plain) = Inr rc"
    and "forwardConnToTUN api (Some mtu) ref rc p = (outs, p', rc')"
  shows "fst (tunnel_ReadControl rc') \<noteq> ControlEOF"
proof -
  obtain pkts e c where d: "capsule_drain mtu (rt_capsule rc) = (pkts, e, c)"
    by (metis prod_cases3)
  have "ctrl_open (rt_capsule rc)"
    using assms(1) by (auto simp: NewRelayTunnelConnWithMTLS_def newCapsuleConn_def ctrl_open_def)
  then have "ctrl_open c"
    using drain_keeps_open [OF d] by simp
  moreover have "rt_capsule rc' = c"
    using assms(2) by (auto simp: forwardConnToTUN_def forward_loop_drain d split: prod.splits)
  ultimately show ?thesis
    by (auto simp: tunnel_ReadControl_def ctrl_open_def try_recv_def split: option.splits list.splits)
qed

theorem ReadControl_never_EOF_witness:
  "\<exists>rc outs p' rc'. NewRelayTunnelConnWithMTLS (fst sample_session) (Some \<lparr>rd_data = [], rd_end = EOF\<rparr>) = Inr rc \<and>
     forwardConnToTUN sample_mion (Some 1500) (RelayConn 0) rc
       \<lparr>sp_active = None, sp_received = 0, sp_allowed = []\<rparr> = (outs, p', rc') \<and>
     fst (tunnel_ReadControl rc') \<noteq> ControlEOF"
proof -
  obtain rc where rc: "NewRelayTunnelConnWithMTLS (fst sample_session) (Some \<lparr>rd_data = [], rd_end = EOF\<rparr>) = Inr rc"
    by (simp add: NewRelayTunnelConnWithMTLS_def)
  obtain outs p' rc' where run: "forwardConnToTUN sample_mion (Some 1500) (RelayConn 0) rc
      \<lparr>sp_active = None, sp_received = 0, sp_allowed = []\<rparr> = (outs, p', rc')"
    by (metis prod_cases3)
  from ReadControl_never_EOF [OF rc run] rc run show ?thesis by blast
qed

end
