(* ===== verification/Auth.thy ===== *)
theory Auth
  imports Identity
begin

text \<open>
  \<open>internal/auth/auth.go\<close> and \<open>SelfSignedCert\<close> of \<open>internal/identity\<close>: the inner mTLS. The
  cryptographic library is a parameter (\<open>crypto_api\<close>: the public half of a key, the random serial
  number, the clock, \<open>x509.CreateCertificate\<close> and \<open>x509.ParseCertificate\<close>); the predicate
  \<open>x509_library\<close> states what the program relies on: a certificate that was created for a public
  key parses back to that key.
\<close>

section \<open>Certificates\<close>

datatype pub_key = Ed25519Key bytes | OtherKey

record cert_template =
  ct_SerialNumber :: nat
  ct_CommonName :: string
  ct_NotBefore :: int
  ct_NotAfter :: int
  ct_KeyUsage :: "string list"
  ct_ExtKeyUsage :: "string list"
  ct_BasicConstraintsValid :: bool
  ct_IsCA :: bool

record crypto_api =
  cr_Public :: "bytes \<Rightarrow> bytes"
  cr_serial :: "nat option"
  cr_now :: int
  cr_Create :: "cert_template \<Rightarrow> bytes \<Rightarrow> bytes \<Rightarrow> bytes option"
  cr_Parse :: "bytes \<Rightarrow> pub_key option"

datatype cert_err = GenerateSerial | CreateCertificate | ParseCertificate

definition ten_years :: int where
  "ten_years = 10 * 365 * 24 * 3600"

definition cert_template_of :: "crypto_api \<Rightarrow> nat \<Rightarrow> bytes \<Rightarrow> cert_template" where
  "cert_template_of cr serial pub =
     \<lparr>ct_SerialNumber = serial, ct_CommonName = PeerID_String (PeerIDFromPublicKey pub),
      ct_NotBefore = cr_now cr, ct_NotAfter = cr_now cr + ten_years,
      ct_KeyUsage = [''DigitalSignature'', ''CertSign''], ct_ExtKeyUsage = [''ClientAuth'', ''ServerAuth''],
      ct_BasicConstraintsValid = True, ct_IsCA = True\<rparr>"

definition SelfSignedCert :: "crypto_api \<Rightarrow> bytes \<Rightarrow> cert_err + (pub_key \<times> bytes)" where
  "SelfSignedCert cr priv =
     (let pub = cr_Public cr priv in
      case cr_serial cr of
        None \<Rightarrow> Inl GenerateSerial
      | Some serial \<Rightarrow>
          (case cr_Create cr (cert_template_of cr serial pub) pub priv of
             None \<Rightarrow> Inl CreateCertificate
           | Some certDER \<Rightarrow>
               (case cr_Parse cr certDER of
                  None \<Rightarrow> Inl ParseCertificate
                | Some cert \<Rightarrow> Inr (cert, certDER))))"

record tls_Certificate =
  tc_Certificate :: "bytes list"
  tc_PrivateKey :: bytes

definition selfCert :: "crypto_api \<Rightarrow> bytes \<Rightarrow> cert_err + tls_Certificate" where
  "selfCert cr priv =
     (case SelfSignedCert cr priv of
        Inl e \<Rightarrow> Inl e
      | Inr (_, certDER) \<Rightarrow> Inr \<lparr>tc_Certificate = [certDER], tc_PrivateKey = priv\<rparr>)"

section \<open>Peer verification\<close>

datatype auth_err = NoPeerCertificate | ParsePeerCertificate | NonEd25519Key | UnknownPeer peer_id

definition makePeerVerifier :: "crypto_api \<Rightarrow> peer_id set \<Rightarrow> bytes list \<Rightarrow> auth_err option" where
  "makePeerVerifier cr knownPeers rawCerts =
     (case rawCerts of
        [] \<Rightarrow> Some NoPeerCertificate
      | raw # _ \<Rightarrow>
          (case cr_Parse cr raw of
             None \<Rightarrow> Some ParsePeerCertificate
           | Some OtherKey \<Rightarrow> Some NonEd25519Key
           | Some (Ed25519Key pub) \<Rightarrow>
               (if PeerIDFromPublicKey pub \<notin> knownPeers then Some (UnknownPeer (PeerIDFromPublicKey pub))
                else None)))"

section \<open>Configurations\<close>

record tls_Config =
  cfg_Certificates :: "tls_Certificate list"
  cfg_RequireAnyClientCert :: bool
  cfg_InsecureSkipVerify :: bool
  cfg_MinVersion :: string
  cfg_NextProtos :: "string list"
  cfg_VerifyPeerCertificate :: "bytes list \<Rightarrow> auth_err option"
  cfg_CurvePreferences :: "string list"

definition alpnMalonRelay :: string where "alpnMalonRelay = ''malon-relay''"
definition alpnMalonProbe :: string where "alpnMalonProbe = ''malon-probe''"

definition NewClientTLSConfig :: "crypto_api \<Rightarrow> bytes \<Rightarrow> peer_id set \<Rightarrow> cert_err + tls_Config" where
  "NewClientTLSConfig cr selfPriv knownPeers =
     (case selfCert cr selfPriv of
        Inl e \<Rightarrow> Inl e
      | Inr cert \<Rightarrow> Inr
          \<lparr>cfg_Certificates = [cert], cfg_RequireAnyClientCert = False, cfg_InsecureSkipVerify = True,
           cfg_MinVersion = ''TLS13'', cfg_NextProtos = [alpnMalonRelay],
           cfg_VerifyPeerCertificate = makePeerVerifier cr knownPeers,
           cfg_CurvePreferences = [''X25519'', ''P256'', ''P384'']\<rparr>)"

definition NewServerTLSConfig :: "crypto_api \<Rightarrow> bytes \<Rightarrow> peer_id set \<Rightarrow> cert_err + tls_Config" where
  "NewServerTLSConfig cr selfPriv knownPeers =
     (case selfCert cr selfPriv of
        Inl e \<Rightarrow> Inl e
      | Inr cert \<Rightarrow> Inr
          \<lparr>cfg_Certificates = [cert], cfg_RequireAnyClientCert = True, cfg_InsecureSkipVerify = True,
           cfg_MinVersion = ''TLS13'', cfg_NextProtos = [alpnMalonRelay],
           cfg_VerifyPeerCertificate = makePeerVerifier cr knownPeers,
           cfg_CurvePreferences = [''X25519'', ''P256'', ''P384'']\<rparr>)"

definition NewProbeClientTLSConfig :: "crypto_api \<Rightarrow> bytes \<Rightarrow> peer_id \<Rightarrow> cert_err + tls_Config" where
  "NewProbeClientTLSConfig cr selfPriv expectedPeerID =
     (case selfCert cr selfPriv of
        Inl e \<Rightarrow> Inl e
      | Inr cert \<Rightarrow> Inr
          \<lparr>cfg_Certificates = [cert], cfg_RequireAnyClientCert = False, cfg_InsecureSkipVerify = True,
           cfg_MinVersion = ''TLS13'', cfg_NextProtos = [alpnMalonProbe],
           cfg_VerifyPeerCertificate = makePeerVerifier cr {expectedPeerID},
           cfg_CurvePreferences = [''X25519'', ''P256'', ''P384'']\<rparr>)"

definition NewDirectClientTLSConfig :: "crypto_api \<Rightarrow> bytes \<Rightarrow> peer_id \<Rightarrow> cert_err + tls_Config" where
  "NewDirectClientTLSConfig cr selfPriv expectedPeerID =
     (case selfCert cr selfPriv of
        Inl e \<Rightarrow> Inl e
      | Inr cert \<Rightarrow> Inr
          \<lparr>cfg_Certificates = [cert], cfg_RequireAnyClientCert = False, cfg_InsecureSkipVerify = True,
           cfg_MinVersion = ''TLS13'', cfg_NextProtos = [''h3''],
           cfg_VerifyPeerCertificate = makePeerVerifier cr {expectedPeerID},
           cfg_CurvePreferences = [''X25519'', ''P256'', ''P384'']\<rparr>)"

definition NewProbeServerTLSConfig :: "crypto_api \<Rightarrow> bytes \<Rightarrow> peer_id set \<Rightarrow> cert_err + tls_Config" where
  "NewProbeServerTLSConfig cr selfPriv knownPeers =
     (case selfCert cr selfPriv of
        Inl e \<Rightarrow> Inl e
      | Inr cert \<Rightarrow> Inr
          \<lparr>cfg_Certificates = [cert], cfg_RequireAnyClientCert = True, cfg_InsecureSkipVerify = True,
           cfg_MinVersion = ''TLS13'', cfg_NextProtos = [alpnMalonProbe, ''h3''],
           cfg_VerifyPeerCertificate = makePeerVerifier cr knownPeers,
           cfg_CurvePreferences = [''X25519'', ''P256'', ''P384'']\<rparr>)"

lemmas tls_config_defs = NewClientTLSConfig_def NewServerTLSConfig_def NewProbeClientTLSConfig_def
  NewDirectClientTLSConfig_def NewProbeServerTLSConfig_def

section \<open>The handshake\<close>

text \<open>
  What \<open>crypto/tls\<close> does with two configurations that skip the chain verification: it negotiates
  the first protocol of the server that the client offers, presents the certificates (the client's
  only when the server asks for it; every server configuration of the program does) and calls both
  verification callbacks.
\<close>

fun negotiateALPN :: "string list \<Rightarrow> string list \<Rightarrow> string option" where
  "negotiateALPN [] client = None"
| "negotiateALPN (s # server) client = (if s \<in> set client then Some s else negotiateALPN server client)"

definition presented :: "tls_Config \<Rightarrow> bytes list" where
  "presented cfg = (case cfg_Certificates cfg of [] \<Rightarrow> [] | cert # _ \<Rightarrow> tc_Certificate cert)"

definition handshake :: "tls_Config \<Rightarrow> tls_Config \<Rightarrow> string option" where
  "handshake client server =
     (if \<not> cfg_RequireAnyClientCert server then None
      else if cfg_VerifyPeerCertificate client (presented server) = None \<and>
        cfg_VerifyPeerCertificate server (presented client) = None
      then negotiateALPN (cfg_NextProtos server) (cfg_NextProtos client)
      else None)"

section \<open>Who is accepted\<close>

text \<open>The law that the program relies on: a certificate parses to the key it was created for.\<close>

definition x509_library :: "crypto_api \<Rightarrow> bool" where
  "x509_library cr \<longleftrightarrow>
     (\<forall>tmpl pub priv der. cr_Create cr tmpl pub priv = Some der \<longrightarrow> cr_Parse cr der = Some (Ed25519Key pub))"

definition self_id :: "crypto_api \<Rightarrow> bytes \<Rightarrow> peer_id" where
  "self_id cr priv = PeerIDFromPublicKey (cr_Public cr priv)"

lemma selfCert_parse:
  "x509_library cr \<Longrightarrow> selfCert cr priv = Inr cert \<Longrightarrow>
     \<exists>der. tc_Certificate cert = [der] \<and> cr_Parse cr der = Some (Ed25519Key (cr_Public cr priv))"
  by (auto simp: selfCert_def SelfSignedCert_def Let_def x509_library_def split: option.splits sum.splits)

lemma verifier_own_cert:
  "x509_library cr \<Longrightarrow> selfCert cr priv = Inr cert \<Longrightarrow>
     makePeerVerifier cr known (tc_Certificate cert) =
       (if self_id cr priv \<in> known then None else Some (UnknownPeer (self_id cr priv)))"
  using selfCert_parse [of cr priv cert] by (auto simp: makePeerVerifier_def self_id_def)

lemma handshake_verified:
  assumes "x509_library cr" "selfCert cr priv = Inr cert" "selfCert cr priv' = Inr cert'"
    and "cfg_Certificates c = [cert]" "cfg_Certificates s = [cert']" "cfg_RequireAnyClientCert s"
    and "cfg_VerifyPeerCertificate c = makePeerVerifier cr known"
    and "cfg_VerifyPeerCertificate s = makePeerVerifier cr known'"
  shows "handshake c s =
    (if self_id cr priv' \<in> known \<and> self_id cr priv \<in> known'
     then negotiateALPN (cfg_NextProtos s) (cfg_NextProtos c) else None)"
  using assms by (simp add: handshake_def presented_def verifier_own_cert)

text \<open>A library for the examples: the certificate is the public key itself.\<close>

definition sample_crypto :: crypto_api where
  "sample_crypto =
     \<lparr>cr_Public = (\<lambda>priv. priv), cr_serial = Some 1, cr_now = 0,
      cr_Create = (\<lambda>_ pub _. Some pub), cr_Parse = (\<lambda>der. Some (Ed25519Key der))\<rparr>"

lemma sample_crypto_facts [simp]:
  "x509_library sample_crypto" "self_id sample_crypto priv = PeerIDFromPublicKey priv"
  "selfCert sample_crypto priv = Inr \<lparr>tc_Certificate = [priv], tc_PrivateKey = priv\<rparr>"
  by (simp_all add: sample_crypto_def x509_library_def self_id_def selfCert_def SelfSignedCert_def)

section \<open>Properties\<close>

text \<open>
  The handshakes of the direct path authenticate both ends. The dialer of a direct connection
  (or of a probe) succeeds only with the holder of the key of the peer it expects, the listener
  only with a peer it knows, and the negotiated protocol tells the two kinds of connection apart;
  conversely two such nodes do connect.
\<close>

lemma direct_handshake_authenticates:
  assumes "x509_library cr" and "NewProbeServerTLSConfig cr priv' known = Inr s"
    and "NewDirectClientTLSConfig cr priv p = Inr c" and "NewProbeClientTLSConfig cr priv p = Inr c'"
  shows "(handshake c s = Some proto \<longleftrightarrow> self_id cr priv' = p \<and> self_id cr priv \<in> known \<and> proto = ''h3'') \<and>
    (handshake c' s = Some proto \<longleftrightarrow> self_id cr priv' = p \<and> self_id cr priv \<in> known \<and> proto = ''malon-probe'')"
proof -
  obtain cert cert' where certs: "selfCert cr priv = Inr cert" "selfCert cr priv' = Inr cert'"
    using assms(2,3) by (auto simp: tls_config_defs split: sum.splits)
  show ?thesis
    using assms(2-4) certs handshake_verified [OF assms(1) certs, of c s "{p}" known]
      handshake_verified [OF assms(1) certs, of c' s "{p}" known]
    by (auto simp: tls_config_defs alpnMalonProbe_def split: if_splits)
qed

text \<open>
  C31: the inner mTLS of the relay path authenticates membership only. The handshake between two
  nodes succeeds exactly when each knows the other, whichever peer either side believes to be
  talking to: a peer \<open>q\<close> passes as any other known peer.
\<close>

theorem relay_handshake_membership_only:
  assumes "x509_library cr" and "NewClientTLSConfig cr priv known = Inr c"
    and "NewServerTLSConfig cr priv' known' = Inr s"
  shows "handshake c s = Some proto \<longleftrightarrow>
    self_id cr priv' \<in> known \<and> self_id cr priv \<in> known' \<and> proto = ''malon-relay''"
proof -
  obtain cert cert' where certs: "selfCert cr priv = Inr cert" "selfCert cr priv' = Inr cert'"
    using assms(2,3) by (auto simp: tls_config_defs split: sum.splits)
  show ?thesis
    using assms(2,3) certs handshake_verified [OF assms(1) certs, of c s known known']
    by (auto simp: tls_config_defs alpnMalonRelay_def split: if_splits)
qed

theorem relay_handshake_membership_only_witness:
  "\<exists>c s. NewClientTLSConfig sample_crypto [9] {PeerIDFromPublicKey [7], PeerIDFromPublicKey [8]} = Inr c \<and>
     NewServerTLSConfig sample_crypto [8] {PeerIDFromPublicKey [9]} = Inr s \<and> handshake c s = Some ''malon-relay''"
proof -
  obtain c s where cfg: "NewClientTLSConfig sample_crypto [9] {PeerIDFromPublicKey [7], PeerIDFromPublicKey [8]} = Inr c"
    "NewServerTLSConfig sample_crypto [8] {PeerIDFromPublicKey [9]} = Inr s"
    by (simp add: tls_config_defs)
  from relay_handshake_membership_only [OF sample_crypto_facts(1) cfg, of "''malon-relay''"] cfg show ?thesis
    by simp
qed

end
