(* ===== verification/Manager.thy ===== *)
theory Manager
  imports Tunnel Auth Candidate
begin

text \<open>
  \<open>internal/manager/manager.go\<close>, sequential part: the state of the transport manager, the
  registration of peers and proxies, the critical sections of every goroutine (each holds the
  manager's lock throughout, so it is one function), and the functions that the goroutines run,
  composed of them. How goroutines interleave is the subject of the next theory. An operation that
  can panic returns an option, \<open>None\<close> for the panic. Times are in milliseconds.
\<close>

section \<open>State\<close>

text \<open>\<open>peerEntry\<close>; a relay connection is named by its position in the table of tunnels.\<close>

record 'p peerEntry =
  pe_peer :: 'p
  pe_relayURL :: string
  pe_relayConn :: "nat option"
  pe_hasDirectPath :: bool
  pe_retryingConn :: bool

text \<open>A tunnel: its session, and the identity of the certificate that the other end presented.\<close>

record tunnel =
  tn_conn :: EnvelopeNetConn
  tn_cert :: peer_id

record ValidatedTransport =
  vt_RemoteAddr :: addrport
  vt_PeerID :: peer_id
  vt_RTT :: int

text \<open>
  \<open>m_role\<close> is absent without mion; \<open>m_ctx\<close> is absent before \<open>Run\<close> and tells then whether the
  context is done; \<open>m_directLn\<close> is the port of the direct listener. The tables at the end hold the
  connection objects: the tunnels, the direct connections with the peer whose certificate was
  verified, and which of the latter are closed.
\<close>

record 'p Manager =
  m_selfID :: peer_id
  m_selfPriv :: bytes
  m_insecure :: bool
  m_stunServer :: string
  m_peers :: "peer_id \<rightharpoonup> 'p peerEntry"
  m_proxies :: "string \<rightharpoonup> InternalProxy"
  m_store :: h2store
  m_role :: "string option"
  m_ctx :: "bool option"
  m_generation :: u32
  m_validated :: "peer_id \<Rightarrow> ValidatedTransport list"
  m_probeCooldown :: "addrport \<rightharpoonup> int"
  m_directLn :: "u16 option"
  m_overlayPrefix :: prefix
  m_tunnels :: "nat \<Rightarrow> tunnel option"
  m_nextTunnel :: nat
  m_directPeer :: "nat \<Rightarrow> peer_id option"
  m_nextDirect :: nat
  m_closedDirect :: "nat list"

datatype manager_err =
    AlreadyRegistered peer_id | ManagerUnknownPeer peer_id | NoRelayURL peer_id
  | BuildTLSConfig cert_err | HandshakeFailed

section \<open>Construction and registration\<close>

definition getOrCreateProxy :: "string \<Rightarrow> 'p Manager \<Rightarrow> InternalProxy \<times> 'p Manager" where
  "getOrCreateProxy url m =
     (case m_proxies m url of
        Some p \<Rightarrow> (p, m)
      | None \<Rightarrow>
          (case NewProxy (m_selfID m) url (m_insecure m) (m_store m) of
             (p, st) \<Rightarrow> (p, m\<lparr>m_proxies := (m_proxies m)(url \<mapsto> p), m_store := st\<rparr>)))"

definition manager_New ::
  "crypto_api \<Rightarrow> bytes \<Rightarrow> string \<Rightarrow> bool \<Rightarrow> string \<Rightarrow> prefix \<Rightarrow> string option \<Rightarrow> 'p Manager" where
  "manager_New cr selfPriv interfaceRelayURL insecure stunServer overlay role =
     (let m = \<lparr>m_selfID = PeerIDFromPublicKey (cr_Public cr selfPriv), m_selfPriv = selfPriv,
               m_insecure = insecure, m_stunServer = stunServer, m_peers = Map.empty,
               m_proxies = Map.empty, m_store = fresh_store, m_role = role, m_ctx = None,
               m_generation = 1, m_validated = (\<lambda>_. []), m_probeCooldown = Map.empty,
               m_directLn = None, m_overlayPrefix = overlay, m_tunnels = (\<lambda>_. None), m_nextTunnel = 0,
               m_directPeer = (\<lambda>_. None), m_nextDirect = 0, m_closedDirect = []\<rparr>
      in if interfaceRelayURL \<noteq> [] then snd (getOrCreateProxy interfaceRelayURL m) else m)"

definition RegisterPeer :: "bytes \<Rightarrow> 'p \<Rightarrow> string \<Rightarrow> 'p Manager \<Rightarrow> manager_err + 'p Manager" where
  "RegisterPeer pub p url m =
     (let pid = PeerIDFromPublicKey pub in
      case m_peers m pid of
        Some _ \<Rightarrow> Inl (AlreadyRegistered pid)
      | None \<Rightarrow>
          (let entry = \<lparr>pe_peer = p, pe_relayURL = url, pe_relayConn = None,
                        pe_hasDirectPath = False, pe_retryingConn = False\<rparr>;
               m' = m\<lparr>m_peers := (m_peers m)(pid \<mapsto> entry)\<rparr>
           in Inr (if url \<noteq> [] then snd (getOrCreateProxy url m') else m')))"

definition knownPeerSet :: "'p Manager \<Rightarrow> peer_id set" where
  "knownPeerSet m = dom (m_peers m)"

section \<open>Entries\<close>

definition update_entry :: "peer_id \<Rightarrow> ('p peerEntry \<Rightarrow> 'p peerEntry) \<Rightarrow> 'p Manager \<Rightarrow> 'p Manager" where
  "update_entry pid f m = m\<lparr>m_peers := (m_peers m)(pid := map_option f (m_peers m pid))\<rparr>"

definition set_conn :: "'p mion_api \<Rightarrow> peer_id \<Rightarrow> conn_ref \<Rightarrow> 'p Manager \<Rightarrow> 'p Manager" where
  "set_conn api pid c m = update_entry pid (\<lambda>e. e\<lparr>pe_peer := SetConn api c (pe_peer e)\<rparr>) m"

definition clear_conn_if :: "'p mion_api \<Rightarrow> peer_id \<Rightarrow> conn_ref \<Rightarrow> 'p Manager \<Rightarrow> 'p Manager" where
  "clear_conn_if api pid c m = update_entry pid (\<lambda>e. e\<lparr>pe_peer := ClearConnIf api c (pe_peer e)\<rparr>) m"

text \<open>\<open>Close\<close> of a session and of a tunnel, on the proxy that the session belongs to.\<close>

definition close_session :: "EnvelopeNetConn \<Rightarrow> 'p Manager \<Rightarrow> 'p Manager option" where
  "close_session c m =
     (case m_proxies m (nc_proxy c) of
        None \<Rightarrow> Some m
      | Some p \<Rightarrow>
          (case conn_Close c p (m_store m) of
             None \<Rightarrow> None
           | Some (p', st) \<Rightarrow> Some (m\<lparr>m_proxies := (m_proxies m)(nc_proxy c \<mapsto> p'), m_store := st\<rparr>)))"

definition close_tunnel :: "nat option \<Rightarrow> 'p Manager \<Rightarrow> 'p Manager option" where
  "close_tunnel t m =
     (case t of
        None \<Rightarrow> Some m
      | Some t' \<Rightarrow> (case m_tunnels m t' of None \<Rightarrow> Some m | Some tn \<Rightarrow> close_session (tn_conn tn) m))"

definition close_direct :: "nat \<Rightarrow> 'p Manager \<Rightarrow> 'p Manager" where
  "close_direct d m = m\<lparr>m_closedDirect := d # m_closedDirect m\<rparr>"

section \<open>Relay sessions\<close>

text \<open>
  \<open>connectPeerWithCtx\<close> up to the handshake: the lookup, the proxy and the new session.
\<close>

definition connect_begin :: "peer_id \<Rightarrow> 'p Manager \<Rightarrow> manager_err + (EnvelopeNetConn \<times> 'p Manager)" where
  "connect_begin pid m =
     (case m_peers m pid of
        None \<Rightarrow> Inl (ManagerUnknownPeer pid)
      | Some entry \<Rightarrow>
          if pe_relayURL entry = [] then Inl (NoRelayURL pid)
          else
            (case getOrCreateProxy (pe_relayURL entry) m of
               (p, m1) \<Rightarrow>
                 (case NewSession pid p (m_store m1) of
                    (envConn, p', st) \<Rightarrow>
                      Inr (envConn, m1\<lparr>m_proxies := (m_proxies m1)(pe_relayURL entry \<mapsto> p'), m_store := st\<rparr>))))"

text \<open>
  The inner handshake with whatever certificates the other end presents (\<open>None\<close>: it does not
  complete in time). The configuration accepts every peer that the manager knows.
\<close>

definition inner_handshake ::
  "crypto_api \<Rightarrow> (crypto_api \<Rightarrow> bytes \<Rightarrow> peer_id set \<Rightarrow> cert_err + tls_Config) \<Rightarrow> bytes list option \<Rightarrow>
   'p Manager \<Rightarrow> manager_err + peer_id" where
  "inner_handshake cr newConfig remote m =
     (case newConfig cr (m_selfPriv m) (knownPeerSet m) of
        Inl e \<Rightarrow> Inl (BuildTLSConfig e)
      | Inr cfg \<Rightarrow>
          (case remote of
             None \<Rightarrow> Inl HandshakeFailed
           | Some rawCerts \<Rightarrow>
               (case cfg_VerifyPeerCertificate cfg rawCerts of
                  Some _ \<Rightarrow> Inl HandshakeFailed
                | None \<Rightarrow>
                    (case cr_Parse cr (hd rawCerts) of
                       Some (Ed25519Key pub) \<Rightarrow> Inr (PeerIDFromPublicKey pub)
                     | _ \<Rightarrow> Inl HandshakeFailed))))"

text \<open>
  The critical section after the handshake, shared by \<open>connectPeerWithCtx\<close> and
  \<open>handleIncoming\<close>: the new tunnel replaces the old one, which is returned.
\<close>

definition install_tunnel :: "peer_id \<Rightarrow> EnvelopeNetConn \<Rightarrow> peer_id \<Rightarrow> 'p Manager \<Rightarrow> nat \<times> nat option \<times> 'p Manager" where
  "install_tunnel pid envConn cert m =
     (let t = m_nextTunnel m;
          old = (case m_peers m pid of None \<Rightarrow> None | Some e \<Rightarrow> pe_relayConn e);
          m1 = m\<lparr>m_tunnels := (m_tunnels m)(t \<mapsto> \<lparr>tn_conn = envConn, tn_cert = cert\<rparr>), m_nextTunnel := Suc t\<rparr>
      in (t, old, update_entry pid (\<lambda>e. e\<lparr>pe_relayConn := Some t\<rparr>) m1))"

definition connectPeerWithCtx ::
  "'p mion_api \<Rightarrow> crypto_api \<Rightarrow> bytes list option \<Rightarrow> peer_id \<Rightarrow> 'p Manager \<Rightarrow> (manager_err option \<times> 'p Manager) option" where
  "connectPeerWithCtx api cr remote pid m =
     (case connect_begin pid m of
        Inl e \<Rightarrow> Some (Some e, m)
      | Inr (envConn, m1) \<Rightarrow>
          (case inner_handshake cr NewClientTLSConfig remote m1 of
             Inl e \<Rightarrow> map_option (\<lambda>m2. (Some e, m2)) (close_session envConn m1)
           | Inr cert \<Rightarrow>
               (case install_tunnel pid envConn cert m1 of
                  (t, old, m2) \<Rightarrow>
                    map_option (\<lambda>m3. (None, set_conn api pid (RelayConn t) m3)) (close_tunnel old m2))))"

text \<open>
  The exported \<open>ConnectPeer\<close> passes \<open>m.ctx\<close>, which is nil before \<open>Run\<close>: then \<open>context.WithTimeout\<close> panics
  once the session has been opened.
\<close>

definition ConnectPeer ::
  "'p mion_api \<Rightarrow> crypto_api \<Rightarrow> bytes list option \<Rightarrow> peer_id \<Rightarrow> 'p Manager \<Rightarrow> (manager_err option \<times> 'p Manager) option" where
  "ConnectPeer api cr remote pid m =
     (case (m_ctx m, connect_begin pid m) of
        (None, Inr _) \<Rightarrow> None
      | _ \<Rightarrow> connectPeerWithCtx api cr remote pid m)"

definition handleIncoming ::
  "'p mion_api \<Rightarrow> crypto_api \<Rightarrow> bytes list option \<Rightarrow> EnvelopeNetConn \<Rightarrow> 'p Manager \<Rightarrow> 'p Manager option" where
  "handleIncoming api cr remote envConn m =
     (case m_peers m (nc_peerID envConn) of
        None \<Rightarrow> close_session envConn m
      | Some entry \<Rightarrow>
          (case inner_handshake cr NewServerTLSConfig remote m of
             Inl e \<Rightarrow> close_session envConn m
           | Inr cert \<Rightarrow>
               (case install_tunnel (nc_peerID envConn) envConn cert m of
                  (t, old, m2) \<Rightarrow>
                    map_option (set_conn api (nc_peerID envConn) (RelayConn t)) (close_tunnel old m2))))"

section \<open>Reconnection\<close>

definition clear_relay_conns :: "string \<Rightarrow> 'p Manager \<Rightarrow> 'p Manager" where
  "clear_relay_conns url m =
     m\<lparr>m_peers := (\<lambda>pid. map_option (\<lambda>e. if pe_relayURL e = url then e\<lparr>pe_relayConn := None\<rparr> else e) (m_peers m pid))\<rparr>"

text \<open>The peers, in the order in which Go visits the map, whose retry goroutine is started.\<close>

fun start_retries :: "peer_id list \<Rightarrow> 'p Manager \<Rightarrow> peer_id list \<times> 'p Manager" where
  "start_retries [] m = ([], m)"
| "start_retries (pid # ids) m =
     (case m_peers m pid of
        None \<Rightarrow> start_retries ids m
      | Some entry \<Rightarrow>
          if pe_retryingConn entry then start_retries ids m
          else
            (case start_retries ids (update_entry pid (\<lambda>e. e\<lparr>pe_retryingConn := True\<rparr>) m) of
               (started, m') \<Rightarrow> (pid # started, m')))"

definition setupRelayPeers :: "peer_id list \<Rightarrow> string \<Rightarrow> 'p Manager \<Rightarrow> peer_id list \<times> 'p Manager" where
  "setupRelayPeers order url m =
     (let ids = filter (\<lambda>pid. case m_peers m pid of None \<Rightarrow> False | Some e \<Rightarrow> pe_relayURL e = url) order;
          m1 = clear_relay_conns url m
      in if m_role m1 \<noteq> Some ''client'' then ([], m1) else start_retries ids m1)"

text \<open>\<open>backoff\<close> after a wait: doubled unless it has reached the bound.\<close>

definition next_backoff :: "int \<Rightarrow> int \<Rightarrow> int" where
  "next_backoff maxBackoff backoff = (if backoff < maxBackoff then backoff * 2 else backoff)"

definition relay_maxBackoff :: int where "relay_maxBackoff = 30000"
definition retry_maxBackoff :: int where "retry_maxBackoff = 15000"

text \<open>After \<open>Connected\<close>: a new generation, and failed addresses may be probed again.\<close>

definition relay_connected :: "'p Manager \<Rightarrow> 'p Manager" where
  "relay_connected m = m\<lparr>m_generation := m_generation m + 1, m_probeCooldown := Map.empty\<rparr>"

datatype retry_decision = RetryStop | RetryWait | RetryConnect

text \<open>
  One turn of the loop of \<open>retryConnectPeer\<close>, up to the attempt: the look at the entry (\<open>None\<close>
  to stop, or the relay's URL), the look at the relay connection, and both.
\<close>

definition retry_look :: "peer_id \<Rightarrow> 'p Manager \<Rightarrow> string option" where
  "retry_look pid m =
     (if m_ctx m = Some True then None
      else
        (case m_peers m pid of
           None \<Rightarrow> Some []
         | Some e \<Rightarrow> if pe_hasDirectPath e \<or> pe_relayConn e \<noteq> None then None else Some (pe_relayURL e)))"

definition retry_relay :: "string \<Rightarrow> 'p Manager \<Rightarrow> bool \<times> 'p Manager" where
  "retry_relay url m =
     (if url \<noteq> [] then (case getOrCreateProxy url m of (p, m') \<Rightarrow> (IsConnected p (m_store m'), m'))
      else (True, m))"

definition retry_check :: "peer_id \<Rightarrow> 'p Manager \<Rightarrow> retry_decision \<times> 'p Manager" where
  "retry_check pid m =
     (case retry_look pid m of
        None \<Rightarrow> (RetryStop, m)
      | Some url \<Rightarrow> (case retry_relay url m of (up, m') \<Rightarrow> (if up then RetryConnect else RetryWait, m')))"

section \<open>Direct paths\<close>

definition has_direct :: "peer_id \<Rightarrow> 'p Manager \<Rightarrow> bool" where
  "has_direct pid m = (case m_peers m pid of None \<Rightarrow> False | Some e \<Rightarrow> pe_hasDirectPath e)"

definition set_direct :: "bool \<Rightarrow> peer_id \<Rightarrow> 'p Manager \<Rightarrow> 'p Manager" where
  "set_direct b pid m = update_entry pid (\<lambda>e. e\<lparr>pe_hasDirectPath := b\<rparr>) m"

text \<open>A new direct connection object, to the peer that the TLS handshake has authenticated.\<close>

definition new_direct :: "peer_id \<Rightarrow> 'p Manager \<Rightarrow> nat \<times> 'p Manager" where
  "new_direct pid m =
     (m_nextDirect m,
      m\<lparr>m_nextDirect := Suc (m_nextDirect m), m_directPeer := (m_directPeer m)(m_nextDirect m \<mapsto> pid)\<rparr>)"

text \<open>
  \<open>handleDirectConnect\<close>: an inbound connection of a known peer becomes the path even if there
  is one already.
\<close>

definition handleDirectConnect :: "'p mion_api \<Rightarrow> peer_id \<Rightarrow> nat \<Rightarrow> 'p Manager \<Rightarrow> bool \<times> 'p Manager" where
  "handleDirectConnect api pid d m =
     (case m_peers m pid of
        None \<Rightarrow> (False, close_direct d m)
      | Some _ \<Rightarrow> (True, set_conn api pid (DirectConn d) (set_direct True pid m)))"

text \<open>
  The first critical section of \<open>tryPromotePath\<close>: the field of the entry is read before the
  lookup's result is tested, which panics for an unknown peer.
\<close>

definition promote_check :: "peer_id \<Rightarrow> 'p Manager \<Rightarrow> bool option" where
  "promote_check pid m =
     (case m_peers m pid of
        None \<Rightarrow> None
      | Some entry \<Rightarrow> Some (\<not> pe_hasDirectPath entry))"

text \<open>The second one, after the dial: whether the new connection becomes the path.\<close>

definition promote_commit :: "peer_id \<Rightarrow> nat \<Rightarrow> 'p Manager \<Rightarrow> bool \<times> 'p Manager" where
  "promote_commit pid d m =
     (case m_peers m pid of
        None \<Rightarrow> (False, close_direct d m)
      | Some e \<Rightarrow>
          if pe_hasDirectPath e then (False, close_direct d m)
          else (True, set_direct True pid m))"

text \<open>\<open>direct.Dial\<close> is the argument: a connection or a failure. The result tells whether it was promoted.\<close>

definition tryPromotePath :: "'p mion_api \<Rightarrow> bool \<Rightarrow> peer_id \<Rightarrow> 'p Manager \<Rightarrow> (nat option \<times> 'p Manager) option" where
  "tryPromotePath api dialed pid m =
     (if m_directLn m = None then Some (None, m)
      else
        (case promote_check pid m of
           None \<Rightarrow> None
         | Some False \<Rightarrow> Some (None, m)
         | Some True \<Rightarrow>
             if \<not> dialed then Some (None, m)
             else
               (case new_direct pid m of
                  (d, m1) \<Rightarrow>
                    (case promote_commit pid d m1 of
                       (False, m2) \<Rightarrow> Some (None, m2)
                     | (True, m2) \<Rightarrow> Some (Some d, set_conn api pid (DirectConn d) m2)))))"

section \<open>Falling back to the relay\<close>

text \<open>The first critical section: whether this goroutine performs the fallback.\<close>

definition fallback_begin :: "peer_id \<Rightarrow> 'p Manager \<Rightarrow> bool \<times> 'p Manager" where
  "fallback_begin pid m =
     (case m_peers m pid of
        None \<Rightarrow> (False, m)
      | Some entry \<Rightarrow>
          if \<not> pe_hasDirectPath entry then (False, m) else (True, set_direct False pid m))"

text \<open>Proxy role: the stored relay connection, if any, becomes the path again.\<close>

definition fallback_proxy :: "'p mion_api \<Rightarrow> peer_id \<Rightarrow> 'p Manager \<Rightarrow> 'p Manager" where
  "fallback_proxy api pid m =
     (case m_peers m pid of
        None \<Rightarrow> m
      | Some entry \<Rightarrow>
          (case pe_relayConn entry of None \<Rightarrow> m | Some t \<Rightarrow> set_conn api pid (RelayConn t) m))"

text \<open>Client role: the stored relay connection is taken out, to be closed.\<close>

definition fallback_take :: "peer_id \<Rightarrow> 'p Manager \<Rightarrow> nat option \<times> 'p Manager" where
  "fallback_take pid m =
     (case m_peers m pid of
        None \<Rightarrow> (None, m)
      | Some e \<Rightarrow> (pe_relayConn e, update_entry pid (\<lambda>e. e\<lparr>pe_relayConn := None\<rparr>) m))"

text \<open>Whether a retry goroutine has to be started; it is started also for an unknown peer.\<close>

definition fallback_retry :: "peer_id \<Rightarrow> 'p Manager \<Rightarrow> bool \<times> 'p Manager" where
  "fallback_retry pid m =
     (case m_peers m pid of
        None \<Rightarrow> (True, m)
      | Some entry \<Rightarrow>
          if pe_retryingConn entry then (False, m)
          else (True, update_entry pid (\<lambda>e. e\<lparr>pe_retryingConn := True\<rparr>) m))"

text \<open>\<open>m.mion.Role()\<close> is called without a test for nil.\<close>

definition fallbackToRelay :: "'p mion_api \<Rightarrow> peer_id \<Rightarrow> 'p Manager \<Rightarrow> (bool \<times> 'p Manager) option" where
  "fallbackToRelay api pid m =
     (case fallback_begin pid m of
        (False, m1) \<Rightarrow> Some (False, m1)
      | (True, m1) \<Rightarrow>
          (case m_role m1 of
             None \<Rightarrow> None
           | Some role \<Rightarrow>
               if role \<noteq> ''client'' then Some (False, fallback_proxy api pid m1)
               else
                 (case fallback_take pid m1 of
                    (old, m2) \<Rightarrow> map_option (fallback_retry pid) (close_tunnel old m2))))"

text \<open>
  \<open>forwardDirectConnToTUN\<close>: the packets that the direct connection delivers before it fails go
  through the same check as those of a relay tunnel; its end triggers the fallback.
\<close>

definition forward_packets :: "'p mion_api \<Rightarrow> peer_id \<Rightarrow> bytes list \<Rightarrow> 'p Manager \<Rightarrow> bytes list \<times> 'p Manager" where
  "forward_packets api pid pkts m =
     (case m_peers m pid of
        None \<Rightarrow> ([], m)
      | Some e \<Rightarrow>
          (case forward_all api pkts (pe_peer e) of
             (outs, p') \<Rightarrow> (outs, update_entry pid (\<lambda>e. e\<lparr>pe_peer := p'\<rparr>) m)))"

definition forwardDirectConnToTUN ::
  "'p mion_api \<Rightarrow> peer_id \<Rightarrow> nat \<Rightarrow> bytes list \<Rightarrow> 'p Manager \<Rightarrow> (bytes list \<times> bool \<times> 'p Manager) option" where
  "forwardDirectConnToTUN api pid d pkts m =
     (if m_role m = None then Some ([], False, m)
      else
        (case forward_packets api pid pkts m of
           (outs, m1) \<Rightarrow>
             map_option (\<lambda>(started, m2). (outs, started, m2))
               (fallbackToRelay api pid (clear_conn_if api pid (DirectConn d) m1))))"

section \<open>Candidates\<close>

text \<open>\<open>control.Message\<close>; the codec, an argument here, is that of theory \<open>Control\<close>.\<close>

record CandidateInfo =
  ci_Kind :: string
  ci_Addr :: string

record control_Message =
  msg_Type :: string
  msg_Generation :: u32
  msg_Candidates :: "CandidateInfo list"

definition MsgTypeCandidates :: string where "MsgTypeCandidates = ''candidates''"

text \<open>\<open>handleControl\<close>: the peer and the candidates to validate, if the message is of that type.\<close>

definition handleControl ::
  "(bytes \<Rightarrow> control_Message option) \<Rightarrow> ControlMessage \<Rightarrow> (peer_id \<times> control_Message) option" where
  "handleControl decode msg =
     (case decode (cm_Payload msg) of
        None \<Rightarrow> None
      | Some ctrlMsg \<Rightarrow>
          if msg_Type ctrlMsg = MsgTypeCandidates then Some (cm_SrcPeerID msg, ctrlMsg) else None)"

text \<open>The body of the loop of \<open>validateCandidates\<close>: the address to probe, if any.\<close>

definition validate_candidate :: "int \<Rightarrow> peer_id \<Rightarrow> CandidateInfo \<Rightarrow> 'p Manager \<Rightarrow> addrport option" where
  "validate_candidate now pid ci m =
     (case ParseAddrPort (ci_Addr ci) of
        None \<Rightarrow> None
      | Some addr \<Rightarrow>
          if m_directLn m \<noteq> None \<and> Is6 (ap_addr addr) then None
          else if (case m_probeCooldown m addr of None \<Rightarrow> False | Some until \<Rightarrow> now < until) then None
          else if has_direct pid m then None
          else Some addr)"

definition validateCandidates :: "int \<Rightarrow> peer_id \<Rightarrow> control_Message \<Rightarrow> 'p Manager \<Rightarrow> addrport list" where
  "validateCandidates now pid msg m =
     (if m_ctx m = None then []
      else concat (map (\<lambda>ci. case validate_candidate now pid ci m of None \<Rightarrow> [] | Some a \<Rightarrow> [a]) (msg_Candidates msg)))"

definition probeCooldownDur :: int where "probeCooldownDur = 30000"

definition probe_failed :: "int \<Rightarrow> addrport \<Rightarrow> 'p Manager \<Rightarrow> 'p Manager" where
  "probe_failed now addr m = m\<lparr>m_probeCooldown := (m_probeCooldown m)(addr \<mapsto> now + probeCooldownDur)\<rparr>"

definition probe_succeeded :: "peer_id \<Rightarrow> addrport \<Rightarrow> ValidatedTransport \<Rightarrow> 'p Manager \<Rightarrow> 'p Manager" where
  "probe_succeeded pid addr result m =
     m\<lparr>m_probeCooldown := (m_probeCooldown m)(addr := None),
       m_validated := (m_validated m)(pid := m_validated m pid @ [result])\<rparr>"

text \<open>
  \<open>sendCandidates\<close>: the message for the peer. The host's interfaces and the STUN query (the
  server's address to what it observed, \<open>None\<close> for a failure) are arguments.
\<close>

definition defaultSTUNServer :: string where "defaultSTUNServer = ''stun4.l.google.com:3478''"

definition stun_candidates :: "(string \<Rightarrow> addrport option) \<Rightarrow> 'p Manager \<Rightarrow> candidate list" where
  "stun_candidates query m =
     (case query (if m_stunServer m = [] then defaultSTUNServer else m_stunServer m) of
        None \<Rightarrow> []
      | Some a \<Rightarrow> [\<lparr>cd_Kind = KindStuned, cd_Addr = a, cd_Generation = m_generation m, cd_State = StateIdle\<rparr>])"

definition embedded_candidates :: "iface list option \<Rightarrow> 'p Manager \<Rightarrow> candidate list" where
  "embedded_candidates interfaces m =
     (case m_directLn m of
        None \<Rightarrow> []
      | Some port \<Rightarrow>
          (case CollectEmbedded interfaces port (m_generation m)
              (if prefix_IsValid (m_overlayPrefix m) then [m_overlayPrefix m] else []) of
             None \<Rightarrow> []
           | Some cs \<Rightarrow> cs))"

definition candidate_info :: "candidate \<Rightarrow> CandidateInfo" where
  "candidate_info c = \<lparr>ci_Kind = Kind_String (cd_Kind c), ci_Addr = AddrPort_String (cd_Addr c)\<rparr>"

definition sendCandidates ::
  "iface list option \<Rightarrow> (string \<Rightarrow> addrport option) \<Rightarrow> 'p Manager \<Rightarrow> control_Message option" where
  "sendCandidates interfaces query m =
     (if m_role m = None then None
      else
        (let all = embedded_candidates interfaces m @ stun_candidates query m
         in if all = [] then None
            else Some \<lparr>msg_Type = MsgTypeCandidates, msg_Generation = m_generation m,
                       msg_Candidates = map candidate_info all\<rparr>))"

section \<open>Frames\<close>

lemma update_entry_peers [simp]: "m_peers (update_entry pid f m) = (m_peers m)(pid := map_option f (m_peers m pid))"
  by (simp add: update_entry_def)

lemma update_entry_other [simp]:
  "m_proxies (update_entry pid f m) = m_proxies m" "m_store (update_entry pid f m) = m_store m"
  "m_role (update_entry pid f m) = m_role m" "m_ctx (update_entry pid f m) = m_ctx m"
  "m_tunnels (update_entry pid f m) = m_tunnels m" "m_nextTunnel (update_entry pid f m) = m_nextTunnel m"
  "m_nextDirect (update_entry pid f m) = m_nextDirect m" "m_directLn (update_entry pid f m) = m_directLn m"
  "m_selfID (update_entry pid f m) = m_selfID m" "m_closedDirect (update_entry pid f m) = m_closedDirect m"
  "m_selfPriv (update_entry pid f m) = m_selfPriv m" "m_insecure (update_entry pid f m) = m_insecure m"
  "m_directPeer (update_entry pid f m) = m_directPeer m"
  by (simp_all add: update_entry_def)

lemma dom_update_entry [simp]: "dom (m_peers (update_entry pid f m)) = dom (m_peers m)"
  by (auto simp: map_option_case split: option.splits)

lemma getOrCreateProxy_frame:
  "getOrCreateProxy url m = (p, m') \<Longrightarrow>
     m_peers m' = m_peers m \<and> m_tunnels m' = m_tunnels m \<and> m_nextTunnel m' = m_nextTunnel m \<and>
     m_role m' = m_role m \<and> m_ctx m' = m_ctx m \<and> m_selfPriv m' = m_selfPriv m \<and> m_selfID m' = m_selfID m \<and>
     m_proxies m' url = Some p \<and> (\<forall>u. u \<noteq> url \<longrightarrow> m_proxies m' u = m_proxies m u) \<and>
     (\<forall>q. m_proxies m url = Some q \<longrightarrow> q = p \<and> m' = m)"
  by (auto simp: getOrCreateProxy_def split: option.splits prod.splits)

lemma close_session_frame:
  "close_session c m = Some m' \<Longrightarrow>
     m_peers m' = m_peers m \<and> m_tunnels m' = m_tunnels m \<and> m_nextTunnel m' = m_nextTunnel m \<and>
     m_role m' = m_role m \<and> m_ctx m' = m_ctx m \<and> m_selfPriv m' = m_selfPriv m \<and>
     m_directLn m' = m_directLn m \<and> m_nextDirect m' = m_nextDirect m"
  by (auto simp: close_session_def split: option.splits prod.splits)

lemma close_tunnel_frame:
  "close_tunnel t m = Some m' \<Longrightarrow>
     m_peers m' = m_peers m \<and> m_tunnels m' = m_tunnels m \<and> m_nextTunnel m' = m_nextTunnel m \<and>
     m_role m' = m_role m \<and> m_ctx m' = m_ctx m \<and> m_selfPriv m' = m_selfPriv m \<and>
     m_directLn m' = m_directLn m \<and> m_nextDirect m' = m_nextDirect m"
  by (auto simp: close_tunnel_def split: option.splits dest: close_session_frame)

section \<open>The pool of proxies\<close>

text \<open>
  Every proxy of the pool keeps its invariant in the shared store, and no two proxies share a
  session channel.
\<close>

definition pool_ok :: "(string \<rightharpoonup> InternalProxy) \<Rightarrow> h2store \<Rightarrow> bool" where
  "pool_ok ps st \<longleftrightarrow>
     store_ok st \<and> (\<forall>url p. ps url = Some p \<longrightarrow> sessions_ok p st \<and> relayURL p = url) \<and>
     (\<forall>url p url' p' sid sid' s s'. ps url = Some p \<longrightarrow> ps url' = Some p' \<longrightarrow> url \<noteq> url' \<longrightarrow>
        sessions p sid = Some s \<longrightarrow> sessions p' sid' = Some s' \<longrightarrow> se_ch s \<noteq> se_ch s')"

text \<open>
  What an operation of one proxy may do to the store: use its own channels and new ones, and leave
  the others open or closed as they were.
\<close>

definition own_channels :: "InternalProxy \<Rightarrow> h2store \<Rightarrow> InternalProxy \<Rightarrow> h2store \<Rightarrow> bool" where
  "own_channels p st p' st' \<longleftrightarrow>
     ch_next st \<le> ch_next st' \<and> relayURL p' = relayURL p \<and>
     (\<forall>sid s. sessions p' sid = Some s \<longrightarrow>
        (\<exists>sid0 s0. sessions p sid0 = Some s0 \<and> se_ch s0 = se_ch s) \<or> ch_next st \<le> se_ch s) \<and>
     (\<forall>ch < ch_next st. (\<forall>sid s. sessions p sid = Some s \<longrightarrow> se_ch s \<noteq> ch) \<longrightarrow>
        chan_closed (ch_data st' ch) = chan_closed (ch_data st ch))"

lemma sessions_ok_range: "sessions_ok q st \<Longrightarrow> sessions q sid = Some s \<Longrightarrow> se_ch s < ch_next st"
  by (auto simp: sessions_ok_def)

lemma pool_ok_other:
  assumes pool: "pool_ok ps st" and p: "ps url = Some p" and own: "own_channels p st p' st'"
    and q: "ps u = Some q" "u \<noteq> url"
  shows "sessions_ok q st'"
proof -
  have ok: "sessions_ok q st" and sep: "\<And>sid sid' s s'. sessions p sid = Some s \<Longrightarrow> sessions q sid' = Some s' \<Longrightarrow> se_ch s \<noteq> se_ch s'"
    using pool p q unfolding pool_ok_def by blast+
  have "chan_closed (ch_data st' (se_ch s)) = chan_closed (ch_data st (se_ch s))" if "sessions q sid = Some s" for sid s
    using own that sep sessions_ok_range [OF ok that] unfolding own_channels_def by blast
  moreover have "ch_next st \<le> ch_next st'"
    using own by (simp add: own_channels_def)
  ultimately show ?thesis
    using ok unfolding sessions_ok_def by fastforce
qed

lemma pool_ok_update:
  assumes pool: "pool_ok ps st" and p: "ps url = Some p" and inv: "h2_inv p' st'"
    and own: "own_channels p st p' st'"
  shows "pool_ok (ps(url \<mapsto> p')) st'"
proof -
  have sep: "se_ch s \<noteq> se_ch s'" if "sessions p' sid = Some s" "ps u = Some q" "u \<noteq> url" "sessions q sid' = Some s'"
    for sid s u q sid' s'
  proof -
    have "sessions_ok q st"
      using pool that(2) by (auto simp: pool_ok_def)
    from sessions_ok_range [OF this that(4)] have "se_ch s' < ch_next st" .
    moreover have "(\<exists>sid0 s0. sessions p sid0 = Some s0 \<and> se_ch s0 = se_ch s) \<or> ch_next st \<le> se_ch s"
      using own that(1) unfolding own_channels_def by blast
    moreover have "se_ch s0 \<noteq> se_ch s'" if "sessions p sid0 = Some s0" for sid0 s0
      using pool p that \<open>ps u = Some q\<close> \<open>u \<noteq> url\<close> \<open>sessions q sid' = Some s'\<close> unfolding pool_ok_def by blast
    ultimately show ?thesis
      by fastforce
  qed
  have old: "\<And>u q. ps u = Some q \<Longrightarrow> relayURL q = u" "relayURL p' = url"
    using pool p own by (auto simp: pool_ok_def own_channels_def)
  have cross: "\<And>u q u' q' sid sid' s s'. ps u = Some q \<Longrightarrow> ps u' = Some q' \<Longrightarrow> u \<noteq> u' \<Longrightarrow>
      sessions q sid = Some s \<Longrightarrow> sessions q' sid' = Some s' \<Longrightarrow> se_ch s \<noteq> se_ch s'"
    using pool unfolding pool_ok_def by blast
  show ?thesis
    unfolding pool_ok_def
    using inv old sep pool_ok_other [OF pool p own]
    by (auto simp: h2_inv_def split: if_splits dest: cross) (metis)+
qed

lemma pool_ok_inv: "pool_ok ps st \<Longrightarrow> ps url = Some p \<Longrightarrow> h2_inv p st"
  by (auto simp: pool_ok_def h2_inv_def)

lemma own_channelsI:
  assumes "ch_next st \<le> ch_next st'" "relayURL p' = relayURL p"
    and "\<And>sid s. sessions p' sid = Some s \<Longrightarrow> se_ch s < ch_next st \<Longrightarrow> sessions p sid = Some s"
    and "\<And>ch. ch < ch_next st \<Longrightarrow> (\<And>sid s. sessions p sid = Some s \<Longrightarrow> se_ch s \<noteq> ch) \<Longrightarrow>
      chan_closed (ch_data st' ch) = chan_closed (ch_data st ch)"
  shows "own_channels p st p' st'"
  unfolding own_channels_def
proof (intro conjI allI impI)
  fix sid s
  assume "sessions p' sid = Some s"
  then show "(\<exists>sid0 s0. sessions p sid0 = Some s0 \<and> se_ch s0 = se_ch s) \<or> ch_next st \<le> se_ch s"
    using assms(3) [of sid s] by (cases "se_ch s < ch_next st") auto
qed (use assms in auto)

lemma own_NewSession: "NewSession q p st = (c, p', st') \<Longrightarrow> own_channels p st p' st'"
  by (rule own_channelsI) (auto simp: NewSession_def new_data_chan_def Let_def split: if_splits)

lemma removeSession_frame:
  "sessions_ok p st \<Longrightarrow> removeSession sid p st = Some (p', st') \<Longrightarrow>
     ch_next st' = ch_next st \<and> relayURL p' = relayURL p \<and> sessions p' = (sessions p)(sid := None) \<and>
     (\<forall>ch. (\<forall>s. sessions p sid = Some s \<longrightarrow> se_ch s \<noteq> ch) \<longrightarrow> ch_data st' ch = ch_data st ch)"
  by (auto simp: removeSession_eq close_ref_def split: option.splits)

lemma own_removeSession:
  assumes "h2_inv p st" "removeSession sid p st = Some (p', st')"
  shows "own_channels p st p' st'"
proof -
  have "sessions_ok p st"
    using assms(1) by (simp add: h2_inv_def)
  from removeSession_frame [OF this assms(2)] show ?thesis
    by (intro own_channelsI) (auto split: if_splits)
qed

lemma own_closeAll:
  assumes "h2_inv p st" "set order = dom (sessions p)" "closeAllSessions order p st = Some (p', st')"
  shows "own_channels p st p' st'"
proof -
  have "p' = p\<lparr>sessions := sessions p |` (- dom (sessions p))\<rparr>"
    "st' = close_refs (session_refs p (dom (sessions p))) st"
    using assms(3) closeAllSessions_eq [OF assms(1), of order] by (simp_all add: assms(2))
  moreover have "ch \<notin> session_refs p (dom (sessions p))" if "\<And>sid s. sessions p sid = Some s \<Longrightarrow> se_ch s \<noteq> ch" for ch
    using that by (auto simp: session_refs_def)
  ultimately show ?thesis
    by (intro own_channelsI) (auto simp: close_refs_def restrict_map_def split: if_splits)
qed

text \<open>A move of the goroutine of \<open>Connect\<close> touches only the channels of its own proxy.\<close>

lemma own_dispatch_lookup:
  assumes "dispatch_lookup env p st = (pc, p', st')"
  shows "own_channels p st p' st'"
proof (cases "sessions p (EnvSessionID env)")
  case None
  with assms show ?thesis
    by (intro own_channelsI)
      (auto simp: dispatch_lookup_new incoming_proxy_def incoming_store_def safeSend_eq new_data_chan_def split: if_splits)
next
  case (Some s)
  with assms show ?thesis
    by (intro own_channelsI) (auto simp: dispatch_lookup_known)
qed

lemma own_connect_next:
  assumes "h2_inv p st" "connect_next i pc p st = ConnMoves pc' p' st'"
  shows "own_channels p st p' st'"
proof (cases pc)
  case ConnReading
  then show ?thesis
  proof (cases "\<exists>env. i = Arrives env \<and> StreamType env = StreamTypeData")
    case True
    with ConnReading assms(2) show ?thesis
      by (auto split: prod.splits intro: own_dispatch_lookup)
  next
    case False
    with ConnReading assms(2) show ?thesis
      by (intro own_channelsI)
        (auto simp: conn_moves_iff dispatchControl_def split: connect_in.splits if_splits prod.splits send_outcome.splits)
  qed
next
  case (ConnOffer conn)
  with assms(2) show ?thesis
    by (intro own_channelsI)
      (auto simp: dispatch_offer_def split: if_splits option.splits prod.splits send_outcome.splits)
next
  case (ConnTakeBack sid)
  with assms show ?thesis
    by (auto simp: conn_moves_iff split: if_splits intro: own_removeSession)
next
  case ConnLeaving
  with assms show ?thesis
    by (auto simp: conn_moves_iff split: connect_in.splits if_splits intro: own_closeAll)
qed (use assms(2) in \<open>auto intro!: own_channelsI simp: conn_moves_iff connect_announce_def safeSend_eq
    split: connect_in.splits sum.splits if_splits\<close>)

lemma pool_ok_NewProxy:
  assumes "pool_ok ps st" "ps url = None" "NewProxy self url insecure st = (p, st')"
  shows "pool_ok (ps(url \<mapsto> p)) st'"
  using assms unfolding pool_ok_def NewProxy_def new_signal_def
  by (auto simp: store_ok_def sessions_ok_def split: if_splits)

text \<open>Steps of the manager on the pool.\<close>

lemma pool_getOrCreate:
  assumes "pool_ok (m_proxies m) (m_store m)" "getOrCreateProxy url m = (p, m')"
  shows "pool_ok (m_proxies m') (m_store m') \<and> m_proxies m' url = Some p"
  using assms pool_ok_NewProxy
  by (auto simp: getOrCreateProxy_def split: option.splits prod.splits)

lemma pool_connect_begin:
  assumes "pool_ok (m_proxies m) (m_store m)" "connect_begin pid m = Inr (c, m')"
  shows "pool_ok (m_proxies m') (m_store m')"
proof -
  obtain e where e: "m_peers m pid = Some e"
    using assms(2) by (auto simp: connect_begin_def split: option.splits)
  obtain p m1 where g: "getOrCreateProxy (pe_relayURL e) m = (p, m1)"
    by fastforce
  have pool1: "pool_ok (m_proxies m1) (m_store m1)" "m_proxies m1 (pe_relayURL e) = Some p"
    using pool_getOrCreate [OF assms(1) g] by simp_all
  obtain p' st where n: "NewSession pid p (m_store m1) = (c, p', st)"
    and m': "m' = m1\<lparr>m_proxies := (m_proxies m1)(pe_relayURL e \<mapsto> p'), m_store := st\<rparr>"
    using assms(2) e g by (auto simp: connect_begin_def split: if_splits prod.splits)
  have "h2_inv p' st"
    using NewSession_inv [OF pool_ok_inv [OF pool1] n] .
  from pool_ok_update [OF pool1 this own_NewSession [OF n]] show ?thesis
    by (simp add: m')
qed

lemma close_session_pool:
  assumes "pool_ok (m_proxies m) (m_store m)"
  shows "\<exists>m'. close_session c m = Some m' \<and> pool_ok (m_proxies m') (m_store m')"
proof (cases "m_proxies m (nc_proxy c)")
  case None
  with assms show ?thesis by (simp add: close_session_def)
next
  case (Some p)
  have inv: "h2_inv p (m_store m)"
    using pool_ok_inv [OF assms Some] .
  obtain p' st' where r: "removeSession (nc_sessionID c) p (m_store m) = Some (p', st')" "h2_inv p' st'"
    using removeSession_inv [OF inv] by blast
  from pool_ok_update [OF assms Some r(2) own_removeSession [OF inv r(1)]] Some r(1) show ?thesis
    by (simp add: close_session_def conn_Close_def)
qed

lemma close_tunnel_pool:
  assumes "pool_ok (m_proxies m) (m_store m)"
  shows "\<exists>m'. close_tunnel t m = Some m' \<and> pool_ok (m_proxies m') (m_store m')"
  using assms close_session_pool [OF assms] by (auto simp: close_tunnel_def split: option.splits)

section \<open>Handshakes and tunnels\<close>

lemma inner_handshake_known:
  assumes "inner_handshake cr newConfig remote m = Inr cert"
    and "\<And>cfg. newConfig cr (m_selfPriv m) (knownPeerSet m) = Inr cfg \<Longrightarrow>
      cfg_VerifyPeerCertificate cfg = makePeerVerifier cr (knownPeerSet m)"
  shows "cert \<in> knownPeerSet m"
proof -
  obtain cfg rawCerts pub where "newConfig cr (m_selfPriv m) (knownPeerSet m) = Inr cfg"
    "cfg_VerifyPeerCertificate cfg rawCerts = None" "cr_Parse cr (hd rawCerts) = Some (Ed25519Key pub)"
    "cert = PeerIDFromPublicKey pub"
    using assms(1)
    by (auto simp: inner_handshake_def split: sum.splits option.splits pub_key.splits)
  then show ?thesis
    using assms(2) by (auto simp: makePeerVerifier_def split: list.splits option.splits pub_key.splits if_splits)
qed

lemma relay_configs_verify:
  "NewClientTLSConfig cr priv known = Inr cfg \<Longrightarrow> cfg_VerifyPeerCertificate cfg = makePeerVerifier cr known"
  "NewServerTLSConfig cr priv known = Inr cfg' \<Longrightarrow> cfg_VerifyPeerCertificate cfg' = makePeerVerifier cr known"
  by (auto simp: tls_config_defs split: sum.splits)

lemma client_handshake_known: "inner_handshake cr NewClientTLSConfig remote m = Inr cert \<Longrightarrow> cert \<in> knownPeerSet m"
  by (erule inner_handshake_known) (erule relay_configs_verify)

lemma server_handshake_known: "inner_handshake cr NewServerTLSConfig remote m = Inr cert \<Longrightarrow> cert \<in> knownPeerSet m"
  by (erule inner_handshake_known) (erule relay_configs_verify)

lemma connect_begin_frame:
  assumes "connect_begin pid m = Inr (c, m')"
  shows "m_peers m' = m_peers m" "m_tunnels m' = m_tunnels m" "m_nextTunnel m' = m_nextTunnel m"
    "nc_peerID c = pid" "\<exists>e p. m_peers m pid = Some e \<and> m_proxies m' (pe_relayURL e) = Some p \<and> nc_sessionID c = nextSID p \<and>
      nc_proxy c = relayURL p"
  using assms
  by (auto simp: connect_begin_def NewSession_def Let_def split: option.splits if_splits prod.splits
      dest: getOrCreateProxy_frame)

text \<open>A session of proxy \<open>p\<close> that has been closed: it is gone from the map, and its channel is closed.\<close>

definition session_closed :: "EnvelopeNetConn \<Rightarrow> InternalProxy \<Rightarrow> 'p Manager \<Rightarrow> bool" where
  "session_closed c p m' \<longleftrightarrow>
     (\<exists>p'. m_proxies m' (nc_proxy c) = Some p' \<and> sessions p' (nc_sessionID c) = None) \<and>
     (\<forall>s. sessions p (nc_sessionID c) = Some s \<longrightarrow> chan_closed (ch_data (m_store m') (se_ch s)))"

lemma session_closed_update: "session_closed c p (update_entry pid f m) = session_closed c p m"
  by (simp add: session_closed_def)

lemma close_tunnel_closes:
  assumes "pool_ok (m_proxies m) (m_store m)" "close_tunnel (Some t) m = Some m'"
    and "m_tunnels m t = Some tn" "m_proxies m (nc_proxy (tn_conn tn)) = Some p"
  shows "session_closed (tn_conn tn) p m'"
proof -
  have "sessions_ok p (m_store m)"
    using pool_ok_inv [OF assms(1,4)] by (simp add: h2_inv_def)
  from removeSession_eq [OF this] assms(2-4) show ?thesis
    by (auto simp: close_tunnel_def close_session_def conn_Close_def session_closed_def close_ref_def)
qed

text \<open>The session of a failed attempt is removed again.\<close>

definition session_gone :: "peer_id \<Rightarrow> 'p Manager \<Rightarrow> bool" where
  "session_gone pid m \<longleftrightarrow>
     (\<exists>e p. m_peers m pid = Some e \<and> m_proxies m (pe_relayURL e) = Some p \<and> sessions p (nextSID p) = None)"

lemma failed_session_gone:
  assumes "connect_begin pid m = Inr (c, m1)" "pool_ok (m_proxies m1) (m_store m1)" "close_session c m1 = Some m2"
  shows "session_gone pid m2"
proof -
  obtain e p where e: "m_peers m pid = Some e" "m_proxies m1 (pe_relayURL e) = Some p"
    "nc_sessionID c = nextSID p" "nc_proxy c = relayURL p"
    using connect_begin_frame(5) [OF assms(1)] by blast
  have "relayURL p = pe_relayURL e"
    using assms(2) e(2) by (auto simp: pool_ok_def)
  then show ?thesis
    using assms(3) e close_session_frame [OF assms(3)] connect_begin_frame(1) [OF assms(1)]
    by (auto simp: session_gone_def close_session_def conn_Close_def removeSession_def split: option.splits prod.splits
        Option.bind_splits)
qed

lemma set_conn_peers:
  "m_peers (set_conn api pid c m) = (m_peers m)(pid := map_option (\<lambda>e. e\<lparr>pe_peer := SetConn api c (pe_peer e)\<rparr>) (m_peers m pid))"
  by (simp add: set_conn_def)

lemma connectPeer_outcome:
  assumes "pool_ok (m_proxies m) (m_store m)"
  shows "\<exists>err m'. connectPeerWithCtx api cr remote pid m = Some (err, m') \<and> pool_ok (m_proxies m') (m_store m') \<and>
    (case err of
       Some _ \<Rightarrow> m_peers m' = m_peers m \<and> m_tunnels m' = m_tunnels m \<and> (m' = m \<or> session_gone pid m')
     | None \<Rightarrow> \<exists>e c cert. m_peers m pid = Some e \<and> nc_peerID c = pid \<and> cert \<in> knownPeerSet m \<and>
         m_peers m' = (m_peers m)(pid \<mapsto> e\<lparr>pe_relayConn := Some (m_nextTunnel m),
           pe_peer := SetConn api (RelayConn (m_nextTunnel m)) (pe_peer e)\<rparr>) \<and>
         m_tunnels m' = (m_tunnels m)(m_nextTunnel m \<mapsto> \<lparr>tn_conn = c, tn_cert = cert\<rparr>))"
proof (cases "connect_begin pid m")
  case (Inl e)
  then show ?thesis
    using assms by (auto simp: connectPeerWithCtx_def)
next
  case (Inr cm)
  obtain c m1 where b: "connect_begin pid m = Inr (c, m1)"
    using Inr by (cases cm) simp
  have pool1: "pool_ok (m_proxies m1) (m_store m1)"
    using pool_connect_begin [OF assms b] .
  show ?thesis
  proof (cases "inner_handshake cr NewClientTLSConfig remote m1")
    case (Inl e)
    obtain m2 where m2: "close_session c m1 = Some m2" "pool_ok (m_proxies m2) (m_store m2)"
      using close_session_pool [OF pool1] by blast
    then show ?thesis
      using b Inl close_session_frame [OF m2(1)] connect_begin_frame [OF b] failed_session_gone [OF b pool1 m2(1)]
      by (simp add: connectPeerWithCtx_def)
  next
    case (Inr cert)
    have known: "cert \<in> knownPeerSet m"
      using client_handshake_known [OF Inr] connect_begin_frame(1) [OF b] by (simp add: knownPeerSet_def)
    obtain t old m2 where inst: "install_tunnel pid c cert m1 = (t, old, m2)"
      by (metis prod_cases3)
    have pool2: "pool_ok (m_proxies m2) (m_store m2)"
      using inst pool1 by (auto simp: install_tunnel_def Let_def)
    obtain m3 where m3: "close_tunnel old m2 = Some m3" "pool_ok (m_proxies m3) (m_store m3)"
      using close_tunnel_pool [OF pool2] by blast
    obtain e where e: "m_peers m pid = Some e"
      using connect_begin_frame(5) [OF b] by blast
    have "connectPeerWithCtx api cr remote pid m = Some (None, set_conn api pid (RelayConn t) m3)"
      using b Inr inst m3(1) by (simp add: connectPeerWithCtx_def)
    moreover have "t = m_nextTunnel m" "m_tunnels m3 = (m_tunnels m)(t \<mapsto> \<lparr>tn_conn = c, tn_cert = cert\<rparr>)"
      "m_peers m3 = (m_peers m)(pid \<mapsto> e\<lparr>pe_relayConn := Some t\<rparr>)"
      using inst close_tunnel_frame [OF m3(1)] connect_begin_frame [OF b] e
      by (auto simp: install_tunnel_def Let_def)
    ultimately show ?thesis
      using m3(2) known e connect_begin_frame(4) [OF b] by (auto simp: set_conn_def)
  qed
qed

section \<open>Backoff\<close>

fun backoff_after :: "int \<Rightarrow> nat \<Rightarrow> int" where
  "backoff_after maxBackoff 0 = 1000"
| "backoff_after maxBackoff (Suc n) = next_backoff maxBackoff (backoff_after maxBackoff n)"

lemma backoff_closed:
  assumes "1000 * 2 ^ k < M" "M \<le> 1000 * 2 ^ Suc k"
  shows "backoff_after M n = 1000 * 2 ^ min n (Suc k)"
proof (induction n)
  case (Suc n)
  show ?case
  proof (cases "n \<le> k")
    case True
    then have "(2 :: int) ^ n \<le> 2 ^ k"
      by (intro power_increasing) auto
    then have "1000 * 2 ^ n < M"
      using assms(1) by linarith
    with True Suc assms show ?thesis
      by (simp add: next_backoff_def min_def)
  next
    case False
    then have "min n (Suc k) = Suc k" "min (Suc n) (Suc k) = Suc k"
      by simp_all
    with Suc assms show ?thesis
      by (simp only: backoff_after.simps next_backoff_def) simp
  qed
qed simp

lemma concat_if_filter: "concat (map (\<lambda>x. if P x then [f x] else []) xs) = map f (filter P xs)"
  by (induction xs) auto

section \<open>Building a manager\<close>

lemma pool_ok_empty: "pool_ok Map.empty fresh_store"
  by (simp add: pool_ok_def store_ok_def fresh_store_def)

lemma pool_New: "pool_ok (m_proxies (manager_New cr priv url insecure stun overlay role))
    (m_store (manager_New cr priv url insecure stun overlay role))"
  using pool_ok_NewProxy [OF pool_ok_empty]
  by (auto simp: manager_New_def Let_def getOrCreateProxy_def pool_ok_empty split: prod.splits)

lemma pool_RegisterPeer:
  assumes "pool_ok (m_proxies m) (m_store m)" "RegisterPeer pub p url m = Inr m'"
  shows "pool_ok (m_proxies m') (m_store m')"
proof -
  obtain f where m': "m' = (if url \<noteq> [] then snd (getOrCreateProxy url (m\<lparr>m_peers := f\<rparr>)) else m\<lparr>m_peers := f\<rparr>)"
    using assms(2) by (auto simp: RegisterPeer_def Let_def split: option.splits if_splits)
  have pool: "pool_ok (m_proxies (m\<lparr>m_peers := f\<rparr>)) (m_store (m\<lparr>m_peers := f\<rparr>))"
    using assms(1) by simp
  obtain q m1 where g: "getOrCreateProxy url (m\<lparr>m_peers := f\<rparr>) = (q, m1)"
    by fastforce
  from pool_getOrCreate [OF pool g] pool show ?thesis
    by (simp add: m' g)
qed

definition sample_peer_entry :: sample_peer where
  "sample_peer_entry = \<lparr>sp_active = None, sp_received = 0, sp_allowed = []\<rparr>"

definition sample_manager :: "sample_peer Manager" where
  "sample_manager =
     (case RegisterPeer [7] sample_peer_entry ''https://relay''
        (manager_New sample_crypto [9] [] False [] \<lparr>pf_ip = AddrZero, pf_bits = None\<rparr> (Some ''client'')) of
        Inr m \<Rightarrow> m)"

lemma sample_manager_eq:
  "RegisterPeer [7] sample_peer_entry ''https://relay''
     (manager_New sample_crypto [9] [] False [] \<lparr>pf_ip = AddrZero, pf_bits = None\<rparr> (Some ''client'')) = Inr sample_manager"
  by (simp add: sample_manager_def RegisterPeer_def manager_New_def Let_def)

lemma sample_manager_sel [simp]:
  "m_peers sample_manager = [PeerIDFromPublicKey [7] \<mapsto> \<lparr>pe_peer = sample_peer_entry, pe_relayURL = ''https://relay'',
     pe_relayConn = None, pe_hasDirectPath = False, pe_retryingConn = False\<rparr>]"
  "m_nextTunnel sample_manager = 0" "m_role sample_manager = Some ''client''" "m_selfPriv sample_manager = [9]"
  "m_probeCooldown sample_manager = Map.empty" "m_directLn sample_manager = None"
  by (simp_all add: sample_manager_def RegisterPeer_def manager_New_def Let_def getOrCreateProxy_def NewProxy_def new_signal_def)

lemma sample_manager_pool: "pool_ok (m_proxies sample_manager) (m_store sample_manager)"
  by (rule pool_RegisterPeer [OF pool_New sample_manager_eq])

section \<open>Properties\<close>

text \<open>
  C28: an attempt to open a relay session to a peer never panics and is all or nothing. If it
  succeeds, the peer's relay connection is a new tunnel, it is the active path, and the other end
  has proved to be a known peer; if it fails, no entry and no tunnel has changed and the session
  that was opened for the attempt is gone. Other peers are not touched either way.
\<close>

theorem connectPeer_all_or_nothing:
  assumes "pool_ok (m_proxies m) (m_store m)" and "mion_peer api active"
  shows "\<exists>err m'. connectPeerWithCtx api cr remote pid m = Some (err, m') \<and> pool_ok (m_proxies m') (m_store m') \<and>
    (\<forall>q. q \<noteq> pid \<longrightarrow> m_peers m' q = m_peers m q) \<and>
    (case err of
       None \<Rightarrow> \<exists>e tn. m_peers m' pid = Some e \<and> pe_relayConn e = Some (m_nextTunnel m) \<and>
         active (pe_peer e) = Some (RelayConn (m_nextTunnel m)) \<and>
         m_tunnels m' (m_nextTunnel m) = Some tn \<and> tn_cert tn \<in> knownPeerSet m \<and> nc_peerID (tn_conn tn) = pid
     | Some _ \<Rightarrow> m_peers m' = m_peers m \<and> m_tunnels m' = m_tunnels m \<and> (m' = m \<or> session_gone pid m'))"
proof -
  obtain err m' where run: "connectPeerWithCtx api cr remote pid m = Some (err, m')" "pool_ok (m_proxies m') (m_store m')"
    and post: "case err of
       Some _ \<Rightarrow> m_peers m' = m_peers m \<and> m_tunnels m' = m_tunnels m \<and> (m' = m \<or> session_gone pid m')
     | None \<Rightarrow> \<exists>e c cert. m_peers m pid = Some e \<and> nc_peerID c = pid \<and> cert \<in> knownPeerSet m \<and>
         m_peers m' = (m_peers m)(pid \<mapsto> e\<lparr>pe_relayConn := Some (m_nextTunnel m),
           pe_peer := SetConn api (RelayConn (m_nextTunnel m)) (pe_peer e)\<rparr>) \<and>
         m_tunnels m' = (m_tunnels m)(m_nextTunnel m \<mapsto> \<lparr>tn_conn = c, tn_cert = cert\<rparr>)"
    using connectPeer_outcome [OF assms(1), of api cr remote pid] by blast
  have act: "active (SetConn api c p) = Some c" for c p
    using assms(2) by (simp add: mion_peer_def)
  show ?thesis
    using run post by (cases err) (auto simp: act)
qed

theorem connectPeer_all_or_nothing_witness:
  "\<exists>m' e. connectPeerWithCtx sample_mion sample_crypto (Some [[7]]) (PeerIDFromPublicKey [7]) sample_manager = Some (None, m') \<and>
     m_peers m' (PeerIDFromPublicKey [7]) = Some e \<and> sp_active (pe_peer e) = Some (RelayConn 0)"
proof -
  let ?p = "PeerIDFromPublicKey [7]"
  obtain err m' where run: "connectPeerWithCtx sample_mion sample_crypto (Some [[7]]) ?p sample_manager = Some (err, m')"
    and post: "case err of None \<Rightarrow> \<exists>e tn. m_peers m' ?p = Some e \<and> pe_relayConn e = Some (m_nextTunnel sample_manager) \<and>
        sp_active (pe_peer e) = Some (RelayConn (m_nextTunnel sample_manager)) \<and>
        m_tunnels m' (m_nextTunnel sample_manager) = Some tn \<and> tn_cert tn \<in> knownPeerSet sample_manager \<and>
        nc_peerID (tn_conn tn) = ?p
      | Some _ \<Rightarrow> m_peers m' = m_peers sample_manager \<and> m_tunnels m' = m_tunnels sample_manager \<and>
          (m' = sample_manager \<or> session_gone ?p m')"
    using connectPeer_all_or_nothing [OF sample_manager_pool sample_mion_peer, of sample_crypto "Some [[7]]" ?p] by blast
  obtain c m1 where b: "connect_begin ?p sample_manager = Inr (c, m1)"
    by (cases "connect_begin ?p sample_manager") (auto simp: connect_begin_def split: prod.splits)
  have "m_peers m1 = m_peers sample_manager"
    using connect_begin_frame(1) [OF b] .
  then have "inner_handshake sample_crypto NewClientTLSConfig (Some [[7]]) m1 = Inr ?p"
    by (simp add: inner_handshake_def NewClientTLSConfig_def makePeerVerifier_def knownPeerSet_def)
      (simp add: sample_crypto_def)
  then have "err = None"
    using run b by (auto simp: connectPeerWithCtx_def split: prod.splits)
  with run post show ?thesis by auto
qed

text \<open>
  C15: the fallback from a direct path, case by case. For an unknown peer or one that is not marked
  as direct nothing changes. Otherwise the mark is cleared, other peers are not touched, and: a proxy
  keeps its relay connection and makes it the active path again if there is one; a client takes the
  relay connection out of the entry and closes its session (the session is gone from its proxy and
  its channel is closed), leaves the entry marked as being retried, and starts a retry goroutine
  exactly when none was running. The function panics only without a role.
\<close>

theorem fallback_cases:
  assumes "pool_ok (m_proxies m) (m_store m)" and "mion_peer api active"
  shows "(\<not> has_direct pid m \<longrightarrow> fallbackToRelay api pid m = Some (False, m)) \<and>
    (has_direct pid m \<longrightarrow> m_role m = None \<longrightarrow> fallbackToRelay api pid m = None) \<and>
    (\<forall>e. m_peers m pid = Some e \<longrightarrow> pe_hasDirectPath e \<longrightarrow> m_role m \<noteq> None \<longrightarrow>
      (\<exists>start m' e'. fallbackToRelay api pid m = Some (start, m') \<and> (\<forall>q. q \<noteq> pid \<longrightarrow> m_peers m' q = m_peers m q) \<and>
         m_peers m' pid = Some e' \<and> \<not> pe_hasDirectPath e' \<and>
         (if m_role m = Some ''client'' then
            (start \<longleftrightarrow> \<not> pe_retryingConn e) \<and> pe_retryingConn e' \<and> pe_relayConn e' = None \<and> pe_peer e' = pe_peer e \<and>
            (\<forall>t tn p. pe_relayConn e = Some t \<longrightarrow> m_tunnels m t = Some tn \<longrightarrow> m_proxies m (nc_proxy (tn_conn tn)) = Some p \<longrightarrow>
               session_closed (tn_conn tn) p m')
          else
            \<not> start \<and> pe_retryingConn e' = pe_retryingConn e \<and> pe_relayConn e' = pe_relayConn e \<and>
            active (pe_peer e') = (case pe_relayConn e of None \<Rightarrow> active (pe_peer e) | Some t \<Rightarrow> Some (RelayConn t)))))"
proof (intro conjI allI impI)
  show "fallbackToRelay api pid m = Some (False, m)" if "\<not> has_direct pid m"
    using that by (auto simp: fallbackToRelay_def fallback_begin_def has_direct_def split: option.splits)
  show "fallbackToRelay api pid m = None" if "has_direct pid m" "m_role m = None"
    using that by (auto simp: fallbackToRelay_def fallback_begin_def has_direct_def set_direct_def split: option.splits)
  fix e
  assume e: "m_peers m pid = Some e" "pe_hasDirectPath e" and "m_role m \<noteq> None"
  then obtain role where role: "m_role m = Some role"
    by blast
  have act: "active (SetConn api c p) = Some c" for c p
    using assms(2) by (simp add: mion_peer_def)
  let ?m1 = "set_direct False pid m"
  have begin_eq: "fallback_begin pid m = (True, ?m1)"
    using e by (simp add: fallback_begin_def)
  show "\<exists>start m' e'. fallbackToRelay api pid m = Some (start, m') \<and> (\<forall>q. q \<noteq> pid \<longrightarrow> m_peers m' q = m_peers m q) \<and>
      m_peers m' pid = Some e' \<and> \<not> pe_hasDirectPath e' \<and>
      (if m_role m = Some ''client'' then
         (start \<longleftrightarrow> \<not> pe_retryingConn e) \<and> pe_retryingConn e' \<and> pe_relayConn e' = None \<and> pe_peer e' = pe_peer e \<and>
         (\<forall>t tn p. pe_relayConn e = Some t \<longrightarrow> m_tunnels m t = Some tn \<longrightarrow> m_proxies m (nc_proxy (tn_conn tn)) = Some p \<longrightarrow>
            session_closed (tn_conn tn) p m')
       else
         \<not> start \<and> pe_retryingConn e' = pe_retryingConn e \<and> pe_relayConn e' = pe_relayConn e \<and>
         active (pe_peer e') = (case pe_relayConn e of None \<Rightarrow> active (pe_peer e) | Some t \<Rightarrow> Some (RelayConn t)))"
  proof (cases "role = ''client''")
    case False
    then show ?thesis
      using e role begin_eq act
      by (auto simp: fallbackToRelay_def fallback_proxy_def set_direct_def set_conn_def split: option.splits)
  next
    case True
    let ?m2 = "update_entry pid (\<lambda>e. e\<lparr>pe_relayConn := None\<rparr>) ?m1"
    have take: "fallback_take pid ?m1 = (pe_relayConn e, ?m2)"
      using e by (simp add: fallback_take_def set_direct_def)
    have pool: "pool_ok (m_proxies ?m2) (m_store ?m2)"
      using assms(1) by (simp add: set_direct_def)
    obtain m3 where m3: "close_tunnel (pe_relayConn e) ?m2 = Some m3"
      using close_tunnel_pool [OF pool] by blast
    have gone: "session_closed (tn_conn tn) p m3"
      if "pe_relayConn e = Some t" "m_tunnels m t = Some tn" "m_proxies m (nc_proxy (tn_conn tn)) = Some p" for t tn p
      using close_tunnel_closes [OF pool, of t m3 tn p] m3 that by (simp add: set_direct_def)
    have peers: "m_peers m3 = (m_peers m)(pid \<mapsto> e\<lparr>pe_hasDirectPath := False, pe_relayConn := None\<rparr>)"
      using close_tunnel_frame [OF m3] e by (simp add: set_direct_def)
    have run: "fallbackToRelay api pid m = Some (fallback_retry pid m3)"
      using True role begin_eq take m3 by (simp add: fallbackToRelay_def set_direct_def)
    show ?thesis
      using run peers gone True role
      by (cases "pe_retryingConn e") (auto simp: fallback_retry_def session_closed_update)
  qed
qed

theorem fallback_cases_witness:
  "\<exists>start m' e'. fallbackToRelay sample_mion (PeerIDFromPublicKey [7]) (set_direct True (PeerIDFromPublicKey [7]) sample_manager) =
      Some (start, m') \<and> start \<and> m_peers m' (PeerIDFromPublicKey [7]) = Some e' \<and> \<not> pe_hasDirectPath e' \<and> pe_retryingConn e'"
proof -
  let ?m = "set_direct True (PeerIDFromPublicKey [7]) sample_manager"
  have pool: "pool_ok (m_proxies ?m) (m_store ?m)"
    using sample_manager_pool by (simp add: set_direct_def)
  from fallback_cases [OF pool sample_mion_peer, of "PeerIDFromPublicKey [7]"] show ?thesis
    by (auto simp: set_direct_def)
qed

text \<open>
  What a node offers, its peer probes: the IPv4 addresses among it, if the peer has a direct
  listener, no direct path yet and no address in cooldown.
\<close>

lemma candidates_exchanged:
  assumes "sendCandidates interfaces query mA = Some msg"
    and "m_ctx mB \<noteq> None" and "m_directLn mB \<noteq> None" and "m_probeCooldown mB = Map.empty"
    and "\<not> has_direct pid mB"
  shows "validateCandidates now pid msg mB =
    filter (\<lambda>a. Is4 (ap_addr a)) (map cd_Addr (embedded_candidates interfaces mA @ stun_candidates query mA))"
proof -
  have one: "(case validate_candidate now pid (candidate_info c) mB of None \<Rightarrow> [] | Some a \<Rightarrow> [a]) =
      (if Is4 (ap_addr (cd_Addr c)) then [cd_Addr c] else [])" for c
  proof (cases "Is4 (ap_addr (cd_Addr c))")
    case True
    then have "\<not> Is6 (ap_addr (cd_Addr c))"
      by (cases "ap_addr (cd_Addr c)") auto
    with True assms(3-5) AddrPort_text [of "cd_Addr c"] show ?thesis
      by (simp add: validate_candidate_def candidate_info_def)
  next
    case False
    with assms(3) AddrPort_text [of "cd_Addr c"] show ?thesis
      by (auto simp: validate_candidate_def candidate_info_def split: option.splits)
  qed
  have "msg_Candidates msg = map candidate_info (embedded_candidates interfaces mA @ stun_candidates query mA)"
    using assms(1) by (auto simp: sendCandidates_def Let_def split: if_splits)
  then have "validateCandidates now pid msg mB =
      concat (map (\<lambda>c. if Is4 (ap_addr (cd_Addr c)) then [cd_Addr c] else [])
        (embedded_candidates interfaces mA @ stun_candidates query mA))"
    using assms(2) by (auto simp: validateCandidates_def one comp_def)
  also have "\<dots> = filter (\<lambda>a. Is4 (ap_addr a)) (map cd_Addr (embedded_candidates interfaces mA @ stun_candidates query mA))"
    by (simp add: concat_if_filter filter_map comp_def)
  finally show ?thesis .
qed

text \<open>
  The waits between reconnection attempts double from one second and stop growing, but only
  after they have passed the configured bound: the relay loop ends at 32 s (bound 30 s), the retry
  loop at 16 s (bound 15 s).
\<close>

theorem backoff_sequences:
  "backoff_after relay_maxBackoff n = 1000 * 2 ^ min n 5 \<and> backoff_after retry_maxBackoff n = 1000 * 2 ^ min n 4 \<and>
   relay_maxBackoff < backoff_after relay_maxBackoff 5 \<and> retry_maxBackoff < backoff_after retry_maxBackoff 4"
  using backoff_closed [of 4 relay_maxBackoff] backoff_closed [of 3 retry_maxBackoff]
  by (simp add: relay_maxBackoff_def retry_maxBackoff_def)

end
