(* ===== verification/Stun.thy ===== *)
theory Stun
  imports GoText Manager
begin

text \<open>
  \<open>internal/stun/stun.go\<close>: the external address of the node, asked from a STUN server over the shared
  QUIC socket or over a socket of its own. The resolver, the sockets, the clock and the STUN client
  of \<open>pion\<close> are arguments; what the program does with their answers is here. A socket is a value of
  the type \<open>'s\<close>, an address of the network one of \<open>'u\<close>: what a server sees depends on both, since a
  NAT maps the pairs of them. Times are in nanoseconds.
\<close>

section \<open>The shared socket as a connection\<close>

record ('s, 'u) transportConn =
  tc_tr :: 's
  tc_remoteAddr :: 'u
  tc_ctxDeadline :: "int option"
  tc_deadline :: "int option"

text \<open>\<open>context.WithDeadline\<close>: the earlier of the two deadlines.\<close>

fun WithDeadline :: "int option \<Rightarrow> int \<Rightarrow> int option" where
  "WithDeadline None d = Some d"
| "WithDeadline (Some c) d = Some (min c d)"

definition transportConn_Read :: "('s \<Rightarrow> int option \<Rightarrow> nat \<Rightarrow> 'r) \<Rightarrow> nat \<Rightarrow> ('s, 'u) transportConn \<Rightarrow> 'r" where
  "transportConn_Read readNonQUICPacket len c =
     readNonQUICPacket (tc_tr c)
       (case tc_deadline c of None \<Rightarrow> tc_ctxDeadline c | Some d \<Rightarrow> WithDeadline (tc_ctxDeadline c) d) len"

definition transportConn_Write :: "('s \<Rightarrow> bytes \<Rightarrow> 'u \<Rightarrow> 'r) \<Rightarrow> bytes \<Rightarrow> ('s, 'u) transportConn \<Rightarrow> 'r" where
  "transportConn_Write writeTo b c = writeTo (tc_tr c) b (tc_remoteAddr c)"

definition transportConn_SetDeadline :: "int option \<Rightarrow> ('s, 'u) transportConn \<Rightarrow> ('s, 'u) transportConn" where
  "transportConn_SetDeadline t c = c\<lparr>tc_deadline := t\<rparr>"

definition transportConn_SetReadDeadline :: "int option \<Rightarrow> ('s, 'u) transportConn \<Rightarrow> ('s, 'u) transportConn" where
  "transportConn_SetReadDeadline t c = c\<lparr>tc_deadline := t\<rparr>"

definition transportConn_SetWriteDeadline :: "int option \<Rightarrow> ('s, 'u) transportConn \<Rightarrow> ('s, 'u) transportConn" where
  "transportConn_SetWriteDeadline t c = c"

text \<open>A read never waits longer than the context allows.\<close>

lemma read_within_context:
  "tc_ctxDeadline c = Some d \<Longrightarrow> \<exists>e \<le> d. transportConn_Read (\<lambda>_ t _. t) n c = Some e"
  by (cases "tc_deadline c") (auto simp: transportConn_Read_def)

section \<open>The connections of a client\<close>

text \<open>The \<open>net.Conn\<close> that a STUN client is made of: the shared transport, or a UDP socket of its own.\<close>

datatype ('s, 'u) stun_conn = OverTransport "('s, 'u) transportConn" | OverUDP 's 'u

fun local_socket :: "('s, 'u) stun_conn \<Rightarrow> 's" where
  "local_socket (OverTransport c) = tc_tr c"
| "local_socket (OverUDP sock _) = sock"

fun remote_addr :: "('s, 'u) stun_conn \<Rightarrow> 'u" where
  "remote_addr (OverTransport c) = tc_remoteAddr c"
| "remote_addr (OverUDP _ u) = u"

text \<open>\<open>Close\<close>, with the sockets that are open: the shared transport is left to its owner.\<close>

fun stun_conn_Close :: "('s, 'u) stun_conn \<Rightarrow> 's set \<Rightarrow> 's set" where
  "stun_conn_Close (OverTransport _) opn = opn"
| "stun_conn_Close (OverUDP sock _) opn = opn - {sock}"

record xor_addr =
  xa_IP :: bytes
  xa_Port :: int

text \<open>The event that the client passes to the callback: an error, or a message with or without the attribute.\<close>

datatype stun_event = EventError | EventMessage "xor_addr option"

text \<open>\<open>c.Do\<close>: an error, or the event it called the callback with.\<close>

datatype do_result = DoFails | DoCalls "stun_event option"

datatype stun_err =
    InvalidServer addr_err | LookupFailed | NoIPv4Address | ResolveFailed | DialFailed | NewClientFailed
  | DoFailed | BindingRequestFailed | NoXORMappedAddress | InvalidIP | ContextDone

text \<open>
  What the queries meet: the IPv4 addresses of a name, \<open>net.ResolveUDPAddr\<close> and \<open>net.Dial\<close> for
  \<open>udp4\<close> (with the socket it opens), whether a client can be made of a connection, its \<open>Do\<close> with the
  retransmission timeout, the time, and whether the final \<open>select\<close> takes the arm of the context.
\<close>

record ('s, 'u) stun_env =
  se_LookupNetIP :: "string \<Rightarrow> addr list option"
  se_ResolveUDPAddr :: "string \<Rightarrow> 'u option"
  se_Dial :: "string \<Rightarrow> ('s \<times> 'u) option"
  se_NewClient :: "('s, 'u) stun_conn \<Rightarrow> bool"
  se_Do :: "('s, 'u) stun_conn \<Rightarrow> int \<Rightarrow> do_result"
  se_now :: int
  se_ctxDone :: bool

section \<open>The query over the shared socket\<close>

definition transport_rto :: "int option \<Rightarrow> int \<Rightarrow> int" where
  "transport_rto ctx now =
     (case ctx of
        None \<Rightarrow> 500000000
      | Some deadline \<Rightarrow>
          (let remaining = deadline - now in
           if remaining > 0 then (let r = remaining div 3 in if r < 500000000 then r else 500000000)
           else 500000000))"

text \<open>The goroutine: the callback sets \<open>xorAddr\<close> and \<open>doErr\<close>, and the result is what is sent to \<open>ch\<close>.\<close>

definition transport_goroutine :: "do_result \<Rightarrow> stun_err + addrport" where
  "transport_goroutine r =
     (case r of
        DoFails \<Rightarrow> Inl DoFailed
      | DoCalls ev \<Rightarrow>
          (let (xorAddr, doErr) =
             (case ev of
                None \<Rightarrow> (\<lparr>xa_IP = [], xa_Port = 0\<rparr>, None)
              | Some EventError \<Rightarrow> (\<lparr>xa_IP = [], xa_Port = 0\<rparr>, Some BindingRequestFailed)
              | Some (EventMessage None) \<Rightarrow> (\<lparr>xa_IP = [], xa_Port = 0\<rparr>, Some NoXORMappedAddress)
              | Some (EventMessage (Some x)) \<Rightarrow> (x, None)) in
           case doErr of
             Some e \<Rightarrow> Inl e
           | None \<Rightarrow>
               (case AddrFromSlice (xa_IP xorAddr) of
                  None \<Rightarrow> Inl InvalidIP
                | Some ip \<Rightarrow> Inr \<lparr>ap_addr = Unmap ip, ap_port = of_int (xa_Port xorAddr)\<rparr>)))"

text \<open>
  \<open>QueryFromTransport\<close> with the deadline of its context, the socket of the transport and the sockets
  that are open; the result and the sockets that are open at the return.
\<close>

definition QueryFromTransport ::
  "('s, 'u) stun_env \<Rightarrow> int option \<Rightarrow> 's \<Rightarrow> string \<Rightarrow> 's set \<Rightarrow> (stun_err + addrport) \<times> 's set" where
  "QueryFromTransport env ctx tr stunServer opn =
     (case SplitHostPort stunServer of
        Inl e \<Rightarrow> (Inl (InvalidServer e), opn)
      | Inr (host, port) \<Rightarrow>
          (case se_LookupNetIP env host of
             None \<Rightarrow> (Inl LookupFailed, opn)
           | Some [] \<Rightarrow> (Inl NoIPv4Address, opn)
           | Some (a # _) \<Rightarrow>
               (let target = JoinHostPort (Addr_String a) port in
                case se_ResolveUDPAddr env target of
                  None \<Rightarrow> (Inl ResolveFailed, opn)
                | Some serverAddr \<Rightarrow>
                    (let rto = transport_rto ctx (se_now env);
                         conn = OverTransport \<lparr>tc_tr = tr, tc_remoteAddr = serverAddr, tc_ctxDeadline = ctx, tc_deadline = None\<rparr> in
                     if \<not> se_NewClient env conn then (Inl NewClientFailed, opn)
                     else if se_ctxDone env then (Inl ContextDone, stun_conn_Close conn opn)
                     else (transport_goroutine (se_Do env conn rto), stun_conn_Close conn opn)))))"

section \<open>The query over a socket of its own\<close>

definition query_rto :: "int option \<Rightarrow> int \<Rightarrow> int" where
  "query_rto ctx now =
     (case ctx of
        None \<Rightarrow> 500000000
      | Some deadline \<Rightarrow>
          (let remaining = deadline - now in
           if remaining > 0 then (let r = remaining div 3 in if r < 500000000 then r else 500000000)
           else 500000000))"

definition query_goroutine :: "do_result \<Rightarrow> stun_err + addrport" where
  "query_goroutine r =
     (case r of
        DoFails \<Rightarrow> Inl DoFailed
      | DoCalls ev \<Rightarrow>
          (let (xorAddr, doErr) =
             (case ev of
                None \<Rightarrow> (\<lparr>xa_IP = [], xa_Port = 0\<rparr>, None)
              | Some EventError \<Rightarrow> (\<lparr>xa_IP = [], xa_Port = 0\<rparr>, Some BindingRequestFailed)
              | Some (EventMessage None) \<Rightarrow> (\<lparr>xa_IP = [], xa_Port = 0\<rparr>, Some NoXORMappedAddress)
              | Some (EventMessage (Some x)) \<Rightarrow> (x, None)) in
           case doErr of
             Some e \<Rightarrow> Inl e
           | None \<Rightarrow>
               (case AddrFromSlice (xa_IP xorAddr) of
                  None \<Rightarrow> Inl InvalidIP
                | Some ip \<Rightarrow> Inr \<lparr>ap_addr = Unmap ip, ap_port = of_int (xa_Port xorAddr)\<rparr>)))"

definition stun_Query ::
  "('s, 'u) stun_env \<Rightarrow> int option \<Rightarrow> string \<Rightarrow> 's set \<Rightarrow> (stun_err + addrport) \<times> 's set" where
  "stun_Query env ctx stunServer opn =
     (case SplitHostPort stunServer of
        Inl e \<Rightarrow> (Inl (InvalidServer e), opn)
      | Inr (host, port) \<Rightarrow>
          (case se_LookupNetIP env host of
             None \<Rightarrow> (Inl LookupFailed, opn)
           | Some [] \<Rightarrow> (Inl NoIPv4Address, opn)
           | Some (a # _) \<Rightarrow>
               (let target = JoinHostPort (Addr_String a) port in
                case se_Dial env target of
                  None \<Rightarrow> (Inl DialFailed, opn)
                | Some (sock, u) \<Rightarrow>
                    (let opn = insert sock opn; udpConn = OverUDP sock u; rto = query_rto ctx (se_now env) in
                     if \<not> se_NewClient env udpConn then (Inl NewClientFailed, stun_conn_Close udpConn opn)
                     else if se_ctxDone env then (Inl ContextDone, stun_conn_Close udpConn opn)
                     else (query_goroutine (se_Do env udpConn rto), stun_conn_Close udpConn opn)))))"

section \<open>What a server answers\<close>

text \<open>
  What RFC 5389 promises of a binding response: it names the address and the port from which the
  server saw the request come, \<open>seen\<close> of the local socket and the server, here an IPv4 address in one
  of the two forms of \<open>net.IP\<close>.
\<close>

definition binding_service :: "('s \<Rightarrow> 'u \<Rightarrow> addrport) \<Rightarrow> ('s, 'u) stun_env \<Rightarrow> bool" where
  "binding_service seen env \<longleftrightarrow>
     (\<forall>conn rto x. se_Do env conn rto = DoCalls (Some (EventMessage (Some x))) \<longrightarrow>
        (\<exists>ip4. To4 (xa_IP x) = Some ip4 \<and> ap_addr (seen (local_socket conn) (remote_addr conn)) = Addr4 (Uint32 ip4) \<and>
           xa_Port x = uint (ap_port (seen (local_socket conn) (remote_addr conn)))))"

text \<open>The address of the server: the first IPv4 address of its name, with its port.\<close>

definition server_target :: "('s, 'u) stun_env \<Rightarrow> string \<Rightarrow> string option" where
  "server_target env stunServer =
     (case SplitHostPort stunServer of
        Inl _ \<Rightarrow> None
      | Inr (host, port) \<Rightarrow>
          (case se_LookupNetIP env host of Some (a # _) \<Rightarrow> Some (JoinHostPort (Addr_String a) port) | _ \<Rightarrow> None))"

text \<open>Half a second, or a third of the time that is left when that is less.\<close>

definition fair_rto :: "int option \<Rightarrow> int \<Rightarrow> int" where
  "fair_rto ctx now =
     (case ctx of Some d \<Rightarrow> if now < d then min 500000000 ((d - now) div 3) else 500000000 | None \<Rightarrow> 500000000)"

text \<open>The exchange with the server over a connection succeeds: a message with the attribute comes in time.\<close>

definition answered :: "('s, 'u) stun_env \<Rightarrow> int option \<Rightarrow> ('s, 'u) stun_conn \<Rightarrow> bool" where
  "answered env ctx conn \<longleftrightarrow>
     se_NewClient env conn \<and> \<not> se_ctxDone env \<and>
     (case se_Do env conn (fair_rto ctx (se_now env)) of DoCalls (Some (EventMessage (Some _))) \<Rightarrow> True | _ \<Rightarrow> False)"

section \<open>Lemmas\<close>

lemma rto_fair: "transport_rto = fair_rto" "query_rto = fair_rto"
  by (auto simp: fun_eq_iff transport_rto_def query_rto_def fair_rto_def Let_def min_def split: option.split)

text \<open>A third attempt begins before the deadline.\<close>

lemma fair_rto_deadline: "now < d \<Longrightarrow> now + 3 * fair_rto (Some d) now \<le> d"
  unfolding fair_rto_def min_def by auto

text \<open>The two copies of the goroutine do the same.\<close>

lemma goroutines_equal: "query_goroutine = transport_goroutine"
  by (simp add: fun_eq_iff query_goroutine_def transport_goroutine_def)

lemma To4_slice:
  assumes "To4 bs = Some ip4"
  shows "\<exists>ip. AddrFromSlice bs = Some ip \<and> Unmap ip = Addr4 (Uint32 ip4)"
proof -
  have "length bs = 4 \<or> length bs = 16"
    using assms by (auto simp: To4_def split: if_splits)
  then obtain ip where "AddrFromSlice bs = Some ip"
    by (auto simp: AddrFromSlice_def)
  with Unmap_slice [OF this] assms show ?thesis by simp
qed

lemma goroutine_reports:
  assumes "binding_service seen env"
  shows "transport_goroutine (se_Do env conn rto) = Inr a \<longleftrightarrow>
    (case se_Do env conn rto of DoCalls (Some (EventMessage (Some _))) \<Rightarrow> True | _ \<Rightarrow> False) \<and>
    a = seen (local_socket conn) (remote_addr conn)"
proof (cases "\<exists>x. se_Do env conn rto = DoCalls (Some (EventMessage (Some x)))")
  case True
  then obtain x where x: "se_Do env conn rto = DoCalls (Some (EventMessage (Some x)))"
    by blast
  with assms obtain ip4 where ip4: "To4 (xa_IP x) = Some ip4"
    "ap_addr (seen (local_socket conn) (remote_addr conn)) = Addr4 (Uint32 ip4)"
    "xa_Port x = uint (ap_port (seen (local_socket conn) (remote_addr conn)))"
    unfolding binding_service_def by blast
  obtain ip where "AddrFromSlice (xa_IP x) = Some ip" "Unmap ip = Addr4 (Uint32 ip4)"
    using To4_slice [OF ip4(1)] by blast
  then have "transport_goroutine (se_Do env conn rto) = Inr (seen (local_socket conn) (remote_addr conn))"
    using ip4(2,3) by (simp add: x transport_goroutine_def)
  then show ?thesis by (auto simp: x)
next
  case False
  then show ?thesis
    by (auto simp: transport_goroutine_def AddrFromSlice_def split: do_result.splits option.splits stun_event.splits)
qed

lemma transport_query_reports:
  assumes "binding_service seen env"
  shows "fst (QueryFromTransport env ctx tr srv opn) = Inr a \<longleftrightarrow>
    (\<exists>target u. server_target env srv = Some target \<and> se_ResolveUDPAddr env target = Some u \<and>
       answered env ctx (OverTransport \<lparr>tc_tr = tr, tc_remoteAddr = u, tc_ctxDeadline = ctx, tc_deadline = None\<rparr>) \<and> a = seen tr u)"
  by (auto simp: QueryFromTransport_def server_target_def answered_def Let_def rto_fair goroutine_reports [OF assms]
      split: sum.splits option.splits list.splits)

lemma own_query_reports:
  assumes "binding_service seen env"
  shows "fst (stun_Query env ctx srv opn) = Inr a \<longleftrightarrow>
    (\<exists>target sock u. server_target env srv = Some target \<and> se_Dial env target = Some (sock, u) \<and>
       answered env ctx (OverUDP sock u) \<and> a = seen sock u)"
  by (auto simp: stun_Query_def server_target_def answered_def Let_def rto_fair goroutines_equal goroutine_reports [OF assms]
      split: sum.splits option.splits list.splits)

lemma queries_keep_sockets:
  "snd (QueryFromTransport env ctx tr srv opn) = opn"
  "\<forall>target sock u. se_Dial env target = Some (sock, u) \<longrightarrow> sock \<notin> opn \<Longrightarrow> snd (stun_Query env ctx srv opn) = opn"
  by (auto simp: QueryFromTransport_def stun_Query_def Let_def split: sum.splits option.splits list.splits)

section \<open>Properties\<close>

text \<open>
  C20: each query reports the address of the socket that it asks with. It succeeds exactly when the
  server at the first IPv4 address of the given name answers over that socket before the context
  ends, asked with a retransmission timeout of at most a third of the time that is left; then the
  result is the address and port at which that server sees the shared socket, and for \<open>Query\<close> its own
  new one, whatever form the answer has. The shared socket stays open and the one of \<open>Query\<close> is
  closed, on every path.
\<close>

theorem stun_reports_own_socket:
  assumes "binding_service seen env" and "\<forall>target sock u. se_Dial env target = Some (sock, u) \<longrightarrow> sock \<notin> opn"
  shows "(fst (QueryFromTransport env ctx tr srv opn) = Inr a \<longleftrightarrow>
      (\<exists>target u. server_target env srv = Some target \<and> se_ResolveUDPAddr env target = Some u \<and>
         answered env ctx (OverTransport \<lparr>tc_tr = tr, tc_remoteAddr = u, tc_ctxDeadline = ctx, tc_deadline = None\<rparr>) \<and> a = seen tr u)) \<and>
    (fst (stun_Query env ctx srv opn) = Inr a \<longleftrightarrow>
      (\<exists>target sock u. server_target env srv = Some target \<and> se_Dial env target = Some (sock, u) \<and>
         answered env ctx (OverUDP sock u) \<and> a = seen sock u)) \<and>
    snd (QueryFromTransport env ctx tr srv opn) = opn \<and> snd (stun_Query env ctx srv opn) = opn"
  by (intro conjI transport_query_reports [OF assms(1)] own_query_reports [OF assms(1)] queries_keep_sockets(1)
      queries_keep_sockets(2) [OF assms(2)])

text \<open>A network for the examples, behind a NAT that gives every socket a port of its own; sockets are numbers.\<close>

definition sample_seen :: "nat \<Rightarrow> string \<Rightarrow> addrport" where
  "sample_seen sock u = \<lparr>ap_addr = Addr4 0xc6336407, ap_port = 4433 + of_nat sock\<rparr>"

definition sample_stun :: "(nat, string) stun_env" where
  "sample_stun =
     \<lparr>se_LookupNetIP = (\<lambda>_. Some [Addr4 0xc0000201]), se_ResolveUDPAddr = Some, se_Dial = (\<lambda>target. Some (1, target)),
      se_NewClient = (\<lambda>_. True),
      se_Do = (\<lambda>conn rto. if remote_addr conn = ''192.0.2.1:3478'' \<and> rto = 500000000
                 then DoCalls (Some (EventMessage (Some \<lparr>xa_IP = [198, 51, 100, 7],
                        xa_Port = uint (ap_port (sample_seen (local_socket conn) (remote_addr conn)))\<rparr>)))
                 else DoFails),
      se_now = 0, se_ctxDone = False\<rparr>"

text \<open>The two queries report different ports here: only the shared socket tells how peers reach it.\<close>

theorem stun_reports_own_socket_witness:
  "fst (QueryFromTransport sample_stun (Some 2000000000) 0 ''stun.example.com:3478'' {0}) = Inr \<lparr>ap_addr = Addr4 0xc6336407, ap_port = 4433\<rparr> \<and>
   fst (stun_Query sample_stun (Some 2000000000) ''stun.example.com:3478'' {0}) = Inr \<lparr>ap_addr = Addr4 0xc6336407, ap_port = 4434\<rparr> \<and>
   snd (stun_Query sample_stun (Some 2000000000) ''stun.example.com:3478'' {0}) = {0}"
proof -
  have "Uint32 [198, 51, 100, 7] = 0xc6336407"
    by code_simp
  then have service: "binding_service sample_seen sample_stun"
    by (auto simp: binding_service_def sample_stun_def sample_seen_def To4_def split: if_splits)
  have fresh: "\<forall>target sock u. se_Dial sample_stun target = Some (sock, u) \<longrightarrow> sock \<notin> {0}"
    by (simp add: sample_stun_def)
  have target: "server_target sample_stun ''stun.example.com:3478'' = Some ''192.0.2.1:3478''"
    by code_simp
  note props = stun_reports_own_socket [OF service fresh, where ctx = "Some 2000000000" and tr = 0 and srv = "''stun.example.com:3478''"]
  show ?thesis
    using props target
    by (auto simp: answered_def fair_rto_def sample_stun_def sample_seen_def)
qed

end
