(* ===== verification/Direct.thy ===== *)
theory Direct
  imports Manager
begin

text \<open>
  \<open>internal/direct\<close> and \<open>internal/h3path\<close>: the listener of the direct path with its two protocols,
  the dialer of a direct CONNECT-IP session, and the probe of a candidate address; and the loop of
  the manager that serves the listener. QUIC, CONNECT-IP and the URI templates are libraries: their
  operations are the arguments of the definitions. A QUIC connection is a record of what the
  program reads from it.
\<close>

section \<open>Libraries\<close>

record h3_request =
  hr_Method :: string
  hr_Proto :: string
  hr_Host :: string
  hr_Path :: string

text \<open>A connection after its handshake; \<open>qc_requests\<close> are the HTTP/3 requests the peer makes on it.\<close>

record quic_conn =
  qc_NegotiatedProtocol :: string
  qc_rawCerts :: "bytes list"
  qc_RemoteAddr :: addrport
  qc_requests :: "h3_request list"

record ip_route =
  rt_StartIP :: addr
  rt_EndIP :: addr
  rt_IPProtocol :: nat

text \<open>
  \<open>connect-ip-go\<close> and \<open>uritemplate\<close>: whether a template is well-formed (\<open>MustNew\<close> panics otherwise),
  the parsed request or an error (with the status of a \<open>RequestParseError\<close>), the session that the
  proxy makes of a request, the client's session over a connection, and the advertisement of routes.
\<close>

record ('q, 'c) connectip =
  ci_template :: "string \<Rightarrow> bool"
  ci_ParseRequest :: "h3_request \<Rightarrow> string \<Rightarrow> nat option + 'q"
  ci_Proxy :: "'q \<Rightarrow> 'c option"
  ci_Dial :: "quic_conn \<Rightarrow> string \<Rightarrow> 'c option"
  ci_AdvertiseRoute :: "'c \<Rightarrow> ip_route list \<Rightarrow> bool"

definition all_ipv4 :: ip_route where
  "all_ipv4 = \<lparr>rt_StartIP = the (ParseAddr ''0.0.0.0''), rt_EndIP = the (ParseAddr ''255.255.255.255''), rt_IPProtocol = 0\<rparr>"

text \<open>The settings of a QUIC connection, in seconds; 0 for the library's default.\<close>

record quic_Config =
  qf_EnableDatagrams :: bool
  qf_KeepAlivePeriod :: nat
  qf_MaxIdleTimeout :: nat
  qf_HandshakeIdleTimeout :: nat

definition listen_config :: quic_Config where
  "listen_config =
     \<lparr>qf_EnableDatagrams = True, qf_KeepAlivePeriod = 0, qf_MaxIdleTimeout = 15, qf_HandshakeIdleTimeout = 0\<rparr>"

definition dial_config :: quic_Config where
  "dial_config =
     \<lparr>qf_EnableDatagrams = True, qf_KeepAlivePeriod = 10, qf_MaxIdleTimeout = 15, qf_HandshakeIdleTimeout = 0\<rparr>"

definition probe_config :: quic_Config where
  "probe_config =
     \<lparr>qf_EnableDatagrams = False, qf_KeepAlivePeriod = 0, qf_MaxIdleTimeout = 0, qf_HandshakeIdleTimeout = 5\<rparr>"

text \<open>What the comments ask for: both ends wait equally long, and the client speaks before either gives up.\<close>

lemma idle_settings:
  "qf_MaxIdleTimeout listen_config = qf_MaxIdleTimeout dial_config" "qf_KeepAlivePeriod dial_config < qf_MaxIdleTimeout listen_config"
  by (simp_all add: listen_config_def dial_config_def)

text \<open>A connection is closed with a code and a reason.\<close>

type_synonym closes = "(nat \<times> string) list"

section \<open>The listener\<close>

record Listener =
  ln_tls :: tls_Config
  ln_localPort :: u16
  ln_selfPriv :: bytes
  ln_closed :: bool

datatype listen_err = ListenTLS cert_err | ListenUDP | ListenQUIC

text \<open>
  \<open>New\<close>: the port that the operating system assigns, and whether QUIC can listen on it. The flag
  tells whether a transport that was created has been closed again.
\<close>

definition direct_New ::
  "crypto_api \<Rightarrow> u16 option \<Rightarrow> (tls_Config \<Rightarrow> quic_Config \<Rightarrow> bool) \<Rightarrow> bytes \<Rightarrow> peer_id set \<Rightarrow> (listen_err + Listener) \<times> bool" where
  "direct_New cr udp listens selfPriv knownPeers =
     (case NewProbeServerTLSConfig cr selfPriv knownPeers of
        Inl e \<Rightarrow> (Inl (ListenTLS e), False)
      | Inr tlsCfg \<Rightarrow>
          (case udp of
             None \<Rightarrow> (Inl ListenUDP, False)
           | Some port \<Rightarrow>
               if \<not> listens tlsCfg listen_config then (Inl ListenQUIC, True)
               else (Inr \<lparr>ln_tls = tlsCfg, ln_localPort = port, ln_selfPriv = selfPriv, ln_closed = False\<rparr>, False)))"

definition listener_Close :: "Listener \<Rightarrow> Listener" where
  "listener_Close l = l\<lparr>ln_closed := True\<rparr>"

datatype conn_err = NoCertificate | NotEd25519 | ParseFailed | ProxyFailed | AdvertiseFailed

definition peerIDFromConn :: "crypto_api \<Rightarrow> quic_conn \<Rightarrow> conn_err + peer_id" where
  "peerIDFromConn cr conn =
     (case qc_rawCerts conn of
        [] \<Rightarrow> Inl NoCertificate
      | raw # _ \<Rightarrow>
          (case cr_Parse cr raw of
             Some (Ed25519Key pub) \<Rightarrow> Inr (PeerIDFromPublicKey pub)
           | _ \<Rightarrow> Inl NotEd25519))"

datatype 'c accept_event = ProbeEvent peer_id addrport | ConnectEvent peer_id 'c

definition handleProbe :: "crypto_api \<Rightarrow> quic_conn \<Rightarrow> conn_err + ('c accept_event \<times> closes)" where
  "handleProbe cr conn =
     (case peerIDFromConn cr conn of
        Inl e \<Rightarrow> Inl e
      | Inr peerID \<Rightarrow>
          (let ra = qc_RemoteAddr conn in
           Inr (ProbeEvent peerID \<lparr>ap_addr = Unmap (ap_addr ra), ap_port = ap_port ra\<rparr>, [(0, ''probe ok'')])))"

text \<open>
  The HTTP handler: the status of an error response and what is sent to the channel \<open>ch\<close>. A host
  that does not make a template panics, and then nothing is sent.
\<close>

definition connect_handler :: "('q, 'c) connectip \<Rightarrow> h3_request \<Rightarrow> nat option \<times> (conn_err + 'c) option" where
  "connect_handler api r =
     (let tmpl = ''https://'' @ hr_Host r @ ''/mion'' in
      if \<not> ci_template api tmpl then (None, None)
      else case ci_ParseRequest api r tmpl of
        Inl st \<Rightarrow> (Some (case st of None \<Rightarrow> 400 | Some s \<Rightarrow> s), Some (Inl ParseFailed))
      | Inr req \<Rightarrow>
          (case ci_Proxy api req of
             None \<Rightarrow> (None, Some (Inl ProxyFailed))
           | Some ipconn \<Rightarrow>
               if ci_AdvertiseRoute api ipconn [all_ipv4] then (None, Some (Inr ipconn))
               else (None, Some (Inl AdvertiseFailed))))"

text \<open>The first message that a handler sends; \<open>None\<close> when there is none and the receiver waits forever.\<close>

fun first_result :: "('q, 'c) connectip \<Rightarrow> h3_request list \<Rightarrow> (conn_err + 'c) option" where
  "first_result api [] = None"
| "first_result api (r # rs) =
     (case snd (connect_handler api r) of None \<Rightarrow> first_result api rs | Some res \<Rightarrow> Some res)"

definition handleConnect ::
  "crypto_api \<Rightarrow> ('q, 'c) connectip \<Rightarrow> quic_conn \<Rightarrow> (conn_err + 'c accept_event) option" where
  "handleConnect cr api conn =
     (case peerIDFromConn cr conn of
        Inl e \<Rightarrow> Some (Inl e)
      | Inr peerID \<Rightarrow>
          (case first_result api (qc_requests conn) of
             None \<Rightarrow> None
           | Some (Inl e) \<Rightarrow> Some (Inl e)
           | Some (Inr ipconn) \<Rightarrow> Some (Inr (ConnectEvent peerID ipconn))))"

text \<open>
  \<open>Accept\<close> on the connections that arrive, one after the other, until \<open>l.ln.Accept\<close> fails: the
  result, the connections it closed, and those that are left.
\<close>

datatype 'c accept_result = AcceptFailed | AcceptHangs | Accepted "'c accept_event"

definition then_close ::
  "nat \<times> string \<Rightarrow> 'c accept_result \<times> closes \<times> quic_conn list \<Rightarrow> 'c accept_result \<times> closes \<times> quic_conn list" where
  "then_close c r = (case r of (res, cs, rest) \<Rightarrow> (res, c # cs, rest))"

fun Accept ::
  "crypto_api \<Rightarrow> ('q, 'c) connectip \<Rightarrow> quic_conn list \<Rightarrow> 'c accept_result \<times> closes \<times> quic_conn list" where
  "Accept cr api [] = (AcceptFailed, [], [])"
| "Accept cr api (conn # conns) =
     (if qc_NegotiatedProtocol conn = ''malon-probe'' then
        (case handleProbe cr conn of
           Inl _ \<Rightarrow> then_close (1, ''probe rejected'') (Accept cr api conns)
         | Inr (ev, cl) \<Rightarrow> (Accepted ev, cl, conns))
      else if qc_NegotiatedProtocol conn = ''h3'' then
        (case handleConnect cr api conn of
           None \<Rightarrow> (AcceptHangs, [], conns)
         | Some (Inl _) \<Rightarrow> then_close (1, ''connect rejected'') (Accept cr api conns)
         | Some (Inr ev) \<Rightarrow> (Accepted ev, [], conns))
      else then_close (1, ''unknown alpn'') (Accept cr api conns))"

section \<open>Serving the listener\<close>

lemma Accept_shorter: "Accept cr api conns = (Accepted ev, cl, rest) \<Longrightarrow> length rest < length conns"
proof (induction conns arbitrary: cl)
  case (Cons conn conns)
  then show ?case
    by (fastforce simp: then_close_def split: if_splits sum.splits option.splits prod.splits)
qed simp

text \<open>
  \<open>probeAcceptLoop\<close>: the CONNECT-IP sessions that are handed to \<open>handleDirectConnect\<close>, in order, and
  whether the loop came to its end (where it closes the listener).
\<close>

function probeAcceptLoop :: "crypto_api \<Rightarrow> ('q, 'c) connectip \<Rightarrow> quic_conn list \<Rightarrow> (peer_id \<times> 'c) list \<times> bool" where
  "probeAcceptLoop cr api conns =
     (case Accept cr api conns of
        (AcceptFailed, _, _) \<Rightarrow> ([], True)
      | (AcceptHangs, _, _) \<Rightarrow> ([], False)
      | (Accepted ev, _, rest) \<Rightarrow>
          (case (ev, probeAcceptLoop cr api rest) of
             (ProbeEvent _ _, res) \<Rightarrow> res
           | (ConnectEvent pid ipconn, (evs, ended)) \<Rightarrow> ((pid, ipconn) # evs, ended)))"
  by pat_completeness auto
termination
  by (relation "measure (\<lambda>(_, _, conns). length conns)") (auto dest!: Accept_shorter [OF sym])

declare probeAcceptLoop.simps [simp del]

section \<open>Dialing\<close>

text \<open>\<open>tr.Dial\<close>: a connection whose handshake succeeded with the given configuration, or a failure.\<close>

type_synonym quic_dial = "tls_Config \<Rightarrow> quic_Config \<Rightarrow> addrport \<Rightarrow> quic_conn option"

datatype dial_err = DialTLS cert_err | DialQUIC | DialConnectIP | DialRoutes

definition authority :: "addrport \<Rightarrow> string" where
  "authority addr =
     (if Is6 (ap_addr addr) then ''['' @ Addr_String (ap_addr addr) @ '']:'' @ dec (unat (ap_port addr))
      else AddrPort_String addr)"

text \<open>\<open>None\<close> for the panic of \<open>uritemplate.MustNew\<close>.\<close>

definition Dial ::
  "crypto_api \<Rightarrow> ('q, 'c) connectip \<Rightarrow> quic_dial \<Rightarrow> bytes \<Rightarrow> addrport \<Rightarrow> peer_id \<Rightarrow> ((dial_err + 'c) \<times> closes) option" where
  "Dial cr api quicDial selfPriv addr expectedPeerID =
     (case NewDirectClientTLSConfig cr selfPriv expectedPeerID of
        Inl e \<Rightarrow> Some (Inl (DialTLS e), [])
      | Inr tlsCfg \<Rightarrow>
          (case quicDial tlsCfg dial_config addr of
             None \<Rightarrow> Some (Inl DialQUIC, [])
           | Some qconn \<Rightarrow>
               (let template = ''https://'' @ authority addr @ ''/mion'' in
                if \<not> ci_template api template then None
                else case ci_Dial api qconn template of
                  None \<Rightarrow> Some (Inl DialConnectIP, [(0, ''connect-ip failed'')])
                | Some ipconn \<Rightarrow>
                    if ci_AdvertiseRoute api ipconn [all_ipv4] then Some (Inr ipconn, [])
                    else Some (Inl DialRoutes, [(0, ''route advertisement failed'')]))))"

text \<open>
  \<open>DirectConn\<close> is the session itself: \<open>ReadPacket\<close> and \<open>Close\<close> are those of the library,
  \<open>WritePacket\<close> drops the packet that the library's one returns beside the error.
\<close>

definition DirectConn_ReadPacket :: "('c \<Rightarrow> nat \<Rightarrow> 'r \<times> 'c) \<Rightarrow> 'c \<Rightarrow> nat \<Rightarrow> 'r \<times> 'c" where
  "DirectConn_ReadPacket read inner len = read inner len"

definition DirectConn_WritePacket :: "('c \<Rightarrow> bytes \<Rightarrow> bytes \<times> io_err option \<times> 'c) \<Rightarrow> 'c \<Rightarrow> bytes \<Rightarrow> io_err option \<times> 'c" where
  "DirectConn_WritePacket write inner pkt = (case write inner pkt of (_, err, inner') \<Rightarrow> (err, inner'))"

definition DirectConn_Close :: "('c \<Rightarrow> io_err option \<times> 'c) \<Rightarrow> 'c \<Rightarrow> io_err option \<times> 'c" where
  "DirectConn_Close close inner = close inner"

section \<open>Probing\<close>

datatype probe_err = ProbeTLS cert_err | ProbeQUIC | ProbeNoCertificate | ProbeNotEd25519 | ProbeMismatch peer_id

record Validator =
  v_selfPriv :: bytes

definition h3path_New :: "bytes \<Rightarrow> Validator" where
  "h3path_New selfPriv = \<lparr>v_selfPriv = selfPriv\<rparr>"

text \<open>\<open>Probe\<close> with the time that the handshake took; the connection is closed on every return after the dial.\<close>

definition h3path_Probe ::
  "crypto_api \<Rightarrow> quic_dial \<Rightarrow> int \<Rightarrow> Validator \<Rightarrow> addrport \<Rightarrow> peer_id \<Rightarrow> (probe_err + ValidatedTransport) \<times> closes" where
  "h3path_Probe cr quicDial rtt v addr expectedPeerID =
     (case NewProbeClientTLSConfig cr (v_selfPriv v) expectedPeerID of
        Inl e \<Rightarrow> (Inl (ProbeTLS e), [])
      | Inr tlsCfg \<Rightarrow>
          (case quicDial tlsCfg probe_config addr of
             None \<Rightarrow> (Inl ProbeQUIC, [])
           | Some qconn \<Rightarrow>
               ((case qc_rawCerts qconn of
                   [] \<Rightarrow> Inl ProbeNoCertificate
                 | raw # _ \<Rightarrow>
                     (case cr_Parse cr raw of
                        Some (Ed25519Key pub) \<Rightarrow>
                          (let gotPeerID = PeerIDFromPublicKey pub in
                           if gotPeerID \<noteq> expectedPeerID then Inl (ProbeMismatch gotPeerID)
                           else Inr \<lparr>vt_RemoteAddr = addr, vt_PeerID = expectedPeerID, vt_RTT = rtt\<rparr>)
                      | _ \<Rightarrow> Inl ProbeNotEd25519)),
                [(0, ''probe done'')])))"

section \<open>Who is served\<close>

text \<open>
  What \<open>crypto/tls\<close> promises of a connection that it hands out: the verification callback has
  accepted the certificates, and the protocol is one of those of the configuration.
\<close>

definition tls_accepted :: "tls_Config \<Rightarrow> quic_conn \<Rightarrow> bool" where
  "tls_accepted cfg conn \<longleftrightarrow>
     cfg_VerifyPeerCertificate cfg (qc_rawCerts conn) = None \<and> qc_NegotiatedProtocol conn \<in> set (cfg_NextProtos cfg)"

lemma verified_peer:
  assumes "makePeerVerifier cr known (qc_rawCerts conn) = None"
  obtains pid where "peerIDFromConn cr conn = Inr pid" "pid \<in> known"
  using assms by (auto simp: makePeerVerifier_def peerIDFromConn_def split: list.splits option.splits pub_key.splits if_splits)

lemma listener_accepts:
  assumes "NewProbeServerTLSConfig cr priv known = Inr cfg" "tls_accepted cfg conn"
  obtains pid where "peerIDFromConn cr conn = Inr pid" "pid \<in> known"
    "qc_NegotiatedProtocol conn = ''malon-probe'' \<or> qc_NegotiatedProtocol conn = ''h3''"
proof -
  have "makePeerVerifier cr known (qc_rawCerts conn) = None"
    "qc_NegotiatedProtocol conn = ''malon-probe'' \<or> qc_NegotiatedProtocol conn = ''h3''"
    using assms by (auto simp: tls_accepted_def tls_config_defs alpnMalonProbe_def split: sum.splits)
  then show ?thesis
    using that verified_peer by metis
qed

text \<open>
  The reference: a connection hangs when its protocol is \<open>h3\<close> and no request on it gets a result;
  it carries a session when the first result is one.
\<close>

definition hangs :: "('q, 'c) connectip \<Rightarrow> quic_conn \<Rightarrow> bool" where
  "hangs api conn \<longleftrightarrow> qc_NegotiatedProtocol conn = ''h3'' \<and> first_result api (qc_requests conn) = None"

definition session_of :: "crypto_api \<Rightarrow> ('q, 'c) connectip \<Rightarrow> quic_conn \<Rightarrow> (peer_id \<times> 'c) option" where
  "session_of cr api conn =
     (if qc_NegotiatedProtocol conn = ''h3'' then
        (case (peerIDFromConn cr conn, first_result api (qc_requests conn)) of
           (Inr pid, Some (Inr ipconn)) \<Rightarrow> Some (pid, ipconn)
         | _ \<Rightarrow> None)
      else None)"

lemma loop_Nil: "probeAcceptLoop cr api [] = ([], True)"
  by (subst probeAcceptLoop.simps) simp

lemma loop_skip:
  "Accept cr api (conn # conns) = then_close c (Accept cr api conns) \<Longrightarrow>
     probeAcceptLoop cr api (conn # conns) = probeAcceptLoop cr api conns"
  by (subst (1 2) probeAcceptLoop.simps) (auto simp: then_close_def split: prod.splits accept_result.splits)

lemma loop_Cons:
  assumes "peerIDFromConn cr conn = Inr pid"
    and "qc_NegotiatedProtocol conn = ''malon-probe'' \<or> qc_NegotiatedProtocol conn = ''h3''"
  shows "probeAcceptLoop cr api (conn # conns) =
    (if hangs api conn then ([], False)
     else case (session_of cr api conn, probeAcceptLoop cr api conns) of
       (None, res) \<Rightarrow> res
     | (Some s, (evs, ended)) \<Rightarrow> (s # evs, ended))"
proof (cases "qc_NegotiatedProtocol conn = ''malon-probe''")
  case True
  then show ?thesis
    using assms(1) by (subst probeAcceptLoop.simps) (simp add: handleProbe_def hangs_def session_of_def Let_def split: prod.splits)
next
  case False
  then have h3: "qc_NegotiatedProtocol conn = ''h3''"
    using assms(2) by blast
  show ?thesis
  proof (cases "first_result api (qc_requests conn)")
    case None
    then show ?thesis
      using h3 assms(1) by (subst probeAcceptLoop.simps) (simp add: handleConnect_def hangs_def)
  next
    case (Some res)
    show ?thesis
    proof (cases res)
      case (Inl e)
      then have "Accept cr api (conn # conns) = then_close (1, ''connect rejected'') (Accept cr api conns)"
        using Some h3 assms(1) by (simp add: handleConnect_def)
      from loop_skip [OF this] Inl Some h3 assms(1) show ?thesis
        by (simp add: hangs_def session_of_def split: prod.splits)
    next
      case (Inr ipconn)
      then show ?thesis
        using Some h3 assms(1) by (subst probeAcceptLoop.simps) (simp add: handleConnect_def hangs_def session_of_def)
    qed
  qed
qed

lemma session_of_known:
  assumes "NewProbeServerTLSConfig cr priv known = Inr cfg" "tls_accepted cfg conn" "session_of cr api conn = Some (pid, s)"
  shows "pid \<in> known"
proof -
  obtain q where "peerIDFromConn cr conn = Inr q" "q \<in> known"
    using listener_accepts [OF assms(1,2)] by blast
  with assms(3) show ?thesis
    by (auto simp: session_of_def split: if_splits option.splits sum.splits)
qed

lemma listener_loop:
  assumes "NewProbeServerTLSConfig cr priv known = Inr cfg" "\<forall>conn \<in> set conns. tls_accepted cfg conn"
  shows "probeAcceptLoop cr api conns =
      (List.map_filter (session_of cr api) (takeWhile (\<lambda>conn. \<not> hangs api conn) conns), \<forall>conn \<in> set conns. \<not> hangs api conn)"
  using assms(2)
proof (induction conns)
  case (Cons conn conns)
  have "tls_accepted cfg conn"
    using Cons.prems by simp
  from listener_accepts [OF assms(1) this] obtain pid where "peerIDFromConn cr conn = Inr pid"
    "qc_NegotiatedProtocol conn = ''malon-probe'' \<or> qc_NegotiatedProtocol conn = ''h3''"
    by blast
  with Cons show ?case
    by (simp add: loop_Cons map_filter_simps split: option.split)
qed (simp add: loop_Nil map_filter_simps)

lemma listener_loop_known:
  assumes "NewProbeServerTLSConfig cr priv known = Inr cfg" "\<forall>conn \<in> set conns. tls_accepted cfg conn"
  shows "\<forall>(pid, ipconn) \<in> set (fst (probeAcceptLoop cr api conns)). pid \<in> known"
  using assms(2) session_of_known [OF assms(1)]
  by (fastforce simp: listener_loop [OF assms] List.map_filter_def dest: set_takeWhileD)

text \<open>
  A listener that was opened with the peers of the manager hands only registered peers to
  \<open>handleDirectConnect\<close>: its branch for an unknown peer is never taken.
\<close>

lemma inbound_sessions_registered:
  assumes "direct_New cr udp listens priv (knownPeerSet m) = (Inr ln, closed)"
    "\<forall>conn \<in> set conns. tls_accepted (ln_tls ln) conn" "(pid, ipconn) \<in> set (fst (probeAcceptLoop cr api conns))"
  shows "\<exists>e. m_peers m pid = Some e"
proof -
  have "NewProbeServerTLSConfig cr priv (knownPeerSet m) = Inr (ln_tls ln)"
    using assms(1) by (auto simp: direct_New_def split: sum.splits option.splits if_splits)
  from listener_loop_known [OF this assms(2)] assms(3) show ?thesis
    by (fastforce simp: knownPeerSet_def)
qed

section \<open>Who is reached\<close>

text \<open>A dialed connection has passed the verification of the configuration it was dialed with.\<close>

definition quic_library :: "quic_dial \<Rightarrow> bool" where
  "quic_library quicDial \<longleftrightarrow>
     (\<forall>cfg qcfg addr conn. quicDial cfg qcfg addr = Some conn \<longrightarrow> cfg_VerifyPeerCertificate cfg (qc_rawCerts conn) = None)"

text \<open>A text of letters, digits, dots, colons and slashes is a template.\<close>

definition template_library :: "('q, 'c) connectip \<Rightarrow> bool" where
  "template_library api \<longleftrightarrow>
     (\<forall>t. set t \<subseteq> set ''abcdefghijklmnopqrstuvwxyz0123456789.:/'' \<longrightarrow> ci_template api t)"

text \<open>The two branches for the authority write the same text.\<close>

lemma authority_String: "authority addr = AddrPort_String addr"
  by (cases "ap_addr addr") (simp_all add: authority_def AddrPort_String_def)

lemma dec_in_digits: "set (dec n) \<subseteq> set ''0123456789''"
proof
  fix c
  assume "c \<in> set (dec n)"
  then obtain d where "d < 10" "c = digit d"
    using dec_digits by blast
  moreover have "\<forall>d \<in> set [0..<10]. digit d \<in> set ''0123456789''"
    by code_simp
  ultimately show "c \<in> set ''0123456789''" by auto
qed

lemma ipv4_template:
  assumes "template_library api" "Is4 (ap_addr addr)"
  shows "ci_template api (''https://'' @ authority addr @ ''/mion'')"
proof -
  obtain a where a: "ap_addr addr = Addr4 a"
    using assms(2) by (cases "ap_addr addr") auto
  let ?chars = "set ''abcdefghijklmnopqrstuvwxyz0123456789.:/''"
  define D where "D = set ''0123456789''"
  have "set (AddrPort_String addr) \<subseteq> D \<union> {CHR ''.'', CHR '':''}"
    using dec_in_digits [folded D_def] by (auto simp: AddrPort_String_def a addr4_String_def)
  moreover have "D \<union> {CHR ''.'', CHR '':''} \<subseteq> ?chars"
    by (auto simp: D_def)
  ultimately have "set (AddrPort_String addr) \<subseteq> ?chars"
    by (rule subset_trans)
  moreover have "set ''https://'' \<subseteq> ?chars" "set ''/mion'' \<subseteq> ?chars"
    by auto
  ultimately show ?thesis
    using assms(1) unfolding template_library_def authority_String set_append by (metis Un_subset_iff set_append)
qed

lemma dialed_peer:
  assumes "quic_library quicDial" "cfg_VerifyPeerCertificate cfg = makePeerVerifier cr {p}" "quicDial cfg qcfg addr = Some conn"
  obtains raw rest pub where "qc_rawCerts conn = raw # rest" "cr_Parse cr raw = Some (Ed25519Key pub)" "PeerIDFromPublicKey pub = p"
proof -
  have "makePeerVerifier cr {p} (qc_rawCerts conn) = None"
    using assms unfolding quic_library_def by metis
  then show ?thesis
    using that by (auto simp: makePeerVerifier_def split: list.splits option.splits pub_key.splits if_splits)
qed

lemma Dial_outcome:
  assumes "quic_library quicDial" "template_library api" "Is4 (ap_addr addr)"
  shows "\<exists>res closed. Dial cr api quicDial priv addr p = Some (res, closed) \<and>
      (case res of
         Inr ipconn \<Rightarrow> closed = [] \<and>
           (\<exists>cfg conn. NewDirectClientTLSConfig cr priv p = Inr cfg \<and> quicDial cfg dial_config addr = Some conn \<and>
              peerIDFromConn cr conn = Inr p \<and>
              ci_Dial api conn (''https://'' @ AddrPort_String addr @ ''/mion'') = Some ipconn)
       | Inl e \<Rightarrow> length closed = (if e \<in> {DialConnectIP, DialRoutes} then 1 else 0))"
proof (cases "NewDirectClientTLSConfig cr priv p")
  case (Inr cfg)
  have ver: "cfg_VerifyPeerCertificate cfg = makePeerVerifier cr {p}"
    using Inr by (auto simp: tls_config_defs split: sum.splits)
  show ?thesis
  proof (cases "quicDial cfg dial_config addr")
    case (Some conn)
    have "peerIDFromConn cr conn = Inr p"
      by (rule dialed_peer [OF assms(1) ver Some]) (simp add: peerIDFromConn_def)
    with Some show ?thesis
      using Inr ipv4_template [OF assms(2,3)]
      by (cases "ci_Dial api conn (''https://'' @ authority addr @ ''/mion'')") (auto simp: Dial_def Let_def authority_String)
  qed (simp add: Dial_def Inr)
qed (simp add: Dial_def)

lemma Probe_outcome:
  assumes "quic_library quicDial"
  shows "case NewProbeClientTLSConfig cr priv p of
       Inl e \<Rightarrow> h3path_Probe cr quicDial rtt (h3path_New priv) addr p = (Inl (ProbeTLS e), [])
     | Inr cfg \<Rightarrow> h3path_Probe cr quicDial rtt (h3path_New priv) addr p =
         (if quicDial cfg probe_config addr = None then (Inl ProbeQUIC, [])
          else (Inr \<lparr>vt_RemoteAddr = addr, vt_PeerID = p, vt_RTT = rtt\<rparr>, [(0, ''probe done'')]))"
proof (cases "NewProbeClientTLSConfig cr priv p")
  case (Inr cfg)
  have ver: "cfg_VerifyPeerCertificate cfg = makePeerVerifier cr {p}"
    using Inr by (auto simp: tls_config_defs split: sum.splits)
  show ?thesis
  proof (cases "quicDial cfg probe_config addr")
    case (Some conn)
    show ?thesis
      by (rule dialed_peer [OF assms ver Some]) (simp add: h3path_Probe_def h3path_New_def Inr Some)
  qed (simp add: h3path_Probe_def h3path_New_def Inr)
qed (simp add: h3path_Probe_def h3path_New_def)

section \<open>Properties\<close>

text \<open>
  C14: the accept loop of the direct listener serves the connections in order: it starts exactly the
  CONNECT-IP sessions that the connections carry, each under the identity of the certificate that
  was verified, which is that of a known peer; probes and failed requests are passed over. It
  comes to its end with the listener, unless a connection on which no request gets a result stops
  it: then no later connection is served.
\<close>

theorem direct_listener_serves:
  assumes "NewProbeServerTLSConfig cr priv known = Inr cfg" and "\<forall>conn \<in> set conns. tls_accepted cfg conn"
  shows "probeAcceptLoop cr api conns =
      (List.map_filter (session_of cr api) (takeWhile (\<lambda>conn. \<not> hangs api conn) conns), \<forall>conn \<in> set conns. \<not> hangs api conn) \<and>
    (\<forall>(pid, ipconn) \<in> set (fst (probeAcceptLoop cr api conns)). pid \<in> known)"
  by (intro conjI listener_loop [OF assms] listener_loop_known [OF assms])

text \<open>A library for the examples: sessions are numbers, every request makes the session 1.\<close>

definition sample_connectip :: "(unit, nat) connectip" where
  "sample_connectip =
     \<lparr>ci_template = (\<lambda>_. True), ci_ParseRequest = (\<lambda>_ _. Inr ()), ci_Proxy = (\<lambda>_. Some 1),
      ci_Dial = (\<lambda>_ _. Some 1), ci_AdvertiseRoute = (\<lambda>_ _. True)\<rparr>"

definition sample_conn :: "string \<Rightarrow> h3_request list \<Rightarrow> quic_conn" where
  "sample_conn proto rs =
     \<lparr>qc_NegotiatedProtocol = proto, qc_rawCerts = [[9]], qc_RemoteAddr = \<lparr>ap_addr = Addr4 5, ap_port = 6\<rparr>, qc_requests = rs\<rparr>"

definition sample_request :: h3_request where
  "sample_request = \<lparr>hr_Method = ''CONNECT'', hr_Proto = ''connect-ip'', hr_Host = ''192.0.2.1:4433'', hr_Path = ''/mion''\<rparr>"

theorem direct_listener_serves_witness:
  "\<exists>cfg. NewProbeServerTLSConfig sample_crypto [7] {PeerIDFromPublicKey [9]} = Inr cfg \<and>
     probeAcceptLoop sample_crypto sample_connectip
       [sample_conn ''malon-probe'' [], sample_conn ''h3'' [sample_request], sample_conn ''h3'' [], sample_conn ''h3'' [sample_request]] =
       ([(PeerIDFromPublicKey [9], 1)], False)"
proof -
  let ?conns = "[sample_conn ''malon-probe'' [], sample_conn ''h3'' [sample_request], sample_conn ''h3'' [], sample_conn ''h3'' [sample_request]]"
  obtain cfg where cfg: "NewProbeServerTLSConfig sample_crypto [7] {PeerIDFromPublicKey [9]} = Inr cfg"
    by (simp add: tls_config_defs)
  then have "\<forall>conn \<in> set ?conns. tls_accepted cfg conn"
    by (auto simp: tls_accepted_def tls_config_defs sample_conn_def makePeerVerifier_def sample_crypto_def alpnMalonProbe_def
        split: sum.splits)
  from direct_listener_serves [OF cfg this, of sample_connectip] cfg show ?thesis
    by (simp add: map_filter_simps hangs_def session_of_def peerIDFromConn_def sample_conn_def sample_connectip_def
        connect_handler_def sample_crypto_def)
qed

text \<open>
  C19: a direct session or a validated path belongs to the expected peer. Dialing an IPv4 address never
  panics; a session that is returned is the CONNECT-IP session of a connection that was dialed with
  the configuration for the expected peer, and the certificate of that very connection holds the key
  of the peer; when no session is returned a connection that was made has been closed. A
  probe succeeds exactly when the handshake does, and its result names the address and the peer;
  its own checks of the certificate never fail, and its connection is closed.
\<close>

theorem direct_dial_authenticates:
  assumes "quic_library quicDial" and "template_library api" and "Is4 (ap_addr addr)"
  shows "(\<exists>res closed. Dial cr api quicDial priv addr p = Some (res, closed) \<and>
      (case res of
         Inr ipconn \<Rightarrow> closed = [] \<and>
           (\<exists>cfg conn. NewDirectClientTLSConfig cr priv p = Inr cfg \<and> quicDial cfg dial_config addr = Some conn \<and>
              peerIDFromConn cr conn = Inr p \<and>
              ci_Dial api conn (''https://'' @ AddrPort_String addr @ ''/mion'') = Some ipconn)
       | Inl e \<Rightarrow> length closed = (if e \<in> {DialConnectIP, DialRoutes} then 1 else 0))) \<and>
    (case NewProbeClientTLSConfig cr priv p of
       Inl e \<Rightarrow> h3path_Probe cr quicDial rtt (h3path_New priv) addr p = (Inl (ProbeTLS e), [])
     | Inr cfg \<Rightarrow> h3path_Probe cr quicDial rtt (h3path_New priv) addr p =
         (if quicDial cfg probe_config addr = None then (Inl ProbeQUIC, [])
          else (Inr \<lparr>vt_RemoteAddr = addr, vt_PeerID = p, vt_RTT = rtt\<rparr>, [(0, ''probe done'')])))"
  using Dial_outcome [OF assms] Probe_outcome [OF assms(1)] by blast

text \<open>A network for the examples, in which one node listens everywhere.\<close>

definition sample_quic :: quic_dial where
  "sample_quic cfg qcfg addr =
     (if cfg_VerifyPeerCertificate cfg [[9]] = None then Some (sample_conn ''h3'' []) else None)"

theorem direct_dial_authenticates_witness:
  "Dial sample_crypto sample_connectip sample_quic [7] \<lparr>ap_addr = Addr4 5, ap_port = 6\<rparr> (PeerIDFromPublicKey [9]) = Some (Inr 1, []) \<and>
   (\<exists>vt. fst (h3path_Probe sample_crypto sample_quic 3 (h3path_New [7]) \<lparr>ap_addr = Addr4 5, ap_port = 6\<rparr> (PeerIDFromPublicKey [9])) = Inr vt \<and>
      vt_PeerID vt = PeerIDFromPublicKey [9])"
proof -
  have quic: "quic_library sample_quic"
    by (auto simp: quic_library_def sample_quic_def sample_conn_def split: if_splits)
  have tmpl: "template_library sample_connectip"
    by (simp add: template_library_def sample_connectip_def)
  have ver: "makePeerVerifier sample_crypto {PeerIDFromPublicKey [9]} [[9]] = None"
    by (simp add: makePeerVerifier_def sample_crypto_def)
  have "Is4 (ap_addr \<lparr>ap_addr = Addr4 5, ap_port = 6\<rparr>)"
    by simp
  from direct_dial_authenticates [OF quic tmpl this, of sample_crypto "[7]" "PeerIDFromPublicKey [9]" 3]
  show ?thesis
    using ver by (auto simp: tls_config_defs sample_quic_def Dial_def sample_connectip_def Let_def)
qed

end
