(* ===== verification/Retry.thy ===== *)
theory Retry
  imports Manager
begin

text \<open>
  \<open>retryConnectPeer\<close> of \<open>internal/manager/manager.go\<close> as one goroutine sees it. The others may change
  the manager whenever it does not hold a lock: what they do at each such point of each turn, and how
  the other end answers the attempt of a turn, are given as a script. The theorem shows that the
  loop ends with a path as soon as the relay and the peer are there.
\<close>

section \<open>The loop\<close>

text \<open>
  The points of a turn before which others may act: the look at the entry, the look at the relay
  connection, the opening of the session, the end of the handshake, the closing of the old tunnel,
  \<open>SetConn\<close>, and the deferred reset of the mark.
\<close>

datatype retry_point = AtLook | AtRelay | AtSession | AtHandshake | AtClose | AtActivate | AtExit

record 'p turn =
  tu_others :: "retry_point \<Rightarrow> 'p Manager \<Rightarrow> 'p Manager"
  tu_answer :: "bytes list option"

text \<open>
  Why the loop has returned, with the manager at the moment of the decision: the node is no client;
  the context was done or there was a path when it looked; it has installed the given tunnel.
\<close>

datatype 'p retry_end = NotClient | Looked "'p Manager" | Connected nat "'p Manager"

datatype 'p turn_result = TurnPanics | TurnStops "'p retry_end" "'p Manager" | TurnWaits "'p Manager"

text \<open>\<open>connectPeerWithCtx\<close>, with what the others do in between.\<close>

definition retry_attempt ::
  "'p mion_api \<Rightarrow> crypto_api \<Rightarrow> peer_id \<Rightarrow> 'p turn \<Rightarrow> 'p Manager \<Rightarrow> 'p turn_result" where
  "retry_attempt api cr pid t m =
     (case connect_begin pid m of
        Inl _ \<Rightarrow> TurnWaits m
      | Inr (c, m1) \<Rightarrow>
          (let m2 = tu_others t AtHandshake m1 in
           case inner_handshake cr NewClientTLSConfig (tu_answer t) m2 of
             Inl _ \<Rightarrow> (case close_session c m2 of None \<Rightarrow> TurnPanics | Some m3 \<Rightarrow> TurnWaits m3)
           | Inr cert \<Rightarrow>
               (case install_tunnel pid c cert m2 of
                  (tn, old, m3) \<Rightarrow>
                    (case close_tunnel old (tu_others t AtClose m3) of
                       None \<Rightarrow> TurnPanics
                     | Some m4 \<Rightarrow>
                         TurnStops (Connected tn m3) (set_conn api pid (RelayConn tn) (tu_others t AtActivate m4))))))"

text \<open>One turn of the loop; a nil \<open>m.ctx\<close> makes it panic.\<close>

definition retry_turn ::
  "'p mion_api \<Rightarrow> crypto_api \<Rightarrow> peer_id \<Rightarrow> 'p turn \<Rightarrow> 'p Manager \<Rightarrow> 'p turn_result" where
  "retry_turn api cr pid t m =
     (let m0 = tu_others t AtLook m in
      if m_ctx m0 = None then TurnPanics
      else
        (case retry_look pid m0 of
           None \<Rightarrow> TurnStops (Looked m0) m0
         | Some url \<Rightarrow>
             (case retry_relay url (tu_others t AtRelay m0) of
                (up, m1) \<Rightarrow>
                  if up then retry_attempt api cr pid t (tu_others t AtSession m1) else TurnWaits m1)))"

text \<open>
  The result: why the loop has returned, if it has within the script, the waits, and the manager;
  \<open>None\<close> for a panic.
\<close>

fun retry_loop ::
  "'p mion_api \<Rightarrow> crypto_api \<Rightarrow> peer_id \<Rightarrow> int \<Rightarrow> 'p turn list \<Rightarrow> 'p Manager \<Rightarrow>
   ('p retry_end option \<times> int list \<times> 'p Manager) option" where
  "retry_loop api cr pid backoff [] m = Some (None, [], m)"
| "retry_loop api cr pid backoff (t # ts) m =
     (case retry_turn api cr pid t m of
        TurnPanics \<Rightarrow> None
      | TurnStops why m' \<Rightarrow> Some (Some why, [], tu_others t AtExit m')
      | TurnWaits m' \<Rightarrow>
          map_option (\<lambda>(fin, waits, m''). (fin, backoff # waits, m''))
            (retry_loop api cr pid (next_backoff retry_maxBackoff backoff) ts m'))"

definition retry_done :: "peer_id \<Rightarrow> 'p Manager \<Rightarrow> 'p Manager" where
  "retry_done pid m = update_entry pid (\<lambda>e. e\<lparr>pe_retryingConn := False\<rparr>) m"

definition retryConnectPeer ::
  "'p mion_api \<Rightarrow> crypto_api \<Rightarrow> peer_id \<Rightarrow> 'p turn list \<Rightarrow> 'p Manager \<Rightarrow>
   ('p retry_end option \<times> int list \<times> 'p Manager) option" where
  "retryConnectPeer api cr pid script m =
     (if m_role m \<noteq> None \<and> m_role m \<noteq> Some ''client'' then Some (Some NotClient, [], retry_done pid m)
      else
        (case retry_loop api cr pid 1000 script m of
           None \<Rightarrow> None
         | Some (fin, waits, m') \<Rightarrow> Some (fin, waits, if fin = None then m' else retry_done pid m')))"

section \<open>What the others may do\<close>

definition has_path :: "peer_id \<Rightarrow> 'p Manager \<Rightarrow> bool" where
  "has_path pid m \<longleftrightarrow>
     (case m_peers m pid of None \<Rightarrow> False | Some e \<Rightarrow> pe_hasDirectPath e \<or> pe_relayConn e \<noteq> None)"

definition mgr_pool :: "'p Manager \<Rightarrow> bool" where
  "mgr_pool m \<longleftrightarrow> pool_ok (m_proxies m) (m_store m)"

definition mgr_live :: "'p Manager \<Rightarrow> bool" where
  "mgr_live m \<longleftrightarrow> mgr_pool m \<and> m_ctx m \<noteq> None"

text \<open>The part of the manager that no goroutine changes: its key, the peers and their relays.\<close>

definition same_registration :: "'p Manager \<Rightarrow> 'p Manager \<Rightarrow> bool" where
  "same_registration m m' \<longleftrightarrow>
     m_selfPriv m' = m_selfPriv m \<and> (\<forall>q. map_option pe_relayURL (m_peers m' q) = map_option pe_relayURL (m_peers m q))"

definition others_ok :: "'p turn \<Rightarrow> bool" where
  "others_ok t \<longleftrightarrow> (\<forall>x m. mgr_live m \<longrightarrow> mgr_live (tu_others t x m) \<and> same_registration m (tu_others t x m))"

lemma same_registration_refl [simp]: "same_registration m m"
  by (simp add: same_registration_def)

lemma same_registration_trans [trans]:
  "same_registration m1 m2 \<Longrightarrow> same_registration m2 m3 \<Longrightarrow> same_registration m1 m3"
  by (simp add: same_registration_def)

lemma same_registration_entry [simp]:
  "same_registration m (set_conn api pid c m)" "same_registration m (retry_done pid m)"
  by (auto simp: same_registration_def set_conn_def retry_done_def update_entry_def option.map_comp comp_def)

lemma same_registration_peers:
  "m_peers m' = m_peers m \<Longrightarrow> m_selfPriv m' = m_selfPriv m \<Longrightarrow> same_registration m m'"
  by (simp add: same_registration_def)

lemma same_registration_known:
  assumes "same_registration m m'"
  shows "knownPeerSet m' = knownPeerSet m" "inner_handshake cr config answer m' = inner_handshake cr config answer m"
proof -
  have "map_option pe_relayURL (m_peers m' q) = None \<longleftrightarrow> map_option pe_relayURL (m_peers m q) = None" for q
    using assms by (simp add: same_registration_def)
  then show known: "knownPeerSet m' = knownPeerSet m"
    by (simp add: knownPeerSet_def dom_def)
  show "inner_handshake cr config answer m' = inner_handshake cr config answer m"
    using assms by (simp add: inner_handshake_def known same_registration_def)
qed

text \<open>The part of a turn's hypotheses that the others cannot change: the peer, its relay and its certificate.\<close>

definition peer_accepted :: "crypto_api \<Rightarrow> peer_id \<Rightarrow> bytes list option \<Rightarrow> 'p Manager \<Rightarrow> bool" where
  "peer_accepted cr pid answer m \<longleftrightarrow>
     (\<exists>e. m_peers m pid = Some e \<and> pe_relayURL e \<noteq> []) \<and> (\<exists>cert. inner_handshake cr NewClientTLSConfig answer m = Inr cert)"

definition relay_is_up :: "peer_id \<Rightarrow> 'p Manager \<Rightarrow> bool" where
  "relay_is_up pid m \<longleftrightarrow>
     (\<exists>e p. m_peers m pid = Some e \<and> m_proxies m (pe_relayURL e) = Some p \<and> IsConnected p (m_store m))"

lemma same_registration_accepted:
  assumes "same_registration m m'"
  shows "peer_accepted cr pid answer m' \<longleftrightarrow> peer_accepted cr pid answer m"
proof -
  have "map_option pe_relayURL (m_peers m' pid) = map_option pe_relayURL (m_peers m pid)"
    using assms by (simp add: same_registration_def)
  then show ?thesis
    by (cases "m_peers m pid"; cases "m_peers m' pid")
      (auto simp: peer_accepted_def same_registration_known(2) [OF assms])
qed

section \<open>One turn\<close>

text \<open>The loop has a reason to stop.\<close>

fun stop_reason :: "peer_id \<Rightarrow> peer_id set \<Rightarrow> 'p retry_end \<Rightarrow> bool" where
  "stop_reason pid known NotClient \<longleftrightarrow> False"
| "stop_reason pid known (Looked m) \<longleftrightarrow> m_ctx m = Some True \<or> has_path pid m"
| "stop_reason pid known (Connected tn m) \<longleftrightarrow>
     (\<exists>e c cert. m_peers m pid = Some e \<and> pe_relayConn e = Some tn \<and>
        m_tunnels m tn = Some \<lparr>tn_conn = c, tn_cert = cert\<rparr> \<and> nc_peerID c = pid \<and> cert \<in> known)"

lemma connect_begin_live:
  assumes "connect_begin pid m = Inr (c, m')" "mgr_live m"
  shows "mgr_live m'" "same_registration m m'"
proof -
  have "m_ctx m' = m_ctx m \<and> m_selfPriv m' = m_selfPriv m"
    using assms(1) by (auto simp: connect_begin_def NewSession_def Let_def split: option.splits if_splits prod.splits
        dest: getOrCreateProxy_frame)
  then show "mgr_live m'" "same_registration m m'"
    using assms pool_connect_begin [OF _ assms(1)] connect_begin_frame(1) [OF assms(1)]
    by (auto simp: mgr_live_def mgr_pool_def intro: same_registration_peers)
qed

lemma install_tunnel_live:
  assumes "install_tunnel pid c cert m = (tn, old, m')" "mgr_live m"
  shows "mgr_live m'" "same_registration m m'"
    "\<exists>e. m_peers m pid = Some e \<Longrightarrow> m_tunnels m' tn = Some \<lparr>tn_conn = c, tn_cert = cert\<rparr> \<and>
      (\<exists>e. m_peers m' pid = Some e \<and> pe_relayConn e = Some tn)"
  using assms
  by (auto simp: install_tunnel_def Let_def mgr_live_def mgr_pool_def same_registration_def option.map_comp comp_def)

lemma close_session_live:
  assumes "mgr_live m"
  obtains m' where "close_session c m = Some m'" "mgr_live m'" "same_registration m m'"
proof -
  obtain m' where m': "close_session c m = Some m'" "pool_ok (m_proxies m') (m_store m')"
    using close_session_pool [of m c] assms by (auto simp: mgr_live_def mgr_pool_def)
  have "mgr_live m'" "same_registration m m'"
    using m'(2) close_session_frame [OF m'(1)] assms
    by (auto simp: mgr_live_def mgr_pool_def intro: same_registration_peers)
  with m'(1) show thesis by (rule that)
qed

lemma close_tunnel_live:
  assumes "mgr_live m"
  obtains m' where "close_tunnel old m = Some m'" "mgr_live m'" "same_registration m m'"
proof (cases "\<exists>t tn. old = Some t \<and> m_tunnels m t = Some tn")
  case True
  then obtain t tn where "old = Some t" "m_tunnels m t = Some tn"
    by blast
  then have "close_tunnel old m = close_session (tn_conn tn) m"
    by (simp add: close_tunnel_def)
  then show thesis
    using close_session_live [OF assms, of "tn_conn tn"] that by metis
next
  case False
  then have "close_tunnel old m = Some m"
    by (cases old) (auto simp: close_tunnel_def split: option.splits)
  with assms that show thesis by simp
qed

lemma retry_relay_live:
  assumes "retry_relay url m = (up, m')" "mgr_live m"
  shows "mgr_live m'" "same_registration m m'"
  using assms pool_getOrCreate getOrCreateProxy_frame
  by (fastforce simp: retry_relay_def mgr_live_def mgr_pool_def split: if_splits prod.splits
      intro: same_registration_peers)+

lemma retry_attempt_cases:
  assumes live: "mgr_live m" and others: "others_ok t"
  obtains (stop) tn m3 m' where "retry_attempt api cr pid t m = TurnStops (Connected tn m3) m'"
      "mgr_live m'" "same_registration m m'" "stop_reason pid (knownPeerSet m) (Connected tn m3)"
  | (wait) m' where "retry_attempt api cr pid t m = TurnWaits m'"
      "mgr_live m'" "same_registration m m'" "\<not> peer_accepted cr pid (tu_answer t) m"
proof (cases "connect_begin pid m")
  case (Inl err)
  then have "\<not> peer_accepted cr pid (tu_answer t) m"
    by (auto simp: connect_begin_def peer_accepted_def split: option.splits if_splits prod.splits)
  with Inl live wait show thesis by (simp add: retry_attempt_def)
next
  case (Inr cm)
  then obtain c m1 where b: "connect_begin pid m = Inr (c, m1)"
    by (cases cm) simp
  note m1 = connect_begin_live [OF b live]
  define m2 where "m2 = tu_others t AtHandshake m1"
  have m2: "mgr_live m2" "same_registration m m2"
    using others m1 same_registration_trans [OF m1(2)] by (auto simp: others_ok_def m2_def)
  note same = same_registration_known [OF m2(2)]
  show thesis
  proof (cases "inner_handshake cr NewClientTLSConfig (tu_answer t) m2")
    case (Inl err)
    then have "\<not> peer_accepted cr pid (tu_answer t) m"
      by (simp add: peer_accepted_def same)
    moreover obtain m3 where "close_session c m2 = Some m3" "mgr_live m3" "same_registration m2 m3"
      by (rule close_session_live [OF m2(1)])
    ultimately show thesis
      using b Inl wait same_registration_trans [OF m2(2)] by (simp add: retry_attempt_def m2_def [symmetric])
  next
    case (Inr cert)
    obtain tn old m3 where inst: "install_tunnel pid c cert m2 = (tn, old, m3)"
      by (metis prod_cases3)
    note m3 = install_tunnel_live [OF inst m2(1)]
    define m4 where "m4 = tu_others t AtClose m3"
    have m4: "mgr_live m4" "same_registration m m4"
      using others m3 same_registration_trans [OF same_registration_trans [OF m2(2) m3(2)]]
      by (auto simp: others_ok_def m4_def)
    obtain m5 where m5: "close_tunnel old m4 = Some m5" "mgr_live m5" "same_registration m4 m5"
      by (rule close_tunnel_live [OF m4(1)])
    define m6 where "m6 = tu_others t AtActivate m5"
    have m6: "mgr_live m6" "same_registration m m6"
      using others m5 same_registration_trans [OF same_registration_trans [OF m4(2) m5(3)]]
      by (auto simp: others_ok_def m6_def)
    have "pid \<in> knownPeerSet m2"
      using connect_begin_frame(5) [OF b] same by (auto simp: knownPeerSet_def)
    then have "\<exists>e. m_peers m2 pid = Some e"
      by (auto simp: knownPeerSet_def)
    from m3(3) [OF this] have "stop_reason pid (knownPeerSet m) (Connected tn m3)"
      using client_handshake_known [OF Inr] connect_begin_frame(4) [OF b] same(1) by auto
    moreover have "retry_attempt api cr pid t m = TurnStops (Connected tn m3) (set_conn api pid (RelayConn tn) m6)"
      using b Inr inst m5(1) by (simp add: retry_attempt_def m2_def m4_def m6_def)
    moreover have "mgr_live (set_conn api pid (RelayConn tn) m6)"
      using m6(1) by (simp add: mgr_live_def mgr_pool_def set_conn_def)
    ultimately show thesis
      using stop same_registration_trans [OF m6(2)] by simp
  qed
qed

text \<open>
  A turn stops for a reason, or it waits; the latter not when the relay is connected as it looks and
  the peer answers with a certificate of a known peer.
\<close>

lemma retry_turn_cases:
  assumes live: "mgr_live m" and others: "others_ok t"
  obtains (stop) why m' where "retry_turn api cr pid t m = TurnStops why m'"
      "mgr_live m'" "same_registration m m'" "stop_reason pid (knownPeerSet m) why"
  | (wait) m' where "retry_turn api cr pid t m = TurnWaits m'" "mgr_live m'" "same_registration m m'"
      "\<not> (peer_accepted cr pid (tu_answer t) m \<and> relay_is_up pid (tu_others t AtRelay (tu_others t AtLook m)))"
proof -
  define m0 where "m0 = tu_others t AtLook m"
  have m0: "mgr_live m0" "same_registration m m0"
    using assms by (auto simp: others_ok_def m0_def)
  then obtain x where ctx: "m_ctx m0 = Some x"
    by (auto simp: mgr_live_def)
  show thesis
  proof (cases "retry_look pid m0")
    case None
    then have "stop_reason pid (knownPeerSet m) (Looked m0)"
      by (auto simp: retry_look_def has_path_def split: if_splits option.splits)
    with None ctx m0 stop show thesis by (simp add: retry_turn_def m0_def [symmetric])
  next
    case (Some url)
    define m1 where "m1 = tu_others t AtRelay m0"
    have m1: "mgr_live m1" "same_registration m m1"
      using others m0 same_registration_trans [OF m0(2)] by (auto simp: others_ok_def m1_def)
    obtain up m2 where relay: "retry_relay url m1 = (up, m2)"
      by fastforce
    have m2: "mgr_live m2" "same_registration m m2"
      using retry_relay_live [OF relay m1(1)] same_registration_trans [OF m1(2)] by auto
    show thesis
    proof (cases up)
      case False
      have "map_option pe_relayURL (m_peers m1 pid) = map_option pe_relayURL (m_peers m0 pid)"
        using m0(2) m1(2) by (simp add: same_registration_def)
      then have "\<not> relay_is_up pid m1"
        using Some relay False
        by (auto simp: relay_is_up_def retry_look_def retry_relay_def getOrCreateProxy_def
            split: if_splits option.splits prod.splits)
      with False Some ctx relay m2 wait show thesis
        by (simp add: retry_turn_def m0_def [symmetric] m1_def [symmetric])
    next
      case True
      define m3 where "m3 = tu_others t AtSession m2"
      have m3: "mgr_live m3" "same_registration m m3"
        using others m2 same_registration_trans [OF m2(2)] by (auto simp: others_ok_def m3_def)
      have turn: "retry_turn api cr pid t m = retry_attempt api cr pid t m3"
        using True Some ctx relay by (simp add: retry_turn_def m0_def [symmetric] m1_def [symmetric] m3_def)
      note same = same_registration_known(1) [OF m3(2)] same_registration_accepted [OF m3(2)]
      show thesis
        by (rule retry_attempt_cases [OF m3(1) others, of api cr pid])
          (use turn stop wait same same_registration_trans [OF m3(2)] in auto)
    qed
  qed
qed

section \<open>The loop ends\<close>

lemma retry_loop_ends:
  assumes "mgr_live m" "\<forall>t \<in> set (pre @ [t0]). others_ok t" "peer_accepted cr pid (tu_answer t0) m"
    and "\<And>waits m1. retry_loop api cr pid (backoff_after retry_maxBackoff k) pre m = Some (None, waits, m1) \<Longrightarrow>
      relay_is_up pid (tu_others t0 AtRelay (tu_others t0 AtLook m1))"
  shows "\<exists>n why m'. retry_loop api cr pid (backoff_after retry_maxBackoff k) (pre @ t0 # post) m =
      Some (Some why, map (\<lambda>i. backoff_after retry_maxBackoff (k + i)) [0..<n], m') \<and>
    n \<le> length pre \<and> stop_reason pid (knownPeerSet m) why"
  using assms
proof (induction pre arbitrary: m k)
  case Nil
  have others: "others_ok t0" and up: "relay_is_up pid (tu_others t0 AtRelay (tu_others t0 AtLook m))"
    using Nil.prems by simp_all
  show ?case
    by (rule retry_turn_cases [OF Nil.prems(1) others, of api cr pid]) (use up Nil.prems(3) in auto)
next
  case (Cons t pre)
  have others: "others_ok t"
    using Cons.prems(2) by simp
  show ?case
  proof (rule retry_turn_cases [OF Cons.prems(1) others, of api cr pid])
    fix why m'
    assume "retry_turn api cr pid t m = TurnStops why m'" "stop_reason pid (knownPeerSet m) why"
    then show ?thesis by (intro exI [of _ 0] exI [of _ why] exI [of _ "tu_others t AtExit m'"]) simp
  next
    fix m1
    assume turn: "retry_turn api cr pid t m = TurnWaits m1" and live: "mgr_live m1" and same: "same_registration m m1"
    have "\<exists>n why m'. retry_loop api cr pid (backoff_after retry_maxBackoff (Suc k)) (pre @ t0 # post) m1 =
        Some (Some why, map (\<lambda>i. backoff_after retry_maxBackoff (Suc k + i)) [0..<n], m') \<and>
        n \<le> length pre \<and> stop_reason pid (knownPeerSet m1) why"
    proof (rule Cons.IH [OF live])
      show "\<forall>t \<in> set (pre @ [t0]). others_ok t"
        using Cons.prems(2) by simp
      show "peer_accepted cr pid (tu_answer t0) m1"
        using Cons.prems(3) same_registration_accepted [OF same] by simp
      show "relay_is_up pid (tu_others t0 AtRelay (tu_others t0 AtLook m2))"
        if "retry_loop api cr pid (backoff_after retry_maxBackoff (Suc k)) pre m1 = Some (None, waits, m2)" for waits m2
        by (rule Cons.prems(4) [of "backoff_after retry_maxBackoff k # waits"]) (use that in \<open>simp add: turn\<close>)
    qed
    then obtain n why m' where "retry_loop api cr pid (backoff_after retry_maxBackoff (Suc k)) (pre @ t0 # post) m1 =
        Some (Some why, map (\<lambda>i. backoff_after retry_maxBackoff (Suc k + i)) [0..<n], m')" "n \<le> length pre"
      "stop_reason pid (knownPeerSet m1) why"
      by blast
    then show ?thesis
      by (intro exI [of _ "Suc n"] exI [of _ why] exI [of _ m'])
        (simp add: turn map_upt_Suc same_registration_known(1) [OF same] del: upt_Suc)
  qed
qed

text \<open>Without interference, a turn is \<open>retry_check\<close> followed by the attempt.\<close>

definition alone :: "bytes list option \<Rightarrow> 'p turn" where
  "alone answer = \<lparr>tu_others = \<lambda>_ m. m, tu_answer = answer\<rparr>"

lemma retry_turn_alone:
  "retry_turn api cr pid (alone answer) m =
     (if m_ctx m = None then TurnPanics
      else case retry_check pid m of
        (RetryStop, m1) \<Rightarrow> TurnStops (Looked m) m1
      | (RetryWait, m1) \<Rightarrow> TurnWaits m1
      | (RetryConnect, m1) \<Rightarrow> retry_attempt api cr pid (alone answer) m1)"
  by (simp add: retry_turn_def alone_def retry_check_def split: option.splits prod.splits)

section \<open>Properties\<close>

text \<open>
  C12: the reconnection of a client ends. The other goroutines may change the manager at every point
  at which the goroutine holds no lock, as long as they keep the pool of proxies consistent and
  change neither the node's key nor which peers are registered with which relay. If the peer is
  registered with a relay and answers the attempt of some turn with a certificate of a known peer,
  and the relay is connected when that turn looks at it, then the loop has returned by that turn,
  after waits of 1 s, 2 s, 4 s and so on, the peer is no longer marked as being retried, and there was
  a reason to stop: when the loop looked at the entry, the context was done or there was a path to
  the peer, or it has itself installed a tunnel to the peer whose other end has proved to be a known
  peer. (Whether that path still exists when the loop has returned is up to the others.)
\<close>

theorem retry_reconnects:
  assumes "m_role m = Some ''client''" and "mgr_live m" and "\<forall>t \<in> set (pre @ [t0]). others_ok t"
    and "peer_accepted cr pid (tu_answer t0) m"
    and "\<And>waits m1. retryConnectPeer api cr pid pre m = Some (None, waits, m1) \<Longrightarrow>
      relay_is_up pid (tu_others t0 AtRelay (tu_others t0 AtLook m1))"
  shows "\<exists>n why m'. retryConnectPeer api cr pid (pre @ t0 # post) m =
      Some (Some why, map (backoff_after retry_maxBackoff) [0..<n], m') \<and> n \<le> length pre \<and>
    (case why of
       NotClient \<Rightarrow> False
     | Looked m0 \<Rightarrow> m_ctx m0 = Some True \<or> has_path pid m0
     | Connected tn m1 \<Rightarrow> \<exists>e c cert. m_peers m1 pid = Some e \<and> pe_relayConn e = Some tn \<and>
         m_tunnels m1 tn = Some \<lparr>tn_conn = c, tn_cert = cert\<rparr> \<and> nc_peerID c = pid \<and> cert \<in> knownPeerSet m) \<and>
    (\<forall>e. m_peers m' pid = Some e \<longrightarrow> \<not> pe_retryingConn e)"
proof -
  have "relay_is_up pid (tu_others t0 AtRelay (tu_others t0 AtLook m1))"
    if "retry_loop api cr pid 1000 pre m = Some (None, waits, m1)" for waits m1
    using assms(5) [of waits m1] assms(1) that by (simp add: retryConnectPeer_def)
  then obtain n why m' where "retry_loop api cr pid 1000 (pre @ t0 # post) m =
      Some (Some why, map (backoff_after retry_maxBackoff) [0..<n], m')" "n \<le> length pre"
    and why: "stop_reason pid (knownPeerSet m) why"
    using retry_loop_ends [OF assms(2-4), of api 0 post] by auto
  then have "retryConnectPeer api cr pid (pre @ t0 # post) m =
      Some (Some why, map (backoff_after retry_maxBackoff) [0..<n], retry_done pid m') \<and> n \<le> length pre"
    using assms(1) by (simp add: retryConnectPeer_def)
  moreover have "\<forall>e. m_peers (retry_done pid m') pid = Some e \<longrightarrow> \<not> pe_retryingConn e"
    by (auto simp: retry_done_def)
  moreover have "case why of
       NotClient \<Rightarrow> False
     | Looked m0 \<Rightarrow> m_ctx m0 = Some True \<or> has_path pid m0
     | Connected tn m1 \<Rightarrow> \<exists>e c cert. m_peers m1 pid = Some e \<and> pe_relayConn e = Some tn \<and>
         m_tunnels m1 tn = Some \<lparr>tn_conn = c, tn_cert = cert\<rparr> \<and> nc_peerID c = pid \<and> cert \<in> knownPeerSet m"
    using why by (cases why) simp_all
  ultimately show ?thesis by blast
qed

text \<open>The sample manager, with its relay connected.\<close>

definition sample_online :: "sample_peer Manager" where
  "sample_online =
     (case m_proxies sample_manager ''https://relay'' of
        Some p \<Rightarrow>
          (case connect_established p (m_store sample_manager) of
             Some (p', st) \<Rightarrow> sample_manager\<lparr>m_proxies := (m_proxies sample_manager)(''https://relay'' \<mapsto> p'), m_store := st\<rparr>))"

lemma sample_proxy_eq:
  "m_proxies sample_manager = [''https://relay'' \<mapsto>
     \<lparr>selfID = m_selfID sample_manager, relayURL = ''https://relay'', tlsInsecure = False, writer = None,
      sessions = Map.empty, nextSID = 0, connectedCh = 0\<rparr>]"
  "m_store sample_manager = fresh_store\<lparr>sig_next := 1\<rparr>"
  by (simp_all add: sample_manager_def RegisterPeer_def manager_New_def Let_def getOrCreateProxy_def NewProxy_def
      new_signal_def fresh_store_def fun_eq_iff)

lemma sample_online_eq:
  "sample_online = sample_manager\<lparr>
     m_proxies := [''https://relay'' \<mapsto>
       \<lparr>selfID = m_selfID sample_manager, relayURL = ''https://relay'', tlsInsecure = False, writer = Some open_stream,
        sessions = Map.empty, nextSID = 0, connectedCh = 0\<rparr>],
     m_store := fresh_store\<lparr>sig_next := 1, sig_closed := (\<lambda>_. False)(0 := True)\<rparr>\<rparr>"
  by (simp add: sample_online_def sample_proxy_eq connect_established_def connect_announce_def fresh_store_def)

lemma sample_online_facts:
  "mgr_pool sample_online" "peer_accepted sample_crypto (PeerIDFromPublicKey [7]) (Some [[7]]) sample_manager"
proof -
  show "mgr_pool sample_online"
    by (auto simp: sample_online_eq mgr_pool_def pool_ok_def store_ok_def sessions_ok_def fresh_store_def)
  have "inner_handshake sample_crypto NewClientTLSConfig (Some [[7]]) sample_manager = Inr (PeerIDFromPublicKey [7])"
    by (simp add: inner_handshake_def NewClientTLSConfig_def makePeerVerifier_def knownPeerSet_def)
      (simp add: sample_crypto_def)
  then show "peer_accepted sample_crypto (PeerIDFromPublicKey [7]) (Some [[7]]) sample_manager"
    by (simp add: peer_accepted_def)
qed

text \<open>
  Two turns: the relay is down, then it comes up just before the loop looks at it, and another
  goroutine bumps the generation during the handshake.
\<close>

definition sample_interference :: "retry_point \<Rightarrow> sample_peer Manager \<Rightarrow> sample_peer Manager" where
  "sample_interference x m =
     (case x of
        AtRelay \<Rightarrow> m\<lparr>m_proxies := m_proxies sample_online, m_store := m_store sample_online\<rparr>
      | AtHandshake \<Rightarrow> relay_connected m
      | _ \<Rightarrow> m)"

theorem retry_reconnects_witness:
  "\<exists>n why m'. retryConnectPeer sample_mion sample_crypto (PeerIDFromPublicKey [7])
      [alone None, \<lparr>tu_others = sample_interference, tu_answer = Some [[7]]\<rparr>] (sample_manager\<lparr>m_ctx := Some False\<rparr>) =
      Some (Some why, map (backoff_after retry_maxBackoff) [0..<n], m') \<and> n \<le> 1 \<and>
      (\<forall>e. m_peers m' (PeerIDFromPublicKey [7]) = Some e \<longrightarrow> \<not> pe_retryingConn e)"
proof -
  let ?m = "sample_manager\<lparr>m_ctx := Some False\<rparr>" and ?p = "PeerIDFromPublicKey [7]"
  let ?t = "\<lparr>tu_others = sample_interference, tu_answer = Some [[7]]\<rparr>"
  have live: "mgr_live ?m"
    using sample_manager_pool by (simp add: mgr_live_def mgr_pool_def)
  have "others_ok ?t"
    using sample_online_facts(1)
    by (auto simp: others_ok_def sample_interference_def mgr_live_def mgr_pool_def relay_connected_def
        same_registration_def split: retry_point.splits)
  then have others: "\<forall>t \<in> set ([alone None] @ [?t]). others_ok t"
    by (simp add: others_ok_def alone_def)
  have acc: "peer_accepted sample_crypto ?p (tu_answer ?t) ?m"
    using sample_online_facts(2) by (simp add: peer_accepted_def inner_handshake_def knownPeerSet_def)
  have "retryConnectPeer sample_mion sample_crypto ?p [alone None] ?m = Some (None, [1000], ?m)"
    by (simp add: retryConnectPeer_def retry_turn_alone retry_check_def retry_look_def retry_relay_def
        getOrCreateProxy_def sample_proxy_eq IsConnected_def fresh_store_def)
  then have up: "relay_is_up ?p (tu_others ?t AtRelay (tu_others ?t AtLook m1))"
    if "retryConnectPeer sample_mion sample_crypto ?p [alone None] ?m = Some (None, waits, m1)" for waits m1
    using that by (auto simp: relay_is_up_def sample_interference_def sample_online_eq IsConnected_def)
  have "\<exists>n why m'. retryConnectPeer sample_mion sample_crypto ?p ([alone None] @ ?t # []) ?m =
      Some (Some why, map (backoff_after retry_maxBackoff) [0..<n], m') \<and> n \<le> length [alone None :: sample_peer turn] \<and>
    (case why of
       NotClient \<Rightarrow> False
     | Looked m0 \<Rightarrow> m_ctx m0 = Some True \<or> has_path ?p m0
     | Connected tn m1 \<Rightarrow> \<exists>e c cert. m_peers m1 ?p = Some e \<and> pe_relayConn e = Some tn \<and>
         m_tunnels m1 tn = Some \<lparr>tn_conn = c, tn_cert = cert\<rparr> \<and> nc_peerID c = ?p \<and> cert \<in> knownPeerSet ?m) \<and>
    (\<forall>e. m_peers m' ?p = Some e \<longrightarrow> \<not> pe_retryingConn e)"
    by (rule retry_reconnects [OF _ live others acc]) (simp, erule up)
  then show ?thesis by auto
qed

end
