(* ===== verification/Interleave.thy ===== *)
theory Interleave
  imports Prelude
begin

text \<open>
  Goroutines over a shared state. A goroutine is a value that says where it stands; one action of
  it, between two points at which others may run, gives what follows: it panics, it blocks (for
  this event), or it goes on as some goroutines (itself, those that it starts, none at its end) in
  a new state. Runs pick any goroutine and any event at each step. The locale carries an invariant
  from single actions to runs.
\<close>

datatype ('t, 's) outcome = Panics | Blocks | Goes "'t list" 's

inductive pool_step :: "('e \<Rightarrow> 't \<Rightarrow> 's \<Rightarrow> ('t, 's) outcome) \<Rightarrow> 't list \<times> 's \<Rightarrow> 't list \<times> 's \<Rightarrow> bool"
  for act :: "'e \<Rightarrow> 't \<Rightarrow> 's \<Rightarrow> ('t, 's) outcome"
  where
  pool_act: "act e t s = Goes new s' \<Longrightarrow> pool_step act (ts1 @ t # ts2, s) (ts1 @ new @ ts2, s')"

inductive_cases pool_stepE: "pool_step act (ts, s) (ts', s')"

definition pool_runs :: "('e \<Rightarrow> 't \<Rightarrow> 's \<Rightarrow> ('t, 's) outcome) \<Rightarrow> 't list \<times> 's \<Rightarrow> 't list \<times> 's \<Rightarrow> bool" where
  "pool_runs act = (pool_step act)\<^sup>*\<^sup>*"

text \<open>A run with a given schedule: which goroutine acts, by its position, and on which event.\<close>

fun pool_exec ::
  "('e \<Rightarrow> 't \<Rightarrow> 's \<Rightarrow> ('t, 's) outcome) \<Rightarrow> (nat \<times> 'e) list \<Rightarrow> 't list \<Rightarrow> 's \<Rightarrow> ('t, 's) outcome" where
  "pool_exec act [] ts s = Goes ts s"
| "pool_exec act ((i, e) # sched) ts s =
     (if i < length ts then
        (case act e (ts ! i) s of
           Panics \<Rightarrow> Panics
         | Blocks \<Rightarrow> Blocks
         | Goes new s' \<Rightarrow> pool_exec act sched (take i ts @ new @ drop (Suc i) ts) s')
      else Blocks)"

lemma pool_exec_append:
  "pool_exec act (s1 @ s2) ts s =
     (case pool_exec act s1 ts s of Goes ts' s' \<Rightarrow> pool_exec act s2 ts' s' | out \<Rightarrow> out)"
  by (induction act s1 ts s rule: pool_exec.induct) (auto split: outcome.splits)

lemma pool_exec_runs: "pool_exec act sched ts s = Goes ts' s' \<Longrightarrow> pool_runs act (ts, s) (ts', s')"
proof (induction sched arbitrary: ts s)
  case (Cons ie sched)
  obtain i e where ie: "ie = (i, e)"
    by fastforce
  obtain new s1 where "i < length ts" "act e (ts ! i) s = Goes new s1"
    and rest: "pool_exec act sched (take i ts @ new @ drop (Suc i) ts) s1 = Goes ts' s'"
    using Cons.prems by (auto simp: ie split: if_splits outcome.splits)
  then have "pool_step act (ts, s) (take i ts @ new @ drop (Suc i) ts, s1)"
    using pool_act [of act e "ts ! i" s new s1 "take i ts" "drop (Suc i) ts"] by (simp add: id_take_nth_drop [symmetric])
  then show ?case
    using Cons.IH [OF rest] by (auto simp: pool_runs_def)
qed (simp add: pool_runs_def)

text \<open>What some schedule leads to, built up from the front.\<close>

definition executes ::
  "('e \<Rightarrow> 't \<Rightarrow> 's \<Rightarrow> ('t, 's) outcome) \<Rightarrow> 't list \<Rightarrow> 's \<Rightarrow> ('t, 's) outcome \<Rightarrow> bool" where
  "executes act ts s out \<longleftrightarrow> (\<exists>sched. pool_exec act sched ts s = out)"

lemma executes_refl: "executes act ts s (Goes ts s)"
  unfolding executes_def by (rule exI [of _ "[]"]) simp

lemma executes_at:
  assumes "act e t s = Goes new s'" "executes act (ts1 @ new @ ts2) s' out"
  shows "executes act (ts1 @ t # ts2) s out"
proof -
  obtain sched where "pool_exec act sched (ts1 @ new @ ts2) s' = out"
    using assms(2) by (auto simp: executes_def)
  then have "pool_exec act ((length ts1, e) # sched) (ts1 @ t # ts2) s = out"
    using assms(1) by simp
  then show ?thesis unfolding executes_def by blast
qed

lemmas executes_first = executes_at [of _ _ _ _ _ _ "[]", simplified]
lemmas executes_only = executes_first [of _ _ _ _ _ _ "[]", simplified]

lemma executes_once: "act e t s = out \<Longrightarrow> out \<noteq> Blocks \<Longrightarrow> executes act [t] s out"
  unfolding executes_def by (rule exI [of _ "[(0, e)]"]) (cases out; simp)

lemma executes_trans: "executes act ts s (Goes ts' s') \<Longrightarrow> executes act ts' s' out \<Longrightarrow> executes act ts s out"
  unfolding executes_def by (auto simp: pool_exec_append) (metis outcome.simps(10) pool_exec_append)

lemma executes_runs: "executes act ts s (Goes ts' s') \<Longrightarrow> pool_runs act (ts, s) (ts', s')"
  by (auto simp: executes_def dest: pool_exec_runs)

text \<open>
  An invariant of the goroutines and the state that every action keeps, whatever the others are.
\<close>

locale pool_invariant =
  fixes act :: "'e \<Rightarrow> 't \<Rightarrow> 's \<Rightarrow> ('t, 's) outcome" and inv :: "'t list \<Rightarrow> 's \<Rightarrow> bool"
  assumes kept: "act e t s = Goes new s' \<Longrightarrow> inv (ts1 @ t # ts2) s \<Longrightarrow> inv (ts1 @ new @ ts2) s'"
begin

lemma step: "pool_step act x y \<Longrightarrow> inv (fst x) (snd x) \<Longrightarrow> inv (fst y) (snd y)"
  by (induction rule: pool_step.induct) (auto intro: kept)

lemma run: "pool_runs act (ts, s) (ts', s') \<Longrightarrow> inv ts s \<Longrightarrow> inv ts' s'"
  unfolding pool_runs_def
  by (induction rule: rtranclp_induct2) (auto dest: step)

end

text \<open>
  The two forms in which the invariants come: a property of every single goroutine and the state
  that the others keep, and a number of goroutines that the state accounts for.
\<close>

locale pool_local =
  fixes act :: "'e \<Rightarrow> 't \<Rightarrow> 's \<Rightarrow> ('t, 's) outcome" and loc :: "'t \<Rightarrow> 's \<Rightarrow> bool" and glob :: "'s \<Rightarrow> bool"
  assumes own: "act e t s = Goes new s' \<Longrightarrow> glob s \<Longrightarrow> loc t s \<Longrightarrow> glob s' \<and> (\<forall>u \<in> set new. loc u s')"
    and stable: "act e t s = Goes new s' \<Longrightarrow> glob s \<Longrightarrow> loc t s \<Longrightarrow> loc u s \<Longrightarrow> loc u s'"
sublocale pool_local \<subseteq> all: pool_invariant act "\<lambda>ts s. glob s \<and> (\<forall>t \<in> set ts. loc t s)"
  by unfold_locales (use own stable in auto)

context pool_local
begin

lemma local_run:
  "pool_runs act (ts, s) (ts', s') \<Longrightarrow> glob s \<Longrightarrow> \<forall>t \<in> set ts. loc t s \<Longrightarrow> glob s' \<and> (\<forall>t \<in> set ts'. loc t s')"
  using all.run by blast

end

locale pool_count =
  fixes act :: "'e \<Rightarrow> 't \<Rightarrow> 's \<Rightarrow> ('t, 's) outcome" and mine :: "'t \<Rightarrow> bool"
    and ok :: "'s \<Rightarrow> bool" and number :: "'s \<Rightarrow> nat"
  assumes ok_kept: "act e t s = Goes new s' \<Longrightarrow> ok s \<Longrightarrow> ok s'"
    and balance: "act e t s = Goes new s' \<Longrightarrow> ok s \<Longrightarrow> length (filter mine [t]) \<le> number s \<Longrightarrow>
      number s + length (filter mine new) = number s' + length (filter mine [t])"

sublocale pool_count \<subseteq> counted: pool_invariant act "\<lambda>ts s. ok s \<and> length (filter mine ts) = number s"
proof unfold_locales
  fix e t s new s' ts1 ts2
  assume a: "act e t s = Goes new s'" "ok s \<and> length (filter mine (ts1 @ t # ts2)) = number s"
  then show "ok s' \<and> length (filter mine (ts1 @ new @ ts2)) = number s'"
    using ok_kept [OF a(1)] balance [OF a(1)] by (simp split: if_splits)
qed

end
