(* ===== verification/Goroutines.thy ===== *)
theory Goroutines
  imports Retry Interleave
begin

text \<open>
  \<open>internal/manager/manager.go\<close>, concurrent part: every goroutine of the manager as a state
  machine whose single action is one critical section (or one operation on a connection or on the
  peer object), and all of them interleaved over the state of the theory \<open>Manager\<close>. What the
  network and the other nodes do arrives as events. \<open>sendCandidates\<close> runs in a goroutine of its
  own but only reads the state, so it has no place here.
\<close>

section \<open>Goroutines and events\<close>

text \<open>
  The two goroutines of a relay connection: \<open>proxy.Connect\<close>, whose points and moves are those of
  theory \<open>H2Proxy\<close>, and \<open>relayConnectLoop\<close>, which waits for it (\<open>connectDone\<close> holds a value exactly
  when the former is done).
\<close>

datatype loop_phase =
    LoopStart bool int | LoopSelect int | LoopConnected | LoopRetries "peer_id list" | LoopWait | LoopSleep int | LoopEnd

text \<open>\<open>retryConnectPeer\<close> and the \<open>connectPeerWithCtx\<close> in it, by the point that is reached.\<close>

datatype retry_g =
    RetryStart peer_id | RetryLook peer_id int | RetryRelay peer_id int string | RetryAttempt peer_id int
  | RetryHandshake peer_id int EnvelopeNetConn | RetrySleep peer_id int | RetryExit peer_id

text \<open>
  \<open>acceptLoop\<close>, \<open>handleIncoming\<close>, \<open>forwardConnToTUN\<close>; the end of \<open>connectPeerWithCtx\<close> is that of
  \<open>handleIncoming\<close>, and the flag tells that a retry goroutine runs it.
\<close>

datatype tunnel_g =
    AcceptLoop | Incoming EnvelopeNetConn | IncomingHandshake EnvelopeNetConn
  | CloseOld bool peer_id nat "nat option" | Activate bool peer_id nat | RelayForward peer_id nat

text \<open>
  \<open>controlLoop\<close>, \<open>controlReadLoop\<close>, \<open>validateCandidates\<close> and the goroutines it starts: about to fix the
  deadline, at the head of the loop for the first time, in an attempt, between two attempts, and about
  to put the address into cooldown. The clock is read anew at each of these points.
\<close>

datatype probe_g =
    ControlLoop | ControlRead peer_id nat | Validate peer_id "CandidateInfo list"
  | Probe peer_id addrport | ProbeFirst peer_id addrport int | Probing peer_id addrport int
  | ProbeSleep peer_id addrport int | ProbeCool addrport

text \<open>
  \<open>probeAcceptLoop\<close>, \<open>handleDirectConnect\<close>, \<open>tryPromotePath\<close>, \<open>forwardDirectConnToTUN\<close>,
  \<open>fallbackToRelay\<close>.
\<close>

datatype direct_g =
    DirectAccept | DirectInbound peer_id nat | Promote peer_id | Dialing peer_id | Dialed peer_id nat
  | ActivateDirect peer_id nat | DirectForward peer_id nat
  | Fallback peer_id | FallbackProxy peer_id | FallbackRestore peer_id nat
  | FallbackTake peer_id | FallbackClose peer_id "nat option" | FallbackRetry peer_id

text \<open>\<open>GMain\<close> is the caller of \<open>Run\<close>, which cancels the context.\<close>

datatype goroutine =
  GMain | GRelay string connect_pc loop_phase | GRetry retry_g | GTunnel tunnel_g | GProbe probe_g | GDirect direct_g

datatype event =
    Go | Cancelled | At int
  | RelayIn connect_in | SeesConnected | MapOrder "peer_id list"
  | HandshakeEnds "bytes list option" | DialEnds bool | ProbeEnds "ValidatedTransport option"
  | Packet bytes | ConnFails | Control bytes | Inbound peer_id | ListenerFails

type_synonym 'p result = "(goroutine, 'p Manager) outcome"

abbreviation ended :: "'p Manager \<Rightarrow> 'p result" where
  "ended m \<equiv> Goes [] m"

definition on_go :: "event \<Rightarrow> 'p result \<Rightarrow> 'p result" where
  "on_go e out = (if e = Go then out else Blocks)"

definition ctx_done :: "'p Manager \<Rightarrow> bool" where
  "ctx_done m \<longleftrightarrow> m_ctx m = Some True"

text \<open>A wait that also ends when the context is done.\<close>

definition or_cancelled :: "event \<Rightarrow> 'p Manager \<Rightarrow> goroutine list \<Rightarrow> 'p result \<Rightarrow> 'p result" where
  "or_cancelled e m stop out = (if e = Cancelled then (if ctx_done m then Goes stop m else Blocks) else out)"

section \<open>Relay connection\<close>

definition with_proxy ::
  "string \<Rightarrow> 'p Manager \<Rightarrow> (InternalProxy \<Rightarrow> h2store \<Rightarrow> (InternalProxy \<times> h2store) option) \<Rightarrow>
   goroutine list \<Rightarrow> 'p result" where
  "with_proxy url m f next =
     (case m_proxies m url of
        None \<Rightarrow> Blocks
      | Some p \<Rightarrow>
          (case f p (m_store m) of
             None \<Rightarrow> Panics
           | Some (p', st) \<Rightarrow> Goes next (m\<lparr>m_proxies := (m_proxies m)(url \<mapsto> p'), m_store := st\<rparr>)))"

text \<open>The goroutine of \<open>proxy.Connect\<close>.\<close>

definition connect_act :: "event \<Rightarrow> string \<Rightarrow> connect_pc \<Rightarrow> loop_phase \<Rightarrow> 'p Manager \<Rightarrow> 'p result" where
  "connect_act e url c l m =
     (case e of
        RelayIn i \<Rightarrow>
          (case m_proxies m url of
             None \<Rightarrow> Blocks
           | Some p \<Rightarrow>
               (case connect_next i c p (m_store m) of
                  ConnPanics \<Rightarrow> Panics
                | ConnWaits \<Rightarrow> Blocks
                | ConnMoves c' p' st \<Rightarrow>
                    Goes [GRelay url c' l] (m\<lparr>m_proxies := (m_proxies m)(url \<mapsto> p'), m_store := st\<rparr>)))
      | _ \<Rightarrow> Blocks)"

definition relay_is_connected :: "string \<Rightarrow> 'p Manager \<Rightarrow> bool" where
  "relay_is_connected url m \<longleftrightarrow>
     (case m_proxies m url of None \<Rightarrow> False | Some p \<Rightarrow> sig_closed (m_store m) (connectedCh p))"

text \<open>\<open>err := <-connectDone\<close>, then the test of the context.\<close>

definition connect_returned :: "string \<Rightarrow> connect_pc \<Rightarrow> int \<Rightarrow> 'p Manager \<Rightarrow> 'p result" where
  "connect_returned url c backoff m =
     (if c \<noteq> ConnDone then Blocks
      else Goes [GRelay url ConnIdle (if ctx_done m then LoopEnd else LoopSleep backoff)] m)"

definition relay_peers :: "peer_id list \<Rightarrow> string \<Rightarrow> 'p Manager \<Rightarrow> peer_id list" where
  "relay_peers order url m =
     filter (\<lambda>pid. case m_peers m pid of None \<Rightarrow> False | Some e \<Rightarrow> pe_relayURL e = url) order"

fun loop_act :: "event \<Rightarrow> string \<Rightarrow> connect_pc \<Rightarrow> loop_phase \<Rightarrow> 'p Manager \<Rightarrow> 'p result" where
  "loop_act e url c (LoopStart first backoff) m =
     on_go e
       (if first then Goes [GRelay url ConnDialing (LoopSelect backoff)] m
        else with_proxy url m (\<lambda>p st. Some (Reset p st)) [GRelay url ConnDialing (LoopSelect backoff)])"
| "loop_act e url c (LoopSelect backoff) m =
     or_cancelled e m [GRelay url c LoopEnd]
       (if e = SeesConnected then
          (if relay_is_connected url m then Goes [GRelay url c LoopConnected] (relay_connected m) else Blocks)
        else on_go e (connect_returned url c backoff m))"
| "loop_act e url c LoopConnected m =
     (case e of
        MapOrder order \<Rightarrow>
          if set order = dom (m_peers m) \<and> distinct order then
            Goes [GRelay url c (if m_role m \<noteq> Some ''client'' then LoopWait
                                else LoopRetries (relay_peers order url m))] (clear_relay_conns url m)
          else Blocks
      | _ \<Rightarrow> Blocks)"
| "loop_act e url c (LoopRetries ids) m =
     on_go e
       (case ids of
          [] \<Rightarrow> Goes [GRelay url c LoopWait] m
        | pid # rest \<Rightarrow>
            (case start_retries [pid] m of
               (started, m') \<Rightarrow> Goes (map (\<lambda>p. GRetry (RetryStart p)) started @ [GRelay url c (LoopRetries rest)]) m'))"
| "loop_act e url c LoopWait m =
     or_cancelled e m [GRelay url c LoopEnd] (on_go e (connect_returned url c 1000 m))"
| "loop_act e url c (LoopSleep backoff) m =
     or_cancelled e m [GRelay url c LoopEnd]
       (on_go e (Goes [GRelay url c (LoopStart False (next_backoff relay_maxBackoff backoff))] m))"
| "loop_act e url c LoopEnd m = Blocks"

definition relay_act :: "event \<Rightarrow> string \<Rightarrow> connect_pc \<Rightarrow> loop_phase \<Rightarrow> 'p Manager \<Rightarrow> 'p result" where
  "relay_act e url c l m = (case connect_act e url c l m of Blocks \<Rightarrow> loop_act e url c l m | out \<Rightarrow> out)"

section \<open>Reconnection of a peer\<close>

text \<open>
  What follows the inner handshake in \<open>connectPeerWithCtx\<close> (with \<open>retry\<close>) and in
  \<open>handleIncoming\<close>; \<open>failed\<close> is where the goroutine goes on when it has failed.
\<close>

definition after_close :: "'p Manager option \<Rightarrow> goroutine list \<Rightarrow> 'p result" where
  "after_close res next = (case res of None \<Rightarrow> Panics | Some m \<Rightarrow> Goes next m)"

definition after_handshake ::
  "bool \<Rightarrow> EnvelopeNetConn \<Rightarrow> peer_id \<Rightarrow> manager_err + peer_id \<Rightarrow> goroutine list \<Rightarrow> 'p Manager \<Rightarrow> 'p result" where
  "after_handshake retry c pid res failed m =
     (case res of
        Inl _ \<Rightarrow> after_close (close_session c m) failed
      | Inr cert \<Rightarrow>
          (case install_tunnel pid c cert m of (t, old, m') \<Rightarrow> Goes [GTunnel (CloseOld retry pid t old)] m'))"

fun retry_act :: "crypto_api \<Rightarrow> event \<Rightarrow> retry_g \<Rightarrow> 'p Manager \<Rightarrow> 'p result" where
  "retry_act cr e (RetryStart pid) m =
     on_go e
       (if m_role m \<noteq> None \<and> m_role m \<noteq> Some ''client'' then Goes [GRetry (RetryExit pid)] m
        else Goes [GRetry (RetryLook pid 1000)] m)"
| "retry_act cr e (RetryLook pid backoff) m =
     on_go e
       (if m_ctx m = None then Panics
        else case retry_look pid m of
          None \<Rightarrow> Goes [GRetry (RetryExit pid)] m
        | Some url \<Rightarrow> Goes [GRetry (RetryRelay pid backoff url)] m)"
| "retry_act cr e (RetryRelay pid backoff url) m =
     on_go e
       (case retry_relay url m of
          (up, m') \<Rightarrow> Goes [GRetry (if up then RetryAttempt pid backoff else RetrySleep pid backoff)] m')"
| "retry_act cr e (RetryAttempt pid backoff) m =
     on_go e
       (case connect_begin pid m of
          Inl _ \<Rightarrow> Goes [GRetry (RetrySleep pid backoff)] m
        | Inr (c, m') \<Rightarrow> Goes [GRetry (RetryHandshake pid backoff c)] m')"
| "retry_act cr e (RetryHandshake pid backoff c) m =
     (case e of
        HandshakeEnds remote \<Rightarrow>
          after_handshake True c pid (inner_handshake cr NewClientTLSConfig remote m) [GRetry (RetrySleep pid backoff)] m
      | _ \<Rightarrow> Blocks)"
| "retry_act cr e (RetrySleep pid backoff) m =
     or_cancelled e m [GRetry (RetryExit pid)]
       (on_go e (Goes [GRetry (RetryLook pid (next_backoff retry_maxBackoff backoff))] m))"
| "retry_act cr e (RetryExit pid) m = on_go e (ended (retry_done pid m))"

section \<open>Incoming sessions and tunnels\<close>

fun tunnel_act :: "'p mion_api \<Rightarrow> crypto_api \<Rightarrow> event \<Rightarrow> tunnel_g \<Rightarrow> 'p Manager \<Rightarrow> 'p result" where
  "tunnel_act api cr e AcceptLoop m =
     or_cancelled e m []
       (on_go e
          (case try_recv (acceptCh (m_store m)) of
             (Received c, ch) \<Rightarrow>
               Goes [GTunnel AcceptLoop, GTunnel (Incoming c)] (m\<lparr>m_store := (m_store m)\<lparr>acceptCh := ch\<rparr>\<rparr>)
           | (RecvClosed, _) \<Rightarrow> ended m
           | (RecvBlocks, _) \<Rightarrow> Blocks))"
| "tunnel_act api cr e (Incoming c) m =
     on_go e
       (case m_peers m (nc_peerID c) of
          None \<Rightarrow> after_close (close_session c m) []
        | Some _ \<Rightarrow> Goes [GTunnel (IncomingHandshake c)] m)"
| "tunnel_act api cr e (IncomingHandshake c) m =
     (case e of
        HandshakeEnds remote \<Rightarrow>
          after_handshake False c (nc_peerID c) (inner_handshake cr NewServerTLSConfig remote m) [] m
      | _ \<Rightarrow> Blocks)"
| "tunnel_act api cr e (CloseOld retry pid t old) m =
     on_go e (after_close (close_tunnel old m) [GTunnel (Activate retry pid t)])"
| "tunnel_act api cr e (Activate retry pid t) m =
     on_go e
       (Goes ([GTunnel (RelayForward pid t), GProbe (ControlRead pid t)] @ (if retry then [GRetry (RetryExit pid)] else []))
          (set_conn api pid (RelayConn t) m))"
| "tunnel_act api cr e (RelayForward pid t) m =
     (if m_role m = None then ended m
      else case e of
        Packet pkt \<Rightarrow> Goes [GTunnel (RelayForward pid t)] (snd (forward_packets api pid [pkt] m))
      | ConnFails \<Rightarrow> ended (clear_conn_if api pid (RelayConn t) m)
      | _ \<Rightarrow> Blocks)"

section \<open>Candidates and probes\<close>

text \<open>
  The head of the probing loop, at time \<open>now\<close>; \<open>failed\<close> tells that an attempt has failed (\<open>lastErr\<close>
  is not nil). When the deadline has passed before the first attempt, neither \<open>lastErr\<close> nor \<open>result\<close> is
  set: the code takes the probe for a success and dereferences the nil \<open>result\<close>.
\<close>

definition probe_head :: "int \<Rightarrow> bool \<Rightarrow> peer_id \<Rightarrow> addrport \<Rightarrow> int \<Rightarrow> 'p Manager \<Rightarrow> 'p result" where
  "probe_head now failed pid addr deadline m =
     (if \<not> now < deadline then (if failed then Goes [GProbe (ProbeCool addr)] m else Panics)
      else if ctx_done m then ended m
      else if has_direct pid m then ended m
      else Goes [GProbe (Probing pid addr deadline)] m)"

definition control_act ::
  "(bytes \<Rightarrow> control_Message option) \<Rightarrow> probe_g \<Rightarrow> ControlMessage \<Rightarrow> 'p Manager \<Rightarrow> 'p result" where
  "control_act decode loop msg m =
     (case handleControl decode msg of
        None \<Rightarrow> Goes [GProbe loop] m
      | Some (pid, ctrlMsg) \<Rightarrow>
          Goes ([GProbe loop] @ (if m_ctx m = None then [] else [GProbe (Validate pid (msg_Candidates ctrlMsg))])) m)"

text \<open>A probe that succeeds: \<open>m.mion.Role()\<close> is called without a test for nil.\<close>

definition probe_ok :: "peer_id \<Rightarrow> addrport \<Rightarrow> ValidatedTransport \<Rightarrow> 'p Manager \<Rightarrow> 'p result" where
  "probe_ok pid addr vt m =
     (let m' = probe_succeeded pid addr vt m in
      case m_role m' of
        None \<Rightarrow> Panics
      | Some role \<Rightarrow> Goes (if role = ''client'' then [GDirect (Promote pid)] else []) m')"

fun probe_act :: "(bytes \<Rightarrow> control_Message option) \<Rightarrow> event \<Rightarrow> probe_g \<Rightarrow> 'p Manager \<Rightarrow> 'p result" where
  "probe_act decode e ControlLoop m =
     or_cancelled e m []
       (on_go e
          (case try_recv (controlCh (m_store m)) of
             (Received msg, ch) \<Rightarrow> control_act decode ControlLoop msg (m\<lparr>m_store := (m_store m)\<lparr>controlCh := ch\<rparr>\<rparr>)
           | (RecvClosed, _) \<Rightarrow> ended m
           | (RecvBlocks, _) \<Rightarrow> Blocks))"
| "probe_act decode e (ControlRead pid t) m =
     (case e of
        Control payload \<Rightarrow> control_act decode (ControlRead pid t) \<lparr>cm_SrcPeerID = pid, cm_Payload = payload\<rparr> m
      | _ \<Rightarrow> Blocks)"
| "probe_act decode e (Validate pid cis) m =
     (case e of
        At now \<Rightarrow>
          (case cis of
             [] \<Rightarrow> ended m
           | ci # rest \<Rightarrow>
               Goes (GProbe (Validate pid rest) #
                 (case validate_candidate now pid ci m of None \<Rightarrow> [] | Some addr \<Rightarrow> [GProbe (Probe pid addr)])) m)
      | _ \<Rightarrow> Blocks)"
| "probe_act decode e (Probe pid addr) m =
     (case e of
        At now \<Rightarrow> if m_directLn m = None then ended m else Goes [GProbe (ProbeFirst pid addr (now + 30000))] m
      | _ \<Rightarrow> Blocks)"
| "probe_act decode e (ProbeFirst pid addr deadline) m =
     (case e of At now \<Rightarrow> probe_head now False pid addr deadline m | _ \<Rightarrow> Blocks)"
| "probe_act decode e (Probing pid addr deadline) m =
     (case e of
        ProbeEnds (Some vt) \<Rightarrow> probe_ok pid addr vt m
      | ProbeEnds None \<Rightarrow> Goes [GProbe (ProbeSleep pid addr deadline)] m
      | _ \<Rightarrow> Blocks)"
| "probe_act decode e (ProbeSleep pid addr deadline) m =
     or_cancelled e m [] (case e of At now \<Rightarrow> probe_head now True pid addr deadline m | _ \<Rightarrow> Blocks)"
| "probe_act decode e (ProbeCool addr) m = (case e of At now \<Rightarrow> ended (probe_failed now addr m) | _ \<Rightarrow> Blocks)"

section \<open>Direct paths\<close>

definition after_fallback :: "peer_id \<Rightarrow> bool \<times> 'p Manager \<Rightarrow> 'p result" where
  "after_fallback pid res =
     (case res of
        (False, m) \<Rightarrow> ended m
      | (True, m) \<Rightarrow>
          (case m_role m of
             None \<Rightarrow> Panics
           | Some role \<Rightarrow> Goes [GDirect (if role = ''client'' then FallbackTake pid else FallbackProxy pid)] m))"

fun direct_act :: "'p mion_api \<Rightarrow> event \<Rightarrow> direct_g \<Rightarrow> 'p Manager \<Rightarrow> 'p result" where
  "direct_act api e DirectAccept m =
     (case e of
        Inbound pid \<Rightarrow> (case new_direct pid m of (d, m') \<Rightarrow> Goes [GDirect DirectAccept, GDirect (DirectInbound pid d)] m')
      | ListenerFails \<Rightarrow> ended m
      | _ \<Rightarrow> Blocks)"
| "direct_act api e (DirectInbound pid d) m =
     on_go e
       (case m_peers m pid of
          None \<Rightarrow> ended (close_direct d m)
        | Some _ \<Rightarrow> Goes [GDirect (ActivateDirect pid d)] (set_direct True pid m))"
| "direct_act api e (Promote pid) m =
     on_go e
       (if m_directLn m = None then ended m
        else case promote_check pid m of
          None \<Rightarrow> Panics
        | Some go \<Rightarrow> Goes (if go then [GDirect (Dialing pid)] else []) m)"
| "direct_act api e (Dialing pid) m =
     (case e of
        DialEnds ok \<Rightarrow>
          if ok then (case new_direct pid m of (d, m') \<Rightarrow> Goes [GDirect (Dialed pid d)] m') else ended m
      | _ \<Rightarrow> Blocks)"
| "direct_act api e (Dialed pid d) m =
     on_go e
       (case promote_commit pid d m of (won, m') \<Rightarrow> Goes (if won then [GDirect (ActivateDirect pid d)] else []) m')"
| "direct_act api e (ActivateDirect pid d) m =
     on_go e (Goes [GDirect (DirectForward pid d)] (set_conn api pid (DirectConn d) m))"
| "direct_act api e (DirectForward pid d) m =
     (if m_role m = None then ended m
      else case e of
        Packet pkt \<Rightarrow> Goes [GDirect (DirectForward pid d)] (snd (forward_packets api pid [pkt] m))
      | ConnFails \<Rightarrow> Goes [GDirect (Fallback pid)] (clear_conn_if api pid (DirectConn d) m)
      | _ \<Rightarrow> Blocks)"
| "direct_act api e (Fallback pid) m = on_go e (after_fallback pid (fallback_begin pid m))"
| "direct_act api e (FallbackProxy pid) m =
     on_go e
       (case m_peers m pid of
          None \<Rightarrow> Panics
        | Some entry \<Rightarrow>
            Goes (case pe_relayConn entry of None \<Rightarrow> [] | Some t \<Rightarrow> [GDirect (FallbackRestore pid t)]) m)"
| "direct_act api e (FallbackRestore pid t) m = on_go e (ended (set_conn api pid (RelayConn t) m))"
| "direct_act api e (FallbackTake pid) m =
     on_go e (case fallback_take pid m of (old, m') \<Rightarrow> Goes [GDirect (FallbackClose pid old)] m')"
| "direct_act api e (FallbackClose pid old) m =
     on_go e (after_close (close_tunnel old m) [GDirect (FallbackRetry pid)])"
| "direct_act api e (FallbackRetry pid) m =
     on_go e (case fallback_retry pid m of (start, m') \<Rightarrow> Goes (if start then [GRetry (RetryStart pid)] else []) m')"

section \<open>The manager\<close>

text \<open>What is outside of the manager: mion, the TLS library and the codec of control messages.\<close>

record 'p world =
  w_mion :: "'p mion_api"
  w_crypto :: crypto_api
  w_decode :: "bytes \<Rightarrow> control_Message option"

fun mgr_act :: "'p world \<Rightarrow> event \<Rightarrow> goroutine \<Rightarrow> 'p Manager \<Rightarrow> 'p result" where
  "mgr_act w e GMain m = (if e = Cancelled then ended (m\<lparr>m_ctx := Some True\<rparr>) else Blocks)"
| "mgr_act w e (GRelay url c l) m = relay_act e url c l m"
| "mgr_act w e (GRetry g) m = retry_act (w_crypto w) e g m"
| "mgr_act w e (GTunnel g) m = tunnel_act (w_mion w) (w_crypto w) e g m"
| "mgr_act w e (GProbe g) m = probe_act (w_decode w) e g m"
| "mgr_act w e (GDirect g) m = direct_act (w_mion w) e g m"

text \<open>
  \<open>Run\<close>: the port of the direct listener if it could be opened, and the proxies in the order in
  which Go visits the map.
\<close>

definition manager_Run :: "u16 option \<Rightarrow> string list \<Rightarrow> 'p Manager \<Rightarrow> goroutine list \<times> 'p Manager" where
  "manager_Run port urls m =
     (GMain # (if port = None then [] else [GDirect DirectAccept]) @ [GTunnel AcceptLoop, GProbe ControlLoop] @
      map (\<lambda>url. GRelay url ConnIdle (LoopStart True 1000)) urls,
      m\<lparr>m_ctx := Some False, m_directLn := port\<rparr>)"

end
