(* ===== verification/Coordination.thy ===== *)
theory Coordination
  imports Goroutines
begin

text \<open>
  What the manager's goroutines guarantee together, in every interleaving: invariants of the state
  and of the goroutines that run.
\<close>

section \<open>Single actions\<close>

lemmas event_guards = on_go_def or_cancelled_def ctx_done_def

text \<open>Actions that an entry can see: the peers stay the same, the fields of entries change.\<close>

definition retrying :: "peer_id \<Rightarrow> 'p Manager \<Rightarrow> bool" where
  "retrying pid m = (case m_peers m pid of None \<Rightarrow> False | Some e \<Rightarrow> pe_retryingConn e)"

text \<open>What the primitive operations do to the entries.\<close>

lemma entries_simps [simp]:
  "m_peers (set_conn api q c m) = (m_peers m)(q := map_option (\<lambda>e. e\<lparr>pe_peer := SetConn api c (pe_peer e)\<rparr>) (m_peers m q))"
  "m_peers (clear_conn_if api q c m) = (m_peers m)(q := map_option (\<lambda>e. e\<lparr>pe_peer := ClearConnIf api c (pe_peer e)\<rparr>) (m_peers m q))"
  "m_peers (set_direct b q m) = (m_peers m)(q := map_option (\<lambda>e. e\<lparr>pe_hasDirectPath := b\<rparr>) (m_peers m q))"
  "m_peers (retry_done q m) = (m_peers m)(q := map_option (\<lambda>e. e\<lparr>pe_retryingConn := False\<rparr>) (m_peers m q))"
  "m_peers (snd (forward_packets api q pkts m)) =
     (m_peers m)(q := map_option (\<lambda>e. e\<lparr>pe_peer := snd (forward_all api pkts (pe_peer e))\<rparr>) (m_peers m q))"
  "m_peers (close_direct d m) = m_peers m"
  "m_peers (probe_failed now addr m) = m_peers m"
  "m_peers (probe_succeeded q addr vt m) = m_peers m"
  "m_peers (relay_connected m) = m_peers m"
  by (auto simp: set_conn_def clear_conn_if_def set_direct_def retry_done_def forward_packets_def close_direct_def
      probe_failed_def probe_succeeded_def relay_connected_def split: option.splits prod.splits)

lemma retrying_simps [simp]:
  "retrying pid (clear_relay_conns url m) = retrying pid m"
  "retrying pid (set_conn api q c m) = retrying pid m"
  "retrying pid (clear_conn_if api q c m) = retrying pid m"
  "retrying pid (set_direct b q m) = retrying pid m"
  "retrying pid (snd (forward_packets api q pkts m)) = retrying pid m"
  "retrying pid (close_direct d m) = retrying pid m"
  "retrying pid (relay_connected m) = retrying pid m"
  "retrying pid (m\<lparr>m_ctx := x\<rparr>) = retrying pid m"
  by (auto simp: retrying_def clear_relay_conns_def split: option.splits)

lemma with_proxy_Goes:
  "with_proxy url m f new = Goes new' m' \<longleftrightarrow>
     new' = new \<and> (\<exists>p p' st. m_proxies m url = Some p \<and> f p (m_store m) = Some (p', st) \<and>
       m' = m\<lparr>m_proxies := (m_proxies m)(url \<mapsto> p'), m_store := st\<rparr>)"
  by (auto simp: with_proxy_def split: option.splits)

lemma after_close_Goes: "after_close res new = Goes new' m' \<longleftrightarrow> new' = new \<and> res = Some m'"
  by (auto simp: after_close_def split: option.splits)

lemma on_go_Goes: "on_go e out = Goes new m \<longleftrightarrow> e = Go \<and> out = Goes new m"
  by (simp add: on_go_def)

lemma or_cancelled_Goes:
  "or_cancelled e m stop out = Goes new m' \<longleftrightarrow>
     (if e = Cancelled then m_ctx m = Some True \<and> new = stop \<and> m' = m else out = Goes new m')"
  by (auto simp: or_cancelled_def ctx_done_def)

lemmas Goes_iffs = with_proxy_Goes after_close_Goes on_go_Goes or_cancelled_Goes

lemma same_peers:
  "retry_relay url m = (up, m') \<Longrightarrow> m_peers m' = m_peers m"
  "connect_begin pid m = Inr (c, m') \<Longrightarrow> m_peers m' = m_peers m"
  "close_session c m = Some m' \<Longrightarrow> m_peers m' = m_peers m"
  "close_tunnel t m = Some m' \<Longrightarrow> m_peers m' = m_peers m"
  "new_direct q m = (d, m') \<Longrightarrow> m_peers m' = m_peers m"
  using connect_begin_frame(1) close_session_frame close_tunnel_frame getOrCreateProxy_frame
  by (fastforce simp: retry_relay_def new_direct_def split: if_splits prod.splits)+

text \<open>The retry goroutines of a peer, those that run the end of \<open>connectPeerWithCtx\<close> included.\<close>

fun retry_peer :: "retry_g \<Rightarrow> peer_id" where
  "retry_peer (RetryStart pid) = pid"
| "retry_peer (RetryLook pid _) = pid"
| "retry_peer (RetryRelay pid _ _) = pid"
| "retry_peer (RetryAttempt pid _) = pid"
| "retry_peer (RetryHandshake pid _ _) = pid"
| "retry_peer (RetrySleep pid _) = pid"
| "retry_peer (RetryExit pid) = pid"

fun retries :: "peer_id \<Rightarrow> goroutine \<Rightarrow> bool" where
  "retries pid (GRetry g) \<longleftrightarrow> retry_peer g = pid"
| "retries pid (GTunnel (CloseOld retry q _ _)) \<longleftrightarrow> retry \<and> q = pid"
| "retries pid (GTunnel (Activate retry q _)) \<longleftrightarrow> retry \<and> q = pid"
| "retries pid _ \<longleftrightarrow> False"

lemma retry_act_balance:
  assumes "retry_act cr e g m = Goes new m'" "retry_peer g = pid \<Longrightarrow> retrying pid m"
  shows "of_bool (retrying pid m) + length (filter (retries pid) new) =
    of_bool (retrying pid m') + (of_bool (retry_peer g = pid) :: nat)"
proof (cases g)
  case (RetryHandshake q b c)
  then show ?thesis
    using assms
    by (auto simp: Goes_iffs after_handshake_def install_tunnel_def Let_def retrying_def
      split: option.splits if_splits sum.splits event.splits dest!: same_peers)
next
  case (RetryExit q)
  then show ?thesis
    using assms by (auto simp: Goes_iffs retry_done_def retrying_def split: option.splits if_splits)
next
  case (RetryRelay q b url)
  then show ?thesis
    using assms by (auto simp: Goes_iffs retrying_def split: prod.splits if_splits dest!: same_peers)
next
  case (RetryAttempt q b)
  then show ?thesis
    using assms by (auto simp: Goes_iffs retrying_def split: prod.splits sum.splits dest!: same_peers)
qed (use assms in \<open>auto simp: Goes_iffs split: option.splits if_splits\<close>)

lemma tunnel_act_balance:
  assumes "tunnel_act api cr e g m = Goes new m'"
  shows "of_bool (retrying pid m) + length (filter (retries pid) new) =
    of_bool (retrying pid m') + (of_bool (retries pid (GTunnel g)) :: nat)"
proof (cases g)
  case (IncomingHandshake c)
  then show ?thesis
    using assms
    by (auto simp: Goes_iffs after_handshake_def install_tunnel_def Let_def retrying_def
      split: option.splits if_splits sum.splits event.splits dest!: same_peers)
next
  case (CloseOld b q t old)
  then show ?thesis
    using assms by (auto simp: Goes_iffs retrying_def dest!: same_peers)
next
  case (Incoming c)
  then show ?thesis
    using assms by (auto simp: Goes_iffs retrying_def split: option.splits dest!: same_peers)
qed (use assms in \<open>auto simp: Goes_iffs retrying_def split: event.splits if_splits prod.splits recv_outcome.splits option.splits\<close>)

lemma control_act_Goes:
  "control_act decode loop msg m = Goes new m' \<Longrightarrow>
     m' = m \<and> (new = [GProbe loop] \<or> (\<exists>cis pid. new = [GProbe loop, GProbe (Validate pid cis)]))"
  by (auto simp: control_act_def split: option.splits if_splits)

lemma probe_head_Goes:
  "probe_head now failed pid addr deadline m = Goes new m' \<Longrightarrow>
     m' = m \<and> (new = [] \<or> new = [GProbe (Probing pid addr deadline)] \<or> new = [GProbe (ProbeCool addr)])"
  by (auto simp: probe_head_def split: if_splits)

text \<open>Probing changes no entry, and starts no goroutine but probes and promotions.\<close>

lemma probe_act_effect:
  assumes "probe_act decode e g m = Goes new m'"
  shows "m_peers m' = m_peers m" "\<forall>t \<in> set new. (\<exists>g. t = GProbe g) \<or> (\<exists>pid. t = GDirect (Promote pid))"
  using assms
  by (cases g; force simp: Goes_iffs probe_ok_def Let_def probe_failed_def probe_succeeded_def
      split: event.splits if_splits prod.splits recv_outcome.splits option.splits list.splits
      dest!: control_act_Goes probe_head_Goes)+

lemma direct_act_balance:
  assumes "direct_act api e g m = Goes new m'" "pid \<in> dom (m_peers m)"
  shows "of_bool (retrying pid m) + length (filter (retries pid) new) = (of_bool (retrying pid m') :: nat)"
proof (cases g)
  case (FallbackRetry q)
  then show ?thesis
    using assms by (auto simp: Goes_iffs fallback_retry_def retrying_def split: option.splits if_splits prod.splits)
next
  case (FallbackTake q)
  then show ?thesis
    using assms by (auto simp: Goes_iffs fallback_take_def retrying_def split: option.splits if_splits prod.splits)
next
  case (FallbackClose q old)
  then show ?thesis
    using assms by (auto simp: Goes_iffs retrying_def dest!: same_peers)
next
  case (Dialed q d)
  then show ?thesis
    using assms by (auto simp: Goes_iffs promote_commit_def retrying_def split: option.splits if_splits prod.splits)
next
  case (Fallback q)
  then show ?thesis
    using assms by (auto simp: Goes_iffs after_fallback_def fallback_begin_def
        split: option.splits if_splits prod.splits)
next
  case DirectAccept
  then show ?thesis
    using assms by (auto simp: Goes_iffs new_direct_def retrying_def split: event.splits prod.splits)
next
  case (Dialing q)
  then show ?thesis
    using assms by (auto simp: Goes_iffs new_direct_def retrying_def split: event.splits if_splits)
next
  case (DirectForward q d)
  then show ?thesis
    using assms(1) by (cases e) (auto split: if_splits)
next
  case (Promote q)
  then show ?thesis
    using assms(1) by (auto simp: Goes_iffs split: if_splits option.splits)
next
  case (FallbackProxy q)
  then show ?thesis
    using assms(1) by (auto simp: Goes_iffs split: option.splits)
next
  case (DirectInbound q d)
  then show ?thesis
    using assms(1) by (auto simp: Goes_iffs split: option.splits)
qed (use assms(1) in \<open>auto simp: Goes_iffs\<close>)

lemma connect_act_Goes:
  "connect_act e url c l m = Goes new m' \<longleftrightarrow>
     (\<exists>i p c' p' st. e = RelayIn i \<and> m_proxies m url = Some p \<and> connect_next i c p (m_store m) = ConnMoves c' p' st \<and>
        new = [GRelay url c' l] \<and> m' = m\<lparr>m_proxies := (m_proxies m)(url \<mapsto> p'), m_store := st\<rparr>)"
  by (auto simp: connect_act_def split: event.splits option.splits connect_out.splits)

lemma connect_act_effect:
  "connect_act e url c l m = Goes new m' \<Longrightarrow> m_peers m' = m_peers m \<and> (\<exists>c'. new = [GRelay url c' l])"
  by (auto simp: connect_act_Goes)

lemma start_retry_one:
  "start_retries [pid] m = (started, m') \<Longrightarrow>
     (case m_peers m pid of
        None \<Rightarrow> started = [] \<and> m' = m
      | Some e \<Rightarrow> if pe_retryingConn e then started = [] \<and> m' = m
          else started = [pid] \<and> m' = update_entry pid (\<lambda>e. e\<lparr>pe_retryingConn := True\<rparr>) m)"
  by (auto split: option.splits if_splits)

lemma loop_act_balance:
  assumes "loop_act e url c l m = Goes new m'"
  shows "of_bool (retrying pid m) + length (filter (retries pid) new) = (of_bool (retrying pid m') :: nat)"
proof (cases l)
  case (LoopRetries ids)
  then show ?thesis
    using assms
    by (auto simp: Goes_iffs retrying_def simp del: start_retries.simps
        split: list.splits prod.splits option.splits if_splits dest!: start_retry_one)
next
  case (LoopStart first b)
  then show ?thesis
    using assms by (auto simp: Goes_iffs retrying_def split: if_splits)
next
  case LoopConnected
  then show ?thesis
    using assms by (cases e) (auto split: if_splits)
qed (use assms in \<open>auto simp: Goes_iffs connect_returned_def split: if_splits\<close>)

lemma relay_act_cases:
  assumes "relay_act e url c l m = Goes new m'"
  obtains (conn) "connect_act e url c l m = Goes new m'" | (loop) "loop_act e url c l m = Goes new m'"
  using assms by (auto simp: relay_act_def split: outcome.splits)

lemma relay_act_balance:
  assumes "relay_act e url c l m = Goes new m'"
  shows "of_bool (retrying pid m) + length (filter (retries pid) new) = (of_bool (retrying pid m') :: nat)"
  using assms
proof (cases rule: relay_act_cases)
  case conn
  then show ?thesis
    by (auto dest!: connect_act_effect simp: retrying_def)
qed (rule loop_act_balance)

lemmas primitive_defs = set_conn_def clear_conn_if_def set_direct_def retry_done_def forward_packets_def close_direct_def
  probe_failed_def probe_succeeded_def relay_connected_def clear_relay_conns_def new_direct_def install_tunnel_def Let_def

text \<open>The peers and their relays are fixed once the manager runs.\<close>

definition peer_urls :: "'p Manager \<Rightarrow> peer_id \<Rightarrow> string option" where
  "peer_urls m q = map_option pe_relayURL (m_peers m q)"

lemma peer_urls_cong: "m_peers m' = m_peers m \<Longrightarrow> peer_urls m' = peer_urls m"
  by (simp add: peer_urls_def fun_eq_iff)

lemma peer_urls_frames [simp]:
  "peer_urls (set_conn api q c m) = peer_urls m" "peer_urls (clear_conn_if api q c m) = peer_urls m"
  "peer_urls (set_direct b q m) = peer_urls m" "peer_urls (retry_done q m) = peer_urls m"
  "peer_urls (snd (forward_packets api q pkts m)) = peer_urls m" "peer_urls (close_direct d m) = peer_urls m"
  "peer_urls (relay_connected m) = peer_urls m" "peer_urls (clear_relay_conns url m) = peer_urls m"
  "peer_urls (update_entry q (\<lambda>e. e\<lparr>pe_retryingConn := b\<rparr>) m) = peer_urls m"
  "peer_urls (update_entry q (\<lambda>e. e\<lparr>pe_relayConn := r\<rparr>) m) = peer_urls m"
  "peer_urls (m\<lparr>m_store := st\<rparr>) = peer_urls m" "peer_urls (m\<lparr>m_proxies := ps\<rparr>) = peer_urls m"
  "peer_urls (m\<lparr>m_ctx := x\<rparr>) = peer_urls m"
  by (auto simp: peer_urls_def primitive_defs option.map_comp comp_def fun_eq_iff
      split: option.splits prod.splits if_splits intro!: option.map_cong)

lemma install_tunnel_urls: "install_tunnel pid c cert m = (t, old, m') \<Longrightarrow> peer_urls m' = peer_urls m"
  by (auto simp: install_tunnel_def Let_def peer_urls_def option.map_comp comp_def fun_eq_iff)

lemma mgr_act_peer_urls:
  assumes "mgr_act w e t m = Goes new m'"
  shows "peer_urls m' = peer_urls m"
proof (cases t)
  case (GRelay url c l)
  with assms have "relay_act e url c l m = Goes new m'"
    by simp
  then show ?thesis
  proof (cases rule: relay_act_cases)
    case conn
    then show ?thesis by (auto dest!: connect_act_effect intro: peer_urls_cong)
  next
    case loop
    then show ?thesis
      by (cases l) (auto simp: Goes_iffs connect_returned_def
          simp del: start_retries.simps split: event.splits if_splits list.splits prod.splits option.splits
          dest!: start_retry_one)
  qed
next
  case (GRetry g)
  with assms show ?thesis
    by (cases g) (auto simp: Goes_iffs after_handshake_def
      split: option.splits if_splits sum.splits event.splits prod.splits
      dest!: same_peers install_tunnel_urls intro: peer_urls_cong)
next
  case (GTunnel g)
  with assms show ?thesis
    by (cases g) (auto simp: Goes_iffs after_handshake_def
      split: option.splits if_splits sum.splits event.splits prod.splits recv_outcome.splits
      dest!: same_peers install_tunnel_urls intro: peer_urls_cong)
next
  case (GProbe g)
  with assms show ?thesis by (auto dest: probe_act_effect intro: peer_urls_cong)
next
  case (GDirect g)
  with assms show ?thesis
    by (cases g) (auto simp: Goes_iffs after_fallback_def fallback_begin_def fallback_take_def fallback_retry_def
      promote_commit_def split: option.splits if_splits event.splits prod.splits bool.splits
      dest!: same_peers intro: peer_urls_cong)
qed (use assms in \<open>auto split: if_splits\<close>)

lemma mgr_act_dom:
  assumes "mgr_act w e t m = Goes new m'"
  shows "dom (m_peers m') = dom (m_peers m)"
proof -
  have "(m_peers m' q = None) = (m_peers m q = None)" for q
    using fun_cong [OF mgr_act_peer_urls [OF assms], of q]
    by (cases "m_peers m q"; cases "m_peers m' q") (simp_all add: peer_urls_def)
  then show ?thesis by (simp add: dom_def)
qed

interpretation retry_count: pool_count "mgr_act w" "retries pid" "\<lambda>m. pid \<in> dom (m_peers m)" "\<lambda>m. of_bool (retrying pid m)"
  for w :: "'p world" and pid :: peer_id
proof unfold_locales
  fix e t new and m m' :: "'p Manager"
  assume a: "mgr_act w e t m = Goes new m'" and dom: "pid \<in> dom (m_peers m)"
  show "pid \<in> dom (m_peers m')"
    using mgr_act_dom [OF a] dom by simp
  assume mine: "length (filter (retries pid) [t]) \<le> of_bool (retrying pid m)"
  show "of_bool (retrying pid m) + length (filter (retries pid) new) =
      of_bool (retrying pid m') + length (filter (retries pid) [t])"
  proof (cases t)
    case (GProbe g)
    then have "filter (retries pid) new = []" "m_peers m' = m_peers m"
      using a probe_act_effect [of "w_decode w" e g m new m'] by (auto simp: filter_empty_conv)
    with GProbe show ?thesis by (simp add: retrying_def)
  next
    case (GRetry g)
    then show ?thesis
      using a retry_act_balance [of "w_crypto w" e g m new m' pid] mine by (auto simp: of_bool_def split: if_splits)
  next
    case (GRelay url c l)
    then show ?thesis using a relay_act_balance [of e url c l m new m' pid] by simp
  next
    case (GTunnel g)
    then show ?thesis using a tunnel_act_balance [of "w_mion w" "w_crypto w" e g m new m' pid] by (simp add: of_bool_def)
  next
    case (GDirect g)
    then show ?thesis using a direct_act_balance [of "w_mion w" e g m new m' pid] dom by simp
  qed (use a in \<open>auto split: if_splits\<close>)
qed

section \<open>What stays the same\<close>

definition fixed_part :: "'p Manager \<Rightarrow> string option \<times> u16 option \<times> bytes" where
  "fixed_part m = (m_role m, m_directLn m, m_selfPriv m)"

lemma fixed_frames:
  "retry_relay url m = (up, m') \<Longrightarrow> fixed_part m' = fixed_part m \<and> m_ctx m' = m_ctx m"
  "connect_begin pid m = Inr (c, m') \<Longrightarrow> fixed_part m' = fixed_part m \<and> m_ctx m' = m_ctx m"
  "close_session c m = Some m' \<Longrightarrow> fixed_part m' = fixed_part m \<and> m_ctx m' = m_ctx m"
  "close_tunnel t m = Some m' \<Longrightarrow> fixed_part m' = fixed_part m \<and> m_ctx m' = m_ctx m"
  by (auto simp: fixed_part_def retry_relay_def connect_begin_def getOrCreateProxy_def close_tunnel_def close_session_def
      split: if_splits prod.splits option.splits)

lemma fixed_simps [simp]:
  "fixed_part (update_entry q f m) = fixed_part m" "fixed_part (set_conn api q c m) = fixed_part m"
  "fixed_part (clear_conn_if api q c m) = fixed_part m" "fixed_part (set_direct b q m) = fixed_part m"
  "fixed_part (retry_done q m) = fixed_part m" "fixed_part (snd (forward_packets api q pkts m)) = fixed_part m"
  "fixed_part (close_direct d m) = fixed_part m" "fixed_part (probe_failed now addr m) = fixed_part m"
  "fixed_part (probe_succeeded q addr vt m) = fixed_part m" "fixed_part (relay_connected m) = fixed_part m"
  "fixed_part (clear_relay_conns url m) = fixed_part m" "fixed_part (m\<lparr>m_store := st\<rparr>) = fixed_part m"
  "fixed_part (m\<lparr>m_proxies := ps\<rparr>) = fixed_part m" "fixed_part (m\<lparr>m_ctx := x\<rparr>) = fixed_part m"
  by (auto simp: fixed_part_def primitive_defs split: option.splits prod.splits)

lemma ctx_simps [simp]:
  "m_ctx (set_conn api q c m) = m_ctx m" "m_ctx (clear_conn_if api q c m) = m_ctx m"
  "m_ctx (set_direct b q m) = m_ctx m" "m_ctx (retry_done q m) = m_ctx m"
  "m_ctx (snd (forward_packets api q pkts m)) = m_ctx m" "m_ctx (close_direct d m) = m_ctx m"
  "m_ctx (probe_failed now addr m) = m_ctx m" "m_ctx (probe_succeeded q addr vt m) = m_ctx m"
  "m_ctx (relay_connected m) = m_ctx m" "m_ctx (clear_relay_conns url m) = m_ctx m"
  by (auto simp: primitive_defs split: option.splits prod.splits)

lemma new_direct_fixed [simp]:
  "new_direct pid m = (d, m') \<Longrightarrow> fixed_part m' = fixed_part m \<and> m_ctx m' = m_ctx m"
  by (auto simp: new_direct_def fixed_part_def)

lemma install_tunnel_fixed:
  "install_tunnel pid c cert m = (t, old, m') \<Longrightarrow> fixed_part m' = fixed_part m \<and> m_ctx m' = m_ctx m"
  by (auto simp: install_tunnel_def fixed_part_def Let_def)

lemma mgr_act_fixed:
  assumes "mgr_act w e t m = Goes new m'"
  shows "fixed_part m' = fixed_part m \<and> (m_ctx m' = m_ctx m \<or> m_ctx m' = Some True)"
proof (cases t)
  case (GRelay url c l)
  with assms have "relay_act e url c l m = Goes new m'"
    by simp
  then show ?thesis
  proof (cases rule: relay_act_cases)
    case conn
    then show ?thesis
      by (auto simp: connect_act_Goes)
  next
    case loop
    then show ?thesis
      by (cases l) (auto simp: Goes_iffs connect_returned_def
          simp del: start_retries.simps split: event.splits if_splits list.splits prod.splits option.splits
          dest!: start_retry_one)
  qed
next
  case (GRetry g)
  with assms show ?thesis
    by (cases g) (auto simp: Goes_iffs after_handshake_def
      split: option.splits if_splits sum.splits event.splits prod.splits dest!: fixed_frames install_tunnel_fixed)
next
  case (GTunnel g)
  with assms show ?thesis
    by (cases g) (auto simp: Goes_iffs after_handshake_def
      split: option.splits if_splits sum.splits event.splits prod.splits recv_outcome.splits
      dest!: fixed_frames install_tunnel_fixed)
next
  case (GProbe g)
  with assms show ?thesis
    by (cases g) (auto simp: Goes_iffs probe_ok_def Let_def
      split: event.splits if_splits prod.splits recv_outcome.splits option.splits list.splits
      dest!: control_act_Goes probe_head_Goes)
next
  case (GDirect g)
  with assms show ?thesis
    by (cases g) (auto simp: Goes_iffs after_fallback_def fallback_begin_def fallback_take_def fallback_retry_def
      promote_commit_def split: option.splits if_splits event.splits prod.splits bool.splits dest!: fixed_frames new_direct_fixed)
qed (use assms in \<open>auto split: if_splits\<close>)

lemma mgr_act_role: "mgr_act w e t m = Goes new m' \<Longrightarrow> m_role m' = m_role m"
  by (drule mgr_act_fixed) (simp add: fixed_part_def)

section \<open>Direct paths are watched\<close>

text \<open>The goroutines that will take a direct path back.\<close>

fun watches :: "peer_id \<Rightarrow> goroutine \<Rightarrow> bool" where
  "watches pid (GDirect (ActivateDirect q _)) \<longleftrightarrow> q = pid"
| "watches pid (GDirect (DirectForward q _)) \<longleftrightarrow> q = pid"
| "watches pid (GDirect (Fallback q)) \<longleftrightarrow> q = pid"
| "watches pid _ \<longleftrightarrow> False"

lemma has_direct_simps [simp]:
  "has_direct pid (set_conn api q c m) = has_direct pid m"
  "has_direct pid (clear_conn_if api q c m) = has_direct pid m"
  "has_direct pid (retry_done q m) = has_direct pid m"
  "has_direct pid (snd (forward_packets api q pkts m)) = has_direct pid m"
  "has_direct pid (close_direct d m) = has_direct pid m"
  "has_direct pid (relay_connected m) = has_direct pid m"
  "has_direct pid (clear_relay_conns url m) = has_direct pid m"
  "has_direct pid (m\<lparr>m_store := st\<rparr>) = has_direct pid m"
  "has_direct pid (m\<lparr>m_ctx := x\<rparr>) = has_direct pid m"
  "has_direct pid (set_direct b q m) = (if pid = q then q \<in> dom (m_peers m) \<and> b else has_direct pid m)"
  by (auto simp: has_direct_def clear_relay_conns_def split: option.splits)

lemma direct_flag:
  assumes "mgr_act w e t m = Goes new m'" "m_role m \<noteq> None" "has_direct pid m'"
  shows "has_direct pid m \<and> \<not> watches pid t \<or> (\<exists>u \<in> set new. watches pid u)"
proof (cases t)
  case (GRelay url c l)
  with assms have "relay_act e url c l m = Goes new m'"
    by simp
  then show ?thesis
  proof (cases rule: relay_act_cases)
    case conn
    then show ?thesis using assms(3) GRelay by (auto simp: has_direct_def dest!: connect_act_effect)
  next
    case loop
    then show ?thesis
      using assms(3) GRelay
      by (cases l) (auto simp: Goes_iffs connect_returned_def has_direct_def clear_relay_conns_def
          simp del: start_retries.simps split: event.splits if_splits list.splits prod.splits option.splits
          dest!: start_retry_one)
  qed
next
  case (GRetry g)
  with assms show ?thesis
    by (cases g) (auto simp: Goes_iffs after_handshake_def install_tunnel_def Let_def has_direct_def
      split: option.splits if_splits sum.splits event.splits prod.splits dest!: same_peers)
next
  case (GTunnel g)
  with assms show ?thesis
    by (cases g) (auto simp: Goes_iffs after_handshake_def install_tunnel_def Let_def has_direct_def
      split: option.splits if_splits sum.splits event.splits prod.splits recv_outcome.splits dest!: same_peers)
next
  case (GProbe g)
  with assms show ?thesis by (auto simp: has_direct_def dest: probe_act_effect)
next
  case (GDirect g)
  with assms show ?thesis
    by (cases g) (auto simp: Goes_iffs after_fallback_def fallback_begin_def fallback_take_def fallback_retry_def
      promote_commit_def new_direct_def has_direct_def
      split: option.splits if_splits event.splits prod.splits bool.splits dest!: same_peers)
qed (use assms in \<open>auto split: if_splits\<close>)

interpretation direct_watch: pool_invariant "mgr_act w"
  "\<lambda>ts m. m_role m \<noteq> None \<and> (\<forall>pid. has_direct pid m \<longrightarrow> (\<exists>t \<in> set ts. watches pid t))"
  for w :: "'p world"
proof unfold_locales
  fix e t new ts1 ts2 and m m' :: "'p Manager"
  assume a: "mgr_act w e t m = Goes new m'"
    and inv: "m_role m \<noteq> None \<and> (\<forall>pid. has_direct pid m \<longrightarrow> (\<exists>t \<in> set (ts1 @ t # ts2). watches pid t))"
  have "\<exists>t \<in> set (ts1 @ new @ ts2). watches pid t" if "has_direct pid m'" for pid
    using direct_flag [OF a _ that] inv by auto
  then show "m_role m' \<noteq> None \<and> (\<forall>pid. has_direct pid m' \<longrightarrow> (\<exists>t \<in> set (ts1 @ new @ ts2). watches pid t))"
    using inv mgr_act_role [OF a] by simp
qed

section \<open>Only clients open paths\<close>

text \<open>
  The goroutines that are about to open, or in the course of opening, a relay session to a peer or a
  direct CONNECT-IP connection to it. Probes are not among them: both roles send them.
\<close>

fun opens_path :: "goroutine \<Rightarrow> bool" where
  "opens_path (GRetry _) \<longleftrightarrow> True"
| "opens_path (GTunnel (CloseOld retry _ _ _)) \<longleftrightarrow> retry"
| "opens_path (GTunnel (Activate retry _ _)) \<longleftrightarrow> retry"
| "opens_path (GDirect (FallbackTake _)) \<longleftrightarrow> True"
| "opens_path (GDirect (FallbackClose _ _)) \<longleftrightarrow> True"
| "opens_path (GDirect (FallbackRetry _)) \<longleftrightarrow> True"
| "opens_path (GDirect (Promote _)) \<longleftrightarrow> True"
| "opens_path (GDirect (Dialing _)) \<longleftrightarrow> True"
| "opens_path (GDirect (Dialed _ _)) \<longleftrightarrow> True"
| "opens_path (GRelay _ _ (LoopRetries _)) \<longleftrightarrow> True"
| "opens_path _ \<longleftrightarrow> False"

text \<open>No session was ever opened by this node: \<open>NewSession\<close> counts \<open>nextSID\<close> up.\<close>

definition no_own_sessions :: "'p Manager \<Rightarrow> bool" where
  "no_own_sessions m \<longleftrightarrow> (\<forall>url p. m_proxies m url = Some p \<longrightarrow> nextSID p = 0)"

lemma proxy_never_starts:
  assumes "mgr_act w e t m = Goes new m'" "m_role m \<noteq> Some ''client''" "m_role m \<noteq> None" "\<not> opens_path t"
  shows "\<forall>u \<in> set new. \<not> opens_path u"
proof (cases t)
  case (GRelay url c l)
  with assms have "relay_act e url c l m = Goes new m'"
    by simp
  then show ?thesis
  proof (cases rule: relay_act_cases)
    case conn
    then show ?thesis using assms(4) GRelay by (cases l) (auto dest!: connect_act_effect)
  next
    case loop
    then show ?thesis
      using assms(2-4) GRelay
      by (cases l) (auto simp: Goes_iffs connect_returned_def split: event.splits if_splits)
  qed
next
  case (GTunnel g)
  with assms show ?thesis
    by (cases g) (auto simp: Goes_iffs after_handshake_def
      split: option.splits if_splits sum.splits event.splits prod.splits recv_outcome.splits)
next
  case (GProbe g)
  with assms show ?thesis
    by (cases g) (auto simp: Goes_iffs probe_ok_def Let_def probe_succeeded_def
      split: event.splits if_splits prod.splits recv_outcome.splits option.splits list.splits
      dest!: control_act_Goes probe_head_Goes)
next
  case (GDirect g)
  with assms show ?thesis
    by (cases g) (auto simp: Goes_iffs after_fallback_def fallback_begin_def set_direct_def
      split: option.splits if_splits event.splits prod.splits bool.splits)
qed (use assms in \<open>auto split: if_splits\<close>)

lemma closeOnce_numbers: "removeSession sid p st = Some (p', st') \<Longrightarrow> nextSID p' = nextSID p"
  by (auto simp: removeSession_def split: option.splits bind_splits)

lemma closeAll_numbers: "closeAllSessions order p st = Some (p', st') \<Longrightarrow> nextSID p' = nextSID p"
proof (induction order arbitrary: p st)
  case (Cons sid order)
  then show ?case by (fastforce split: option.splits bind_splits)
qed simp

lemma connect_next_numbers:
  assumes "connect_next i c p st = ConnMoves c' p' st'"
  shows "nextSID p' = nextSID p"
proof (cases c)
  case ConnReading
  with assms show ?thesis
    by (auto simp: conn_moves_iff dispatchControl_def dispatch_lookup_def new_data_chan_def
        split: connect_in.splits if_splits option.splits prod.splits send_outcome.splits)
qed (use assms in \<open>auto simp: conn_moves_iff split: connect_in.splits sum.splits if_splits option.splits prod.splits
    dest!: closeOnce_numbers closeAll_numbers\<close>)

lemma close_session_numbers: "close_session c m = Some m' \<Longrightarrow> no_own_sessions m \<Longrightarrow> no_own_sessions m'"
  by (auto simp: close_session_def conn_Close_def no_own_sessions_def split: option.splits if_splits
      dest!: closeOnce_numbers)

lemma close_tunnel_numbers: "close_tunnel t m = Some m' \<Longrightarrow> no_own_sessions m \<Longrightarrow> no_own_sessions m'"
  by (auto simp: close_tunnel_def split: option.splits dest: close_session_numbers)

lemma no_own_sessions_cong: "m_proxies m' = m_proxies m \<Longrightarrow> no_own_sessions m' = no_own_sessions m"
  by (simp add: no_own_sessions_def)

lemma no_own_sessions_frames [simp]:
  "no_own_sessions (update_entry q f m) = no_own_sessions m"
  "no_own_sessions (set_conn api q c m) = no_own_sessions m" "no_own_sessions (clear_conn_if api q c m) = no_own_sessions m"
  "no_own_sessions (set_direct b q m) = no_own_sessions m" "no_own_sessions (close_direct d m) = no_own_sessions m"
  "no_own_sessions (snd (forward_packets api q pkts m)) = no_own_sessions m"
  "no_own_sessions (relay_connected m) = no_own_sessions m" "no_own_sessions (clear_relay_conns url m) = no_own_sessions m"
  "no_own_sessions (probe_failed now addr m) = no_own_sessions m" "no_own_sessions (probe_succeeded q addr vt m) = no_own_sessions m"
  "no_own_sessions (m\<lparr>m_store := st\<rparr>) = no_own_sessions m" "no_own_sessions (m\<lparr>m_ctx := x\<rparr>) = no_own_sessions m"
  by (auto intro!: no_own_sessions_cong simp: primitive_defs split: option.splits prod.splits)

lemma new_objects_numbers:
  "new_direct pid m = (d, m') \<Longrightarrow> no_own_sessions m' = no_own_sessions m"
  "install_tunnel pid c cert m = (t, old, m') \<Longrightarrow> no_own_sessions m' = no_own_sessions m"
  by (auto intro!: no_own_sessions_cong simp: new_direct_def install_tunnel_def Let_def)

lemma proxy_numbers:
  assumes "mgr_act w e t m = Goes new m'" "m_role m \<noteq> Some ''client''" "m_role m \<noteq> None" "\<not> opens_path t"
    and "no_own_sessions m"
  shows "no_own_sessions m'"
proof (cases t)
  case (GRelay url c l)
  with assms have "relay_act e url c l m = Goes new m'"
    by simp
  then show ?thesis
  proof (cases rule: relay_act_cases)
    case conn
    then show ?thesis
      using assms(5) by (auto simp: connect_act_Goes no_own_sessions_def split: if_splits dest: connect_next_numbers)
  next
    case loop
    then show ?thesis
      using assms(4,5) GRelay
      by (cases l) (auto simp: Goes_iffs connect_returned_def Reset_def new_signal_def no_own_sessions_def
          relay_connected_def clear_relay_conns_def split: event.splits if_splits)
  qed
next
  case (GTunnel g)
  with assms(1,5) show ?thesis
    by (cases g) (auto simp: Goes_iffs after_handshake_def
      split: option.splits if_splits sum.splits event.splits prod.splits recv_outcome.splits
      dest: close_session_numbers close_tunnel_numbers new_objects_numbers)
next
  case (GProbe g)
  with assms(1,5) show ?thesis
    by (cases g) (auto simp: Goes_iffs probe_ok_def Let_def
      split: event.splits if_splits prod.splits recv_outcome.splits option.splits list.splits
      dest!: control_act_Goes probe_head_Goes)
next
  case (GDirect g)
  with assms(1,4,5) show ?thesis
    by (cases g) (auto simp: Goes_iffs after_fallback_def fallback_begin_def
      split: option.splits if_splits event.splits prod.splits bool.splits dest: new_objects_numbers)
qed (use assms in \<open>auto split: if_splits\<close>)

interpretation proxy_passive: pool_local "mgr_act w" "\<lambda>t m. \<not> opens_path t"
  "\<lambda>m. m_role m \<noteq> Some ''client'' \<and> m_role m \<noteq> None \<and> no_own_sessions m"
  for w :: "'p world"
  by unfold_locales (use proxy_never_starts proxy_numbers mgr_act_role in metis)+

section \<open>Paths lead to authenticated ends\<close>

definition tunnel_for :: "peer_id \<Rightarrow> nat \<Rightarrow> 'p Manager \<Rightarrow> bool" where
  "tunnel_for pid t m \<longleftrightarrow>
     t < m_nextTunnel m \<and>
     (\<exists>tn. m_tunnels m t = Some tn \<and> nc_peerID (tn_conn tn) = pid \<and> tn_cert tn \<in> dom (m_peers m))"

definition direct_for :: "peer_id \<Rightarrow> nat \<Rightarrow> 'p Manager \<Rightarrow> bool" where
  "direct_for pid d m \<longleftrightarrow> d < m_nextDirect m \<and> m_directPeer m d = Some pid"

definition conn_for :: "peer_id \<Rightarrow> conn_ref \<Rightarrow> 'p Manager \<Rightarrow> bool" where
  "conn_for pid c m \<longleftrightarrow> (case c of RelayConn t \<Rightarrow> tunnel_for pid t m | DirectConn d \<Rightarrow> direct_for pid d m)"

text \<open>Connection objects are created, never changed.\<close>

definition tables :: "'p Manager \<Rightarrow> (nat \<Rightarrow> tunnel option) \<times> nat \<times> (nat \<Rightarrow> peer_id option) \<times> nat" where
  "tables m = (m_tunnels m, m_nextTunnel m, m_directPeer m, m_nextDirect m)"

definition tables_grow :: "'p Manager \<Rightarrow> 'p Manager \<Rightarrow> bool" where
  "tables_grow m m' \<longleftrightarrow>
     m_nextTunnel m \<le> m_nextTunnel m' \<and> (\<forall>t < m_nextTunnel m. m_tunnels m' t = m_tunnels m t) \<and>
     m_nextDirect m \<le> m_nextDirect m' \<and> (\<forall>d < m_nextDirect m. m_directPeer m' d = m_directPeer m d)"

lemma tables_same: "tables m' = tables m \<Longrightarrow> tables_grow m m'"
  by (simp add: tables_def tables_grow_def)

lemma conn_for_mono:
  "conn_for pid c m \<Longrightarrow> tables_grow m m' \<Longrightarrow> dom (m_peers m') = dom (m_peers m) \<Longrightarrow> conn_for pid c m'"
  by (auto simp: conn_for_def tunnel_for_def direct_for_def tables_grow_def split: conn_ref.splits)

lemma tables_simps [simp]:
  "tables (update_entry q f m) = tables m" "tables (set_conn api q c m) = tables m"
  "tables (clear_conn_if api q c m) = tables m" "tables (set_direct b q m) = tables m"
  "tables (retry_done q m) = tables m" "tables (snd (forward_packets api q pkts m)) = tables m"
  "tables (close_direct d m) = tables m" "tables (probe_failed now addr m) = tables m"
  "tables (probe_succeeded q addr vt m) = tables m" "tables (relay_connected m) = tables m"
  "tables (clear_relay_conns url m) = tables m" "tables (m\<lparr>m_store := st\<rparr>) = tables m"
  "tables (m\<lparr>m_proxies := ps\<rparr>) = tables m" "tables (m\<lparr>m_ctx := x\<rparr>) = tables m"
  by (auto simp: tables_def primitive_defs split: option.splits prod.splits)

lemma tables_frames:
  "retry_relay url m = (up, m') \<Longrightarrow> tables m' = tables m"
  "connect_begin pid m = Inr (c, m') \<Longrightarrow> tables m' = tables m"
  "close_session c m = Some m' \<Longrightarrow> tables m' = tables m"
  "close_tunnel t m = Some m' \<Longrightarrow> tables m' = tables m"
  by (auto simp: tables_def retry_relay_def connect_begin_def getOrCreateProxy_def close_tunnel_def close_session_def
      split: if_splits prod.splits option.splits)

lemma tables_new:
  "new_direct pid m = (d, m') \<Longrightarrow> tables_grow m m' \<and> direct_for pid d m'"
  "install_tunnel pid c cert m = (t, old, m') \<Longrightarrow> tables_grow m m' \<and>
     (nc_peerID c = pid \<longrightarrow> cert \<in> knownPeerSet m \<longrightarrow> tunnel_for pid t m')"
  by (auto simp: new_direct_def install_tunnel_def tables_grow_def direct_for_def tunnel_for_def knownPeerSet_def Let_def
      split: option.splits)

lemma mgr_act_tables:
  assumes "mgr_act w e t m = Goes new m'"
  shows "tables_grow m m'"
proof (cases t)
  case (GRelay url c l)
  with assms have "relay_act e url c l m = Goes new m'"
    by simp
  then have "tables m' = tables m"
  proof (cases rule: relay_act_cases)
    case conn
    then show ?thesis
      by (auto simp: connect_act_Goes)
  next
    case loop
    then show ?thesis
      by (cases l) (auto simp: Goes_iffs connect_returned_def
          simp del: start_retries.simps split: event.splits if_splits list.splits prod.splits option.splits
          dest!: start_retry_one)
  qed
  then show ?thesis by (rule tables_same)
next
  case (GRetry g)
  with assms show ?thesis
    by (cases g) (auto simp: Goes_iffs after_handshake_def intro: tables_same
      split: option.splits if_splits sum.splits event.splits prod.splits dest!: tables_frames dest: tables_new)
next
  case (GTunnel g)
  with assms show ?thesis
    by (cases g) (auto simp: Goes_iffs after_handshake_def intro: tables_same
      split: option.splits if_splits sum.splits event.splits prod.splits recv_outcome.splits
      dest!: tables_frames dest: tables_new)
next
  case (GProbe g)
  with assms show ?thesis
    by (cases g) (auto simp: Goes_iffs probe_ok_def Let_def intro: tables_same
      split: event.splits if_splits prod.splits recv_outcome.splits option.splits list.splits
      dest!: control_act_Goes probe_head_Goes)
next
  case (GDirect g)
  with assms show ?thesis
    by (cases g) (auto simp: Goes_iffs after_fallback_def fallback_begin_def fallback_take_def fallback_retry_def
      promote_commit_def intro: tables_same split: option.splits if_splits event.splits prod.splits bool.splits
      dest!: tables_frames dest: tables_new)
qed (use assms in \<open>auto split: if_splits intro: tables_same\<close>)

fun carried :: "goroutine \<Rightarrow> (peer_id \<times> conn_ref) option" where
  "carried (GTunnel (CloseOld _ pid t _)) = Some (pid, RelayConn t)"
| "carried (GTunnel (Activate _ pid t)) = Some (pid, RelayConn t)"
| "carried (GDirect (FallbackRestore pid t)) = Some (pid, RelayConn t)"
| "carried (GDirect (DirectInbound pid d)) = Some (pid, DirectConn d)"
| "carried (GDirect (Dialed pid d)) = Some (pid, DirectConn d)"
| "carried (GDirect (ActivateDirect pid d)) = Some (pid, DirectConn d)"
| "carried _ = None"

fun opens_for_peer :: "goroutine \<Rightarrow> bool" where
  "opens_for_peer (GRetry (RetryHandshake pid _ c)) \<longleftrightarrow> nc_peerID c = pid"
| "opens_for_peer _ \<longleftrightarrow> True"

definition carries_own :: "goroutine \<Rightarrow> 'p Manager \<Rightarrow> bool" where
  "carries_own t m \<longleftrightarrow> opens_for_peer t \<and> (\<forall>pid c. carried t = Some (pid, c) \<longrightarrow> conn_for pid c m)"

definition paths_ok :: "('p \<Rightarrow> conn_ref option) \<Rightarrow> 'p Manager \<Rightarrow> bool" where
  "paths_ok active m \<longleftrightarrow>
     (\<forall>pid e. m_peers m pid = Some e \<longrightarrow>
        (\<forall>t. pe_relayConn e = Some t \<longrightarrow> conn_for pid (RelayConn t) m) \<and>
        (\<forall>c. active (pe_peer e) = Some c \<longrightarrow> conn_for pid c m))"

text \<open>How an action may change an entry: connections stay, go, or are replaced by proper ones.\<close>

definition entry_moves :: "('p \<Rightarrow> conn_ref option) \<Rightarrow> peer_id \<Rightarrow> 'p Manager \<Rightarrow> 'p peerEntry \<Rightarrow> 'p peerEntry \<Rightarrow> bool" where
  "entry_moves active pid m e e' \<longleftrightarrow>
     (pe_relayConn e' = pe_relayConn e \<or> pe_relayConn e' = None \<or> (\<exists>t. pe_relayConn e' = Some t \<and> conn_for pid (RelayConn t) m)) \<and>
     (active (pe_peer e') = active (pe_peer e) \<or> active (pe_peer e') = None \<or>
      (\<exists>c. active (pe_peer e') = Some c \<and> conn_for pid c m))"

lemma entry_moves_refl [simp]: "entry_moves active pid m e e"
  by (simp add: entry_moves_def)

definition moves :: "('p \<Rightarrow> conn_ref option) \<Rightarrow> 'p Manager \<Rightarrow> 'p Manager \<Rightarrow> bool" where
  "moves active m m' \<longleftrightarrow>
     (\<forall>pid e'. m_peers m' pid = Some e' \<longrightarrow> (\<exists>e. m_peers m pid = Some e \<and> entry_moves active pid m' e e'))"

lemma moves_same: "m_peers m' = m_peers m \<Longrightarrow> moves active m m'"
  by (simp add: moves_def)

lemma moves_one:
  assumes "m_peers m' = (m_peers m)(q := map_option f (m_peers m q))"
    and "\<And>e. m_peers m q = Some e \<Longrightarrow> entry_moves active q m' e (f e)"
  shows "moves active m m'"
  using assms by (auto simp: moves_def)

lemma paths_ok_moves:
  assumes "paths_ok active m" "moves active m m'" "tables_grow m m'" "dom (m_peers m') = dom (m_peers m)"
  shows "paths_ok active m'"
  unfolding paths_ok_def
proof (intro allI impI)
  fix pid e'
  assume "m_peers m' pid = Some e'"
  then obtain e where "m_peers m pid = Some e" and mv: "entry_moves active pid m' e e'"
    using assms(2) by (auto simp: moves_def)
  then have "\<forall>t. pe_relayConn e = Some t \<longrightarrow> conn_for pid (RelayConn t) m'"
    "\<forall>c. active (pe_peer e) = Some c \<longrightarrow> conn_for pid c m'"
    using assms(1) conn_for_mono [OF _ assms(3,4)] by (auto simp: paths_ok_def)
  then show "(\<forall>t. pe_relayConn e' = Some t \<longrightarrow> conn_for pid (RelayConn t) m') \<and>
      (\<forall>c. active (pe_peer e') = Some c \<longrightarrow> conn_for pid c m')"
    using mv by (auto simp: entry_moves_def)
qed

lemma active_forward:
  "mion_peer api active \<Longrightarrow> active (snd (forward_all api pkts p)) = active p"
proof (induction pkts arbitrary: p)
  case (Cons pkt pkts)
  have "active (snd (forward_packet api pkt p)) = active p"
    using Cons.prems by (simp add: forward_packet_def mion_peer_def Let_def)
  then show ?case
    using Cons by (simp split: prod.splits) (metis snd_conv)
qed simp

text \<open>The operations on an entry, as moves.\<close>

lemma moves_ops:
  assumes "mion_peer api active"
  shows "conn_for q c m \<Longrightarrow> moves active m (set_conn api q c m)"
    "moves active m (clear_conn_if api q c m)"
    "moves active m (snd (forward_packets api q pkts m))"
    "moves active m (set_direct b q m)" "moves active m (retry_done q m)"
proof -
  show "moves active m (set_conn api q c m)" if c: "conn_for q c m"
  proof (rule moves_one [of _ _ q])
    have "dom (m_peers (set_conn api q c m)) = dom (m_peers m)"
      by (auto simp: dom_def)
    then have "conn_for q c (set_conn api q c m)"
      using conn_for_mono [OF c tables_same [OF tables_simps(2)]] by metis
    then show "entry_moves active q (set_conn api q c m) e (e\<lparr>pe_peer := SetConn api c (pe_peer e)\<rparr>)" for e
      using assms by (simp add: entry_moves_def mion_peer_def)
  qed simp
  show "moves active m (clear_conn_if api q c m)"
    using assms by (intro moves_one [of _ _ q]) (auto simp: entry_moves_def mion_peer_def)
  show "moves active m (snd (forward_packets api q pkts m))"
    using active_forward [OF assms] by (intro moves_one [of _ _ q]) (auto simp: entry_moves_def)
  show "moves active m (set_direct b q m)" "moves active m (retry_done q m)"
    by (rule moves_one [of _ _ q], simp, simp add: entry_moves_def)+
qed


lemma carries_own_mono:
  "carries_own t m \<Longrightarrow> tables_grow m m' \<Longrightarrow> dom (m_peers m') = dom (m_peers m) \<Longrightarrow> carries_own t m'"
  using conn_for_mono by (auto simp: carries_own_def)

lemma install_tunnel_moves:
  assumes "install_tunnel q c cert m = (t, old, m')" "nc_peerID c = q" "cert \<in> knownPeerSet m"
  shows "moves active m m' \<and> conn_for q (RelayConn t) m'"
proof -
  have c: "conn_for q (RelayConn t) m'"
    using tables_new(2) [OF assms(1)] assms(2,3) by (simp add: conn_for_def)
  have "m_peers m' = (m_peers m)(q := map_option (\<lambda>e. e\<lparr>pe_relayConn := Some t\<rparr>) (m_peers m q))"
    using assms(1) by (auto simp: install_tunnel_def Let_def)
  then have "moves active m m'"
    by (rule moves_one) (use c in \<open>simp add: entry_moves_def\<close>)
  with c show ?thesis by simp
qed

lemma retry_act_moves:
  assumes "retry_act cr e g m = Goes new m'" "carries_own (GRetry g) m" "mion_peer api active"
  shows "moves active m m' \<and> (\<forall>u \<in> set new. carries_own u m')"
proof (cases g)
  case (RetryHandshake q b c)
  then have q: "nc_peerID c = q"
    using assms(2) by (simp add: carries_own_def)
  show ?thesis
  proof (cases "\<exists>remote cert. e = HandshakeEnds remote \<and> inner_handshake cr NewClientTLSConfig remote m = Inr cert")
    case True
    then obtain remote cert where h: "e = HandshakeEnds remote" "inner_handshake cr NewClientTLSConfig remote m = Inr cert"
      by blast
    obtain t old m1 where "install_tunnel q c cert m = (t, old, m1)"
      by (metis prod_cases3)
    with h assms(1) RetryHandshake have "install_tunnel q c cert m = (t, old, m')" "cert \<in> knownPeerSet m"
      "new = [GTunnel (CloseOld True q t old)]"
      by (auto simp: after_handshake_def dest: client_handshake_known)
    then show ?thesis
      using install_tunnel_moves [OF _ q] by (fastforce simp: carries_own_def)
  next
    case False
    then show ?thesis
      using assms(1) RetryHandshake
      by (auto simp: after_handshake_def Goes_iffs carries_own_def split: event.splits sum.splits
          dest!: same_peers intro: moves_same)
  qed
next
  case (RetryExit q)
  then show ?thesis
    using assms(1) moves_ops [OF assms(3)] by (auto simp: Goes_iffs)
next
  case (RetryAttempt q b)
  then show ?thesis
    using assms(1)
    by (auto simp: Goes_iffs carries_own_def split: sum.splits intro: moves_same
        dest: connect_begin_frame(1,4))
qed (use assms(1) in \<open>auto simp: Goes_iffs carries_own_def split: option.splits prod.splits if_splits
      intro: moves_same dest!: same_peers\<close>)

lemma tunnel_act_moves:
  assumes "tunnel_act api cr e g m = Goes new m'" "carries_own (GTunnel g) m" "mion_peer api active"
  shows "moves active m m' \<and> (\<forall>u \<in> set new. carries_own u m')"
proof (cases g)
  case (IncomingHandshake c)
  show ?thesis
  proof (cases "\<exists>remote cert. e = HandshakeEnds remote \<and> inner_handshake cr NewServerTLSConfig remote m = Inr cert")
    case True
    then obtain remote cert where h: "e = HandshakeEnds remote" "inner_handshake cr NewServerTLSConfig remote m = Inr cert"
      by blast
    obtain t old m1 where "install_tunnel (nc_peerID c) c cert m = (t, old, m1)"
      by (metis prod_cases3)
    with h assms(1) IncomingHandshake have "install_tunnel (nc_peerID c) c cert m = (t, old, m')" "cert \<in> knownPeerSet m"
      "new = [GTunnel (CloseOld False (nc_peerID c) t old)]"
      by (auto simp: after_handshake_def dest: server_handshake_known)
    then show ?thesis
      using install_tunnel_moves by (fastforce simp: carries_own_def)
  next
    case False
    then show ?thesis
      using assms(1) IncomingHandshake
      by (auto simp: after_handshake_def Goes_iffs split: event.splits sum.splits dest!: same_peers intro: moves_same)
  qed
next
  case (CloseOld b q t old)
  then have c: "close_tunnel old m = Some m'" "new = [GTunnel (Activate b q t)]"
    using assms(1) by (auto simp: Goes_iffs)
  then have "tables_grow m m'" "m_peers m' = m_peers m"
    by (auto dest: tables_frames same_peers intro: tables_same)
  then show ?thesis
    using assms(2) c(2) CloseOld conn_for_mono [of q "RelayConn t" m m']
    by (auto simp: carries_own_def intro: moves_same)
next
  case (Activate b q t)
  then show ?thesis
    using assms(1,2) moves_ops [OF assms(3)] by (auto simp: Goes_iffs carries_own_def)
next
  case (RelayForward q t)
  then show ?thesis
    using assms(1) moves_ops [OF assms(3)]
    by (auto simp: carries_own_def split: event.splits if_splits intro: moves_same)
qed (use assms(1) in \<open>auto simp: Goes_iffs carries_own_def split: option.splits prod.splits recv_outcome.splits if_splits
      intro: moves_same dest!: same_peers\<close>)


lemma direct_act_moves:
  assumes "direct_act api e g m = Goes new m'" "carries_own (GDirect g) m" "mion_peer api active"
    and "paths_ok active m"
  shows "moves active m m' \<and> (\<forall>u \<in> set new. carries_own u m')"
proof (cases g)
  case DirectAccept
  then show ?thesis
    using assms(1)
    by (auto simp: carries_own_def conn_for_def new_direct_def direct_for_def split: event.splits intro: moves_same)
next
  case (DirectInbound q d)
  then show ?thesis
    using assms(1,2) moves_ops(4) [OF assms(3), of m True q]
    by (auto simp: Goes_iffs carries_own_def conn_for_def direct_for_def set_direct_def split: option.splits
        intro: moves_same)
next
  case (Dialing q)
  then show ?thesis
    using assms(1)
    by (auto simp: carries_own_def conn_for_def new_direct_def direct_for_def split: event.splits if_splits
        intro: moves_same)
next
  case (Dialed q d)
  then show ?thesis
    using assms(1,2) moves_ops(4) [OF assms(3), of m True q]
    by (auto simp: Goes_iffs carries_own_def conn_for_def direct_for_def promote_commit_def set_direct_def
        split: option.splits prod.splits if_splits intro: moves_same)
next
  case (ActivateDirect q d)
  then show ?thesis
    using assms(1,2) moves_ops(1) [OF assms(3)] by (auto simp: Goes_iffs carries_own_def)
next
  case (DirectForward q d)
  then show ?thesis
    using assms(1) moves_ops [OF assms(3)]
    by (auto simp: carries_own_def split: event.splits if_splits intro: moves_same)
next
  case (Fallback q)
  then show ?thesis
    using assms(1) moves_ops(4) [OF assms(3), of m False q]
    by (auto simp: Goes_iffs after_fallback_def fallback_begin_def carries_own_def
        split: option.splits prod.splits if_splits intro: moves_same)
next
  case (FallbackProxy q)
  then show ?thesis
    using assms(1,4) by (auto simp: Goes_iffs carries_own_def paths_ok_def split: option.splits intro: moves_same)
next
  case (FallbackRestore q t)
  then show ?thesis
    using assms(1,2) moves_ops(1) [OF assms(3)] by (auto simp: Goes_iffs carries_own_def)
next
  case (FallbackTake q)
  have "moves active m (update_entry q (\<lambda>e. e\<lparr>pe_relayConn := None\<rparr>) m)"
    by (rule moves_one [of _ _ q], simp, simp add: entry_moves_def)
  then show ?thesis
    using assms(1) FallbackTake
    by (auto simp: Goes_iffs fallback_take_def carries_own_def split: option.splits prod.splits intro: moves_same)
next
  case (FallbackRetry q)
  have "moves active m (update_entry q (\<lambda>e. e\<lparr>pe_retryingConn := True\<rparr>) m)"
    by (rule moves_one [of _ _ q], simp, simp add: entry_moves_def)
  then show ?thesis
    using assms(1) FallbackRetry
    by (auto simp: Goes_iffs fallback_retry_def carries_own_def split: option.splits prod.splits if_splits intro: moves_same)
qed (use assms(1) in \<open>auto simp: Goes_iffs carries_own_def split: option.splits if_splits intro: moves_same dest!: same_peers\<close>)

lemma relay_act_moves:
  assumes "relay_act e url c l m = Goes new m'"
  shows "moves active m m' \<and> (\<forall>u \<in> set new. carries_own u m')"
  using assms
proof (cases rule: relay_act_cases)
  case conn
  then show ?thesis by (auto simp: carries_own_def intro: moves_same dest!: connect_act_effect)
next
  case loop
  have clear: "moves active m (clear_relay_conns url m)"
    by (auto simp: moves_def clear_relay_conns_def entry_moves_def)
  have retry: "moves active m (update_entry q (\<lambda>e. e\<lparr>pe_retryingConn := True\<rparr>) m)" for q
    by (rule moves_one [of _ _ q], simp, simp add: entry_moves_def)
  show ?thesis
  proof (cases l)
    case (LoopRetries ids)
    with loop retry show ?thesis
      by (auto simp: Goes_iffs carries_own_def simp del: start_retries.simps
          split: list.splits prod.splits option.splits if_splits intro: moves_same dest!: start_retry_one)
  next
    case LoopConnected
    with loop clear show ?thesis
      by (auto simp: carries_own_def split: event.splits if_splits)
  qed (use loop in \<open>auto simp: Goes_iffs connect_returned_def carries_own_def split: if_splits intro: moves_same\<close>)
qed

lemma mgr_act_moves:
  assumes "mgr_act w e t m = Goes new m'" "carries_own t m" "mion_peer (w_mion w) active" "paths_ok active m"
  shows "moves active m m' \<and> (\<forall>u \<in> set new. carries_own u m')"
proof (cases t)
  case (GProbe g)
  then have "m_peers m' = m_peers m" "\<forall>u \<in> set new. (\<exists>g. u = GProbe g) \<or> (\<exists>pid. u = GDirect (Promote pid))"
    using assms(1) probe_act_effect [of "w_decode w" e g m new m'] by simp_all
  then show ?thesis by (auto simp: carries_own_def intro: moves_same)
next
  case (GRelay url c l)
  with assms(1) relay_act_moves show ?thesis by fastforce
next
  case (GRetry g)
  with assms(1-3) retry_act_moves show ?thesis by fastforce
next
  case (GTunnel g)
  with assms(1-3) tunnel_act_moves show ?thesis by fastforce
next
  case (GDirect g)
  with assms direct_act_moves show ?thesis by fastforce
qed (use assms(1) in \<open>auto split: if_splits intro: moves_same\<close>)

lemma authenticated_invariant:
  assumes "mion_peer (w_mion w) active"
  shows "pool_local (mgr_act w) carries_own (paths_ok active)"
proof unfold_locales
  fix e t new u and m m' :: "'a Manager"
  assume a: "mgr_act w e t m = Goes new m'" and ok: "paths_ok active m" "carries_own t m"
  note mv = mgr_act_moves [OF a ok(2) assms ok(1)] and grow = mgr_act_tables [OF a] mgr_act_dom [OF a]
  show "paths_ok active m' \<and> (\<forall>u \<in> set new. carries_own u m')"
    using paths_ok_moves [OF ok(1) _ grow] mv by blast
  show "carries_own u m'" if "carries_own u m"
    using carries_own_mono [OF that grow] .
qed

end
