(* ===== verification/Panics.thy ===== *)
theory Panics
  imports Coordination
begin

text \<open>
  The invariant that excludes panics of the manager's goroutines: the pool of proxies is consistent,
  every relay connection that is not yet announced has a signal of its own that is still open, and the
  goroutines that use an entry without a test run for a registered peer. What remains are the two
  actions that can panic.
\<close>

section \<open>Signals\<close>

text \<open>
  The signals that a relay connection is up: each proxy has one of its own, and the one of a
  connection that is being dialled is open, so that it can be closed.
\<close>

definition sig_ok :: "'p Manager \<Rightarrow> bool" where
  "sig_ok m \<longleftrightarrow>
     (\<forall>url p. m_proxies m url = Some p \<longrightarrow> connectedCh p < sig_next (m_store m)) \<and>
     (\<forall>url p url' p'. m_proxies m url = Some p \<longrightarrow> m_proxies m url' = Some p' \<longrightarrow>
        connectedCh p = connectedCh p' \<longrightarrow> url = url')"

definition signal_open :: "string \<Rightarrow> 'p Manager \<Rightarrow> bool" where
  "signal_open url m \<longleftrightarrow> (\<exists>p. m_proxies m url = Some p \<and> \<not> sig_closed (m_store m) (connectedCh p))"

text \<open>Steps that leave the pool consistent and the signals alone.\<close>

definition pool_step_ok :: "'p Manager \<Rightarrow> 'p Manager \<Rightarrow> bool" where
  "pool_step_ok m m' \<longleftrightarrow>
     (mgr_pool m \<longrightarrow> mgr_pool m') \<and> (sig_ok m \<longrightarrow> sig_ok m') \<and>
     (\<forall>url. sig_ok m \<longrightarrow> signal_open url m \<longrightarrow> signal_open url m')"

lemma pool_step_same:
  "m_proxies m' = m_proxies m \<Longrightarrow> m_store m' = m_store m \<Longrightarrow> pool_step_ok m m'"
  by (auto simp: pool_step_ok_def mgr_pool_def sig_ok_def signal_open_def)

lemma pool_step_trans: "pool_step_ok m1 m2 \<Longrightarrow> pool_step_ok m2 m3 \<Longrightarrow> pool_step_ok m1 m3"
  by (auto simp: pool_step_ok_def)

text \<open>An operation of one proxy that leaves its signal alone.\<close>

lemma pool_step_proxy:
  assumes "m_proxies m url = Some p"
    and "mgr_pool m \<Longrightarrow> mgr_pool (m\<lparr>m_proxies := (m_proxies m)(url \<mapsto> p'), m_store := st\<rparr>)"
    and "connectedCh p' = connectedCh p" "sig_closed st = sig_closed (m_store m)" "sig_next st = sig_next (m_store m)"
  shows "pool_step_ok m (m\<lparr>m_proxies := (m_proxies m)(url \<mapsto> p'), m_store := st\<rparr>)"
  using assms by (auto simp: pool_step_ok_def sig_ok_def signal_open_def split: if_splits)

lemma close_session_step: "close_session c m = Some m' \<Longrightarrow> pool_step_ok m m'"
proof (cases "m_proxies m (nc_proxy c)")
  case (Some p)
  assume a: "close_session c m = Some m'"
  then obtain p' st where r: "removeSession (nc_sessionID c) p (m_store m) = Some (p', st)"
    and m': "m' = m\<lparr>m_proxies := (m_proxies m)(nc_proxy c \<mapsto> p'), m_store := st\<rparr>"
    using Some by (auto simp: close_session_def conn_Close_def split: option.splits)
  have "mgr_pool m \<Longrightarrow> mgr_pool m'"
    using close_session_pool [of m c] a by (auto simp: mgr_pool_def)
  then show ?thesis
    unfolding m' using removeSession_sigs [OF r] by (intro pool_step_proxy [OF Some]) auto
qed (simp add: close_session_def pool_step_same)

lemma close_tunnel_step: "close_tunnel t m = Some m' \<Longrightarrow> pool_step_ok m m'"
  by (auto simp: close_tunnel_def split: option.splits intro: close_session_step pool_step_same)

lemma getOrCreateProxy_step:
  assumes "getOrCreateProxy url m = (p, m')"
  shows "pool_step_ok m m'"
proof -
  have "mgr_pool m \<Longrightarrow> mgr_pool m'"
    using pool_getOrCreate [OF _ assms] by (simp add: mgr_pool_def)
  moreover have "sig_ok m \<Longrightarrow> sig_ok m'"
    using assms
    by (fastforce simp: getOrCreateProxy_def NewProxy_def new_signal_def sig_ok_def less_Suc_eq split: option.splits if_splits)
  moreover have "signal_open u m'" if "sig_ok m" "signal_open u m" for u
    using assms that
    by (fastforce simp: getOrCreateProxy_def NewProxy_def new_signal_def sig_ok_def signal_open_def split: option.splits)
  ultimately show ?thesis by (simp add: pool_step_ok_def)
qed

lemma retry_relay_step: "retry_relay url m = (up, m') \<Longrightarrow> pool_step_ok m m'"
  by (auto simp: retry_relay_def split: if_splits prod.splits intro: getOrCreateProxy_step pool_step_same)

lemma connect_begin_step:
  assumes "connect_begin pid m = Inr (c, m')"
  shows "pool_step_ok m m'"
proof -
  obtain e where e: "m_peers m pid = Some e"
    using assms by (auto simp: connect_begin_def split: option.splits)
  obtain p m1 where g: "getOrCreateProxy (pe_relayURL e) m = (p, m1)"
    by fastforce
  obtain p' st where n: "NewSession pid p (m_store m1) = (c, p', st)"
    and m': "m' = m1\<lparr>m_proxies := (m_proxies m1)(pe_relayURL e \<mapsto> p'), m_store := st\<rparr>"
    using assms e g by (auto simp: connect_begin_def split: if_splits prod.splits)
  have p: "m_proxies m1 (pe_relayURL e) = Some p"
    using getOrCreateProxy_frame [OF g] by simp
  have "pool_ok (m_proxies m') (m_store m')" if "pool_ok (m_proxies m1) (m_store m1)"
    using pool_ok_update [OF that p NewSession_inv [OF pool_ok_inv [OF that p] n] own_NewSession [OF n]] by (simp add: m')
  then have "pool_step_ok m1 m'"
    unfolding m' using n
    by (intro pool_step_proxy [OF p]) (auto simp: mgr_pool_def m' NewSession_def new_data_chan_def Let_def)
  with getOrCreateProxy_step [OF g] show ?thesis
    by (rule pool_step_trans)
qed

lemma pool_step_recv:
  "try_recv (acceptCh (m_store m)) = (r, ch) \<Longrightarrow> pool_step_ok m (m\<lparr>m_store := (m_store m)\<lparr>acceptCh := ch\<rparr>\<rparr>)"
  "try_recv (controlCh (m_store m)) = (r', ch') \<Longrightarrow> pool_step_ok m (m\<lparr>m_store := (m_store m)\<lparr>controlCh := ch'\<rparr>\<rparr>)"
  by (auto simp: pool_step_ok_def mgr_pool_def sig_ok_def signal_open_def pool_ok_def store_ok_def sessions_ok_def
      try_recv_def chan_ok_def split: list.splits if_splits)

section \<open>Actions and the pool\<close>

fun relay_url :: "goroutine \<Rightarrow> string list" where
  "relay_url (GRelay url _ _) = [url]"
| "relay_url _ = []"

definition relay_urls :: "goroutine list \<Rightarrow> string list" where
  "relay_urls ts = concat (map relay_url ts)"

fun safe :: "goroutine \<Rightarrow> 'p Manager \<Rightarrow> bool" where
  "safe (GRelay url c l) m \<longleftrightarrow>
     (c = ConnDialing \<or> c = ConnAnnounce \<or> (\<exists>b. l = LoopStart True b) \<longrightarrow> signal_open url m) \<and>
     ((\<exists>first b. l = LoopStart first b) \<or> (\<exists>b. l = LoopSleep b) \<longrightarrow> c = ConnIdle)"
| "safe (GDirect (FallbackProxy pid)) m \<longleftrightarrow> pid \<in> dom (m_peers m)"
| "safe _ m \<longleftrightarrow> True"

lemma safe_other: "relay_url t = [] \<Longrightarrow> safe t m \<Longrightarrow> dom (m_peers m') = dom (m_peers m) \<Longrightarrow> safe t m'"
  by (cases "(t, m)" rule: safe.cases) auto

lemma safe_step: "safe t m \<Longrightarrow> dom (m_peers m') = dom (m_peers m) \<Longrightarrow> pool_step_ok m m' \<Longrightarrow> sig_ok m \<Longrightarrow> safe t m'"
  by (cases "(t, m)" rule: safe.cases) (auto simp: pool_step_ok_def)

text \<open>Every goroutine but those of the relay connections leaves the signals alone.\<close>

lemmas pool_steps = close_session_step close_tunnel_step retry_relay_step connect_begin_step

lemma pool_step_simps [simp]:
  "pool_step_ok m m" "pool_step_ok m (update_entry q f m)" "pool_step_ok m (set_conn api q c m)"
  "pool_step_ok m (clear_conn_if api q c m)" "pool_step_ok m (set_direct b q m)" "pool_step_ok m (retry_done q m)"
  "pool_step_ok m (snd (forward_packets api q pkts m))" "pool_step_ok m (close_direct d m)"
  "pool_step_ok m (probe_failed now addr m)" "pool_step_ok m (probe_succeeded q addr vt m)"
  "pool_step_ok m (relay_connected m)" "pool_step_ok m (clear_relay_conns url m)" "pool_step_ok m (m\<lparr>m_ctx := x\<rparr>)"
  by (auto intro!: pool_step_same simp: primitive_defs split: option.splits prod.splits)

lemma pool_step_new:
  "new_direct pid m = (d, m') \<Longrightarrow> pool_step_ok m m'"
  "install_tunnel pid c cert m = (t, old, m') \<Longrightarrow> pool_step_ok m m'"
  by (auto intro!: pool_step_same simp: new_direct_def install_tunnel_def Let_def)

lemma quiet_act_step:
  assumes "mgr_act w e t m = Goes new m'" "relay_url t = []"
  shows "pool_step_ok m m'"
proof (cases t)
  case (GRetry g)
  with assms(1) show ?thesis
    by (cases g) (auto simp: Goes_iffs after_handshake_def
      split: option.splits if_splits sum.splits event.splits prod.splits dest: pool_steps pool_step_new)
next
  case (GTunnel g)
  with assms(1) show ?thesis
    by (cases g) (auto simp: Goes_iffs after_handshake_def
      split: option.splits if_splits sum.splits event.splits prod.splits recv_outcome.splits
      dest: pool_steps pool_step_new pool_step_recv)
next
  case (GProbe g)
  with assms(1) show ?thesis
    by (cases g) (auto simp: Goes_iffs probe_ok_def Let_def
      split: event.splits if_splits prod.splits recv_outcome.splits option.splits list.splits
      dest!: control_act_Goes probe_head_Goes dest: pool_step_recv)
next
  case (GDirect g)
  with assms(1) show ?thesis
    by (cases g) (auto simp: Goes_iffs after_fallback_def fallback_begin_def fallback_take_def fallback_retry_def
      promote_commit_def split: option.splits if_splits event.splits prod.splits bool.splits
      dest: pool_steps pool_step_new)
qed (use assms in \<open>auto split: if_splits\<close>)

text \<open>A relay connection: what happens to its own signal and to those of the others.\<close>

lemma connect_act_pool:
  assumes "connect_act e url c l m = Goes new m'" "mgr_pool m"
  shows "mgr_pool m'"
proof -
  obtain i p c' p' st where p: "m_proxies m url = Some p" and mv: "connect_next i c p (m_store m) = ConnMoves c' p' st"
    and m': "m' = m\<lparr>m_proxies := (m_proxies m)(url \<mapsto> p'), m_store := st\<rparr>"
    using assms(1) by (auto simp: connect_act_Goes)
  have pool: "pool_ok (m_proxies m) (m_store m)"
    using assms(2) by (simp add: mgr_pool_def)
  note inv = pool_ok_inv [OF pool p]
  from pool_ok_update [OF pool p connect_next_inv [OF inv mv] own_connect_next [OF inv mv]] show ?thesis
    by (simp add: mgr_pool_def m')
qed

lemma connect_act_step:
  assumes "connect_act e url c l m = Goes new m'" "c \<noteq> ConnAnnounce"
  shows "pool_step_ok m m'"
proof -
  obtain i p c' p' st where p: "m_proxies m url = Some p" and mv: "connect_next i c p (m_store m) = ConnMoves c' p' st"
    and m': "m' = m\<lparr>m_proxies := (m_proxies m)(url \<mapsto> p'), m_store := st\<rparr>"
    using assms(1) by (auto simp: connect_act_Goes)
  show ?thesis
    unfolding m' using connect_next_frame [OF mv] assms(2) connect_act_pool [OF assms(1)]
    by (intro pool_step_proxy [OF p]) (auto simp: m')
qed

text \<open>The two steps that change a signal: the relay connection is up, and it is about to be dialled again.\<close>

lemma pool_ok_signals [simp]:
  "pool_ok ps (st\<lparr>sig_closed := f\<rparr>) = pool_ok ps st" "pool_ok ps (st\<lparr>sig_next := n\<rparr>) = pool_ok ps st"
  by (simp_all add: pool_ok_def store_ok_def sessions_ok_def)

lemma pool_ok_writer:
  "pool_ok ps st \<Longrightarrow> ps url = Some p \<Longrightarrow> sessions p' = sessions p \<Longrightarrow> relayURL p' = relayURL p \<Longrightarrow> pool_ok (ps(url \<mapsto> p')) st"
  by (rule pool_ok_update) (auto simp: pool_ok_def h2_inv_def sessions_ok_def intro: own_channelsI)

lemma mgr_pool_signal:
  assumes "mgr_pool m" "m_proxies m url = Some p" "sessions p' = sessions p" "relayURL p' = relayURL p"
  shows "mgr_pool (m\<lparr>m_proxies := (m_proxies m)(url \<mapsto> p'), m_store := (m_store m)\<lparr>sig_closed := f, sig_next := n\<rparr>\<rparr>)"
proof -
  have "pool_ok ((m_proxies m)(url \<mapsto> p')) (m_store m)"
    using assms pool_ok_writer unfolding mgr_pool_def by blast
  then show ?thesis by (simp add: mgr_pool_def)
qed

lemma announce_step:
  assumes "connect_act e url ConnAnnounce l m = Goes new m'" "sig_ok m"
  shows "sig_ok m'" "\<And>u. u \<noteq> url \<Longrightarrow> signal_open u m \<Longrightarrow> signal_open u m'"
proof -
  obtain p where p: "m_proxies m url = Some p"
    and m': "m' = m\<lparr>m_proxies := (m_proxies m)(url \<mapsto> p),
      m_store := (m_store m)\<lparr>sig_closed := (sig_closed (m_store m))(connectedCh p := True)\<rparr>\<rparr>"
    using assms(1) by (auto simp: connect_act_Goes conn_moves_iff connect_announce_def split: if_splits)
  show "sig_ok m'"
    using assms(2) p by (auto simp: sig_ok_def m' split: if_splits)
  show "signal_open u m'" if u: "u \<noteq> url" "signal_open u m" for u
  proof -
    obtain q where q: "m_proxies m u = Some q" "\<not> sig_closed (m_store m) (connectedCh q)"
      using u(2) by (auto simp: signal_open_def)
    then have "connectedCh q \<noteq> connectedCh p"
      using assms(2) p q(1) u(1) unfolding sig_ok_def by blast
    with q u(1) show ?thesis by (simp add: signal_open_def m')
  qed
qed

lemma reset_step:
  assumes "with_proxy url m (\<lambda>p st. Some (Reset p st)) new' = Goes new m'" "mgr_pool m" "sig_ok m"
  shows "mgr_pool m'" "sig_ok m'" "signal_open url m'" "\<And>u. signal_open u m \<Longrightarrow> signal_open u m'"
proof -
  obtain p where p: "m_proxies m url = Some p"
    and m': "m' = m\<lparr>m_proxies := (m_proxies m)(url \<mapsto> p\<lparr>connectedCh := sig_next (m_store m)\<rparr>),
      m_store := (m_store m)\<lparr>sig_closed := (sig_closed (m_store m))(sig_next (m_store m) := False),
        sig_next := Suc (sig_next (m_store m))\<rparr>\<rparr>"
    using assms(1) by (auto simp: Goes_iffs Reset_def new_signal_def)
  show "mgr_pool m'"
    unfolding m' by (rule mgr_pool_signal [OF assms(2) p]) simp_all
  have below: "connectedCh q < sig_next (m_store m)" if "m_proxies m u = Some q" for u q
    using assms(3) that by (simp add: sig_ok_def)
  have apart: "u = u'" if "m_proxies m u = Some q" "m_proxies m u' = Some q'" "connectedCh q = connectedCh q'" for u u' q q'
    using assms(3) that unfolding sig_ok_def by blast
  show "sig_ok m'"
    unfolding sig_ok_def m'
    by (auto simp: less_Suc_eq split: if_splits dest: below apart)
  show "signal_open url m'"
    by (simp add: signal_open_def m')
  then show "signal_open u m'" if u: "signal_open u m" for u
  proof (cases "u = url")
    case False
    obtain q where "m_proxies m u = Some q" "\<not> sig_closed (m_store m) (connectedCh q)"
      using u by (auto simp: signal_open_def)
    with False below show ?thesis by (auto simp: signal_open_def m')
  qed (use \<open>signal_open url m'\<close> in simp)
qed

lemma loop_act_urls: "loop_act e url c l m = Goes new m' \<Longrightarrow> relay_urls new = [url]"
  by (cases l)
    (auto simp: Goes_iffs connect_returned_def relay_urls_def comp_def split: event.splits if_splits list.splits prod.splits)

lemma mgr_act_urls:
  assumes "mgr_act w e t m = Goes new m'"
  shows "relay_urls new = relay_url t"
proof (cases t)
  case (GRelay url c l)
  with assms have "relay_act e url c l m = Goes new m'"
    by simp
  then show ?thesis
    using GRelay
    by (cases rule: relay_act_cases) (auto simp: loop_act_urls dest!: connect_act_effect, simp add: relay_urls_def)
next
  case (GRetry g)
  with assms show ?thesis
    by (cases g) (auto simp: Goes_iffs after_handshake_def relay_urls_def
      split: option.splits if_splits sum.splits event.splits prod.splits)
next
  case (GTunnel g)
  with assms show ?thesis
    by (cases g) (auto simp: Goes_iffs after_handshake_def relay_urls_def
      split: option.splits if_splits sum.splits event.splits prod.splits recv_outcome.splits)
next
  case (GProbe g)
  with assms probe_act_effect(2) [of "w_decode w" e g m new m'] show ?thesis
    by (auto simp: relay_urls_def)
next
  case (GDirect g)
  with assms show ?thesis
    by (cases g) (auto simp: Goes_iffs after_fallback_def relay_urls_def
      split: option.splits if_splits event.splits prod.splits bool.splits)
qed (use assms in \<open>auto simp: relay_urls_def split: if_splits\<close>)

section \<open>The invariant\<close>

definition mgr_inv :: "goroutine list \<Rightarrow> 'p Manager \<Rightarrow> bool" where
  "mgr_inv ts m \<longleftrightarrow>
     mgr_pool m \<and> sig_ok m \<and> m_ctx m \<noteq> None \<and> m_role m \<noteq> None \<and> distinct (relay_urls ts) \<and> (\<forall>t \<in> set ts. safe t m)"

lemma relay_act_safe:
  assumes "relay_act e url c l m = Goes new m'" "safe (GRelay url c l) m" "mgr_pool m" "sig_ok m"
  shows "mgr_pool m' \<and> sig_ok m' \<and> (\<forall>u \<in> set new. safe u m') \<and> (\<forall>u. u \<noteq> url \<longrightarrow> signal_open u m \<longrightarrow> signal_open u m')"
  using assms(1)
proof (cases rule: relay_act_cases)
  case conn
  then obtain i p c' p' st where mv: "connect_next i c p (m_store m) = ConnMoves c' p' st" and new: "new = [GRelay url c' l]"
    by (auto simp: connect_act_Goes)
  have idle: "c \<noteq> ConnIdle"
    using mv by auto
  have c': "c' \<noteq> ConnIdle" "c' \<noteq> ConnDialing" "before_signal c' \<Longrightarrow> before_signal c \<and> c \<noteq> ConnAnnounce"
    using connect_next_frame [OF mv] by (auto split: if_splits)
  have pool: "mgr_pool m'"
    using connect_act_pool [OF conn assms(3)] .
  show ?thesis
  proof (cases "c = ConnAnnounce")
    case True
    then show ?thesis
      using announce_step [OF _ assms(4), of e url l new m'] conn new c' idle pool assms(2) by (auto simp: pc_defs)
  next
    case False
    then show ?thesis
      using connect_act_step [OF conn] new c' idle pool assms(2-4) by (auto simp: pool_step_ok_def pc_defs)
  qed
next
  case loop
  show ?thesis
  proof (cases "\<exists>b. l = LoopStart False b")
    case True
    then obtain b where "with_proxy url m (\<lambda>p st. Some (Reset p st)) [GRelay url ConnDialing (LoopSelect b)] = Goes new m'"
      using loop by (auto simp: on_go_Goes)
    with reset_step [OF this assms(3,4)] show ?thesis by (auto simp: with_proxy_Goes)
  next
    case False
    have "pool_step_ok m m' \<and> (\<forall>u \<in> set new. relay_url u = [] \<and> safe u m' \<or>
        (\<exists>c' l'. u = GRelay url c' l' \<and> (c' = ConnDialing \<or> c' = ConnAnnounce \<or> (\<exists>b. l' = LoopStart True b) \<longrightarrow>
          c = ConnDialing \<or> c = ConnAnnounce \<or> (\<exists>b. l = LoopStart True b)) \<and>
          ((\<exists>first b. l' = LoopStart first b) \<or> (\<exists>b. l' = LoopSleep b) \<longrightarrow> c' = ConnIdle)))"
      using loop False assms(2)
      by (cases l) (auto simp: Goes_iffs connect_returned_def simp del: start_retries.simps
          split: event.splits if_splits list.splits prod.splits option.splits dest!: start_retry_one)
    then show ?thesis
      using assms(2-4) by (fastforce simp: pool_step_ok_def)
  qed
qed

lemma quiet_act_safe:
  assumes "mgr_act w e t m = Goes new m'" "relay_url t = []"
  shows "\<forall>u \<in> set new. safe u m'"
proof (cases t)
  case (GDirect g)
  with assms(1) show ?thesis
    by (cases g) (auto simp: Goes_iffs after_fallback_def fallback_begin_def
      split: option.splits if_splits event.splits prod.splits bool.splits)
next
  case (GProbe g)
  with assms(1) probe_act_effect(2) [of "w_decode w" e g m new m'] show ?thesis by auto
next
  case (GRetry g)
  with assms(1) show ?thesis
    by (cases g) (auto simp: Goes_iffs after_handshake_def
      split: option.splits if_splits sum.splits event.splits prod.splits)
next
  case (GTunnel g)
  with assms(1) show ?thesis
    by (cases g) (auto simp: Goes_iffs after_handshake_def
      split: option.splits if_splits sum.splits event.splits prod.splits recv_outcome.splits)
qed (use assms in \<open>auto split: if_splits\<close>)

interpretation mgr_consistent: pool_invariant "mgr_act w" mgr_inv
  for w :: "'p world"
proof unfold_locales
  fix e t new ts1 ts2 and m m' :: "'p Manager"
  assume a: "mgr_act w e t m = Goes new m'" and inv: "mgr_inv (ts1 @ t # ts2) m"
  have urls: "distinct (relay_urls (ts1 @ new @ ts2))"
    using inv mgr_act_urls [OF a] by (simp add: mgr_inv_def relay_urls_def)
  have fixed: "m_ctx m' \<noteq> None" "m_role m' \<noteq> None"
    using inv mgr_act_fixed [OF a] by (auto simp: mgr_inv_def fixed_part_def)
  have ok: "mgr_pool m" "sig_ok m" "safe t m" and others: "\<forall>u \<in> set ts1 \<union> set ts2. safe u m"
    using inv by (auto simp: mgr_inv_def)
  note dom = mgr_act_dom [OF a]
  show "mgr_inv (ts1 @ new @ ts2) m'"
  proof (cases "relay_url t = []")
    case True
    have step: "pool_step_ok m m'"
      using quiet_act_step [OF a True] .
    have "\<forall>u \<in> set ts1 \<union> set ts2. safe u m'"
      using others safe_step [OF _ dom step ok(2)] by blast
    then show ?thesis
      using urls fixed quiet_act_safe [OF a True] step ok by (auto simp: mgr_inv_def pool_step_ok_def)
  next
    case False
    then obtain url c l where t: "t = GRelay url c l"
      by (cases t) auto
    have r: "mgr_pool m' \<and> sig_ok m' \<and> (\<forall>u \<in> set new. safe u m') \<and>
        (\<forall>u. u \<noteq> url \<longrightarrow> signal_open u m \<longrightarrow> signal_open u m')"
      using relay_act_safe [of e url c l m new m'] a ok by (simp add: t)
    have "safe u m'" if "u \<in> set ts1 \<union> set ts2" for u
    proof (cases u)
      case (GRelay url' c' l')
      then have "url' \<noteq> url"
        using inv that by (auto simp: mgr_inv_def relay_urls_def t)
      moreover have "safe u m"
        using others that by blast
      ultimately show ?thesis
        using GRelay r by auto
    qed (use safe_other [OF _ _ dom] others that in \<open>auto\<close>)
    then show ?thesis
      using urls fixed r by (auto simp: mgr_inv_def)
  qed
qed

section \<open>Actions that panic\<close>

lemma with_proxy_Panics:
  "with_proxy url m f new = Panics \<longleftrightarrow> (\<exists>p. m_proxies m url = Some p \<and> f p (m_store m) = None)"
  by (auto simp: with_proxy_def split: option.splits)

lemma after_close_Panics: "after_close res new = Panics \<longleftrightarrow> res = None"
  by (auto simp: after_close_def split: option.splits)

lemma guards_Panics:
  "on_go e out = Panics \<longleftrightarrow> e = Go \<and> out = Panics"
  "or_cancelled e m stop out = Panics \<longleftrightarrow> e \<noteq> Cancelled \<and> out = Panics"
  by (simp_all add: on_go_def or_cancelled_def)

lemmas Panics_iffs = with_proxy_Panics after_close_Panics guards_Panics

lemma closes_total:
  "mgr_pool m \<Longrightarrow> (close_session c m = None) = False" "mgr_pool m \<Longrightarrow> (close_tunnel t m = None) = False"
  using close_session_pool [of m c] close_tunnel_pool [of m t] by (auto simp: mgr_pool_def)

lemma relay_act_no_panic:
  assumes "safe (GRelay url c l) m" "mgr_pool m"
  shows "relay_act e url c l m \<noteq> Panics"
proof
  assume "relay_act e url c l m = Panics"
  then consider "connect_act e url c l m = Panics" | "loop_act e url c l m = Panics"
    by (auto simp: relay_act_def split: outcome.splits)
  then show False
  proof cases
    case 1
    then obtain i p where p: "m_proxies m url = Some p" "connect_next i c p (m_store m) = ConnPanics"
      by (auto simp: connect_act_def split: event.splits option.splits connect_out.splits)
    have "h2_inv p (m_store m)"
      using pool_ok_inv [of "m_proxies m"] p(1) assms(2) by (simp add: mgr_pool_def)
    with connect_next_total [of p "m_store m" c i] p assms(1) show False
      by (auto simp: signal_open_def)
  next
    case 2
    then show False
      by (cases l) (auto simp: Panics_iffs connect_returned_def split: event.splits if_splits list.splits prod.splits)
  qed
qed

lemma only_panics:
  assumes "mgr_act w e t m = Panics" "mgr_inv ts m" "t \<in> set ts"
  shows "(\<exists>pid. t = GDirect (Promote pid) \<and> pid \<notin> dom (m_peers m)) \<or>
    (\<exists>pid addr deadline now. t = GProbe (ProbeFirst pid addr deadline) \<and> e = At now \<and> deadline \<le> now)"
proof -
  have ok: "mgr_pool m" "m_ctx m \<noteq> None" "m_role m \<noteq> None" "safe t m"
    using assms(2,3) by (auto simp: mgr_inv_def)
  note total = closes_total [OF ok(1)]
  show ?thesis
  proof (cases t)
    case (GRelay url c l)
    with assms(1) relay_act_no_panic [of url c l m e] ok show ?thesis by simp
  next
    case (GRetry g)
    with assms(1) ok show ?thesis
      by (cases g) (auto simp: Panics_iffs total after_handshake_def
        split: option.splits if_splits sum.splits event.splits prod.splits)
  next
    case (GTunnel g)
    with assms(1) ok show ?thesis
      by (cases g) (auto simp: Panics_iffs total after_handshake_def
        split: option.splits if_splits sum.splits event.splits prod.splits recv_outcome.splits)
  next
    case (GProbe g)
    with assms(1) ok show ?thesis
      by (cases g) (auto simp: Panics_iffs probe_ok_def probe_head_def control_act_def probe_succeeded_def
        split: option.splits if_splits event.splits prod.splits recv_outcome.splits list.splits)
  next
    case (GDirect g)
    with assms(1) ok show ?thesis
      by (cases g) (auto simp: Panics_iffs total after_fallback_def fallback_begin_def promote_check_def set_direct_def
        split: option.splits if_splits event.splits prod.splits bool.splits)
  qed (use assms(1) in \<open>auto split: if_splits\<close>)
qed

end
