(* ===== verification/Json.thy ===== *)
theory Json
  imports GoText
begin

text \<open>
  \<open>encoding/json\<close> of Go's standard library, as far as control messages need it: the values, the
  compact encoder with its escapes for HTML, the syntax check with its limit on nesting, and the
  decoding of string literals, in which invalid UTF-8 is replaced. The decoder into a structure is
  in the theory of the messages.
\<close>

section \<open>Values\<close>

text \<open>A number is kept as its literal, an object as its members in order, with duplicates.\<close>

datatype json = JNull | JBool bool | JNum string | JStr string | JArr "json list" | JObj "(string \<times> json) list"

section \<open>UTF-8\<close>

definition byte_in :: "nat \<Rightarrow> nat \<Rightarrow> char \<Rightarrow> bool" where
  "byte_in lo hi c \<longleftrightarrow> lo \<le> of_char c \<and> of_char c \<le> hi"

text \<open>The length of the encoded character at the front of a text that is not ASCII, 0 if it is invalid.\<close>

definition utf8_size :: "string \<Rightarrow> nat" where
  "utf8_size s =
     (let b = (\<lambda>i lo hi. i < length s \<and> byte_in lo hi (s ! i)) in
      if b 0 0xC2 0xDF \<and> b 1 0x80 0xBF then 2
      else if (b 0 0xE0 0xE0 \<and> b 1 0xA0 0xBF \<or> b 0 0xE1 0xEC \<and> b 1 0x80 0xBF \<or> b 0 0xED 0xED \<and> b 1 0x80 0x9F \<or>
               b 0 0xEE 0xEF \<and> b 1 0x80 0xBF) \<and> b 2 0x80 0xBF then 3
      else if (b 0 0xF0 0xF0 \<and> b 1 0x90 0xBF \<or> b 0 0xF1 0xF3 \<and> b 1 0x80 0xBF \<or> b 0 0xF4 0xF4 \<and> b 1 0x80 0x8F) \<and>
              b 2 0x80 0xBF \<and> b 3 0x80 0xBF then 4
      else 0)"

definition replacement :: string where
  "replacement = [CHR 0xEF, CHR 0xBF, CHR 0xBD]"

text \<open>\<open>utf8.EncodeRune\<close>; a surrogate becomes the replacement character.\<close>

definition EncodeRune :: "nat \<Rightarrow> string" where
  "EncodeRune r =
     (if r < 0x80 then [char_of r]
      else if r < 0x800 then [char_of (0xC0 + r div 64), char_of (0x80 + r mod 64)]
      else if 0xD800 \<le> r \<and> r \<le> 0xDFFF \<or> 0x10FFFF < r then replacement
      else if r < 0x10000 then [char_of (0xE0 + r div 4096), char_of (0x80 + r div 64 mod 64), char_of (0x80 + r mod 64)]
      else [char_of (0xF0 + r div 262144), char_of (0x80 + r div 4096 mod 64), char_of (0x80 + r div 64 mod 64),
            char_of (0x80 + r mod 64)])"

section \<open>Writing\<close>

definition json_safe :: "char \<Rightarrow> bool" where
  "json_safe c \<longleftrightarrow> byte_in 0x20 0x7F c \<and> c \<notin> {CHR 0x22, CHR 0x5C, CHR ''<'', CHR ''>'', CHR ''&''}"

definition escape_ascii :: "char \<Rightarrow> string" where
  "escape_ascii c =
     (if json_safe c then [c]
      else if c = CHR 0x22 \<or> c = CHR 0x5C then [CHR 0x5C, c]
      else if c = CHR 0x08 then [CHR 0x5C, CHR ''b'']
      else if c = CHR 0x0C then [CHR 0x5C, CHR ''f'']
      else if c = CHR 0x0A then [CHR 0x5C, CHR ''n'']
      else if c = CHR 0x0D then [CHR 0x5C, CHR ''r'']
      else if c = CHR 0x09 then [CHR 0x5C, CHR ''t'']
      else CHR 0x5C # ''u00'' @ [hex_digit (int (of_char c div 16)), hex_digit (int (of_char c mod 16))])"

function escape :: "string \<Rightarrow> string" where
  "escape s =
     (case s of
        [] \<Rightarrow> []
      | c # cs \<Rightarrow>
          if byte_in 0 0x7F c then escape_ascii c @ escape cs
          else if utf8_size s = 0 then CHR 0x5C # ''ufffd'' @ escape cs
          else if HasPrefix s [CHR 0xE2, CHR 0x80, CHR 0xA8] then CHR 0x5C # ''u2028'' @ escape (drop 2 cs)
          else if HasPrefix s [CHR 0xE2, CHR 0x80, CHR 0xA9] then CHR 0x5C # ''u2029'' @ escape (drop 2 cs)
          else take (utf8_size s) s @ escape (drop (utf8_size s - 1) cs))"
  by pat_completeness auto
termination
  by (relation "measure length") auto

declare escape.simps [simp del]

definition quoted :: "string \<Rightarrow> string" where
  "quoted s = CHR 0x22 # escape s @ [CHR 0x22]"

fun json_text :: "json \<Rightarrow> string" where
  "json_text JNull = ''null''"
| "json_text (JBool b) = (if b then ''true'' else ''false'')"
| "json_text (JNum n) = n"
| "json_text (JStr s) = quoted s"
| "json_text (JArr vs) = ''['' @ Join (map json_text vs) '','' @ '']''"
| "json_text (JObj ms) = ''{'' @ Join (map (\<lambda>(k, v). quoted k @ '':'' @ json_text v) ms) '','' @ ''}''"

section \<open>Reading string literals\<close>

definition hex4 :: "string \<Rightarrow> nat option" where
  "hex4 s =
     (if length s < 4 then None
      else case (hex_val (s ! 0), hex_val (s ! 1), hex_val (s ! 2), hex_val (s ! 3)) of
        (Some a, Some b, Some c, Some d) \<Rightarrow> Some (4096 * a + 256 * b + 16 * c + d)
      | _ \<Rightarrow> None)"

text \<open>A \<open>\u\<close> escape whose first code unit is \<open>r\<close>: the text it stands for and how much of the rest it takes.\<close>

definition unit_text :: "nat \<Rightarrow> string \<Rightarrow> string \<times> nat" where
  "unit_text r rest =
     (if 0xD800 \<le> r \<and> r \<le> 0xDFFF then
        (case (if HasPrefix rest [CHR 0x5C, CHR ''u''] then hex4 (drop 2 rest) else None) of
           Some r2 \<Rightarrow>
             if r \<le> 0xDBFF \<and> 0xDC00 \<le> r2 \<and> r2 \<le> 0xDFFF
             then (EncodeRune (0x10000 + (r - 0xD800) * 1024 + (r2 - 0xDC00)), 6) else (replacement, 0)
         | None \<Rightarrow> (replacement, 0))
      else (EncodeRune r, 0))"

definition simple_escape :: "char \<Rightarrow> char option" where
  "simple_escape e =
     (if e = CHR 0x22 \<or> e = CHR 0x5C \<or> e = CHR ''/'' then Some e
      else if e = CHR ''b'' then Some CHR 0x08
      else if e = CHR ''f'' then Some CHR 0x0C
      else if e = CHR ''n'' then Some CHR 0x0A
      else if e = CHR ''r'' then Some CHR 0x0D
      else if e = CHR ''t'' then Some CHR 0x09
      else None)"

text \<open>The characters up to the closing quote, decoded, and the rest.\<close>

function parse_string :: "string \<Rightarrow> (string \<times> string) option" where
  "parse_string s =
     (case s of
        [] \<Rightarrow> None
      | c # cs \<Rightarrow>
          if c = CHR 0x22 then Some ([], cs)
          else if byte_in 0 0x1F c then None
          else if c = CHR 0x5C then
            (case cs of
               [] \<Rightarrow> None
             | e # es \<Rightarrow>
                 (case simple_escape e of
                    Some d \<Rightarrow> map_option (\<lambda>(t, r). (d # t, r)) (parse_string es)
                  | None \<Rightarrow>
                      if e \<noteq> CHR ''u'' then None
                      else case hex4 es of
                        None \<Rightarrow> None
                      | Some u \<Rightarrow>
                          (case unit_text u (drop 4 es) of
                             (txt, n) \<Rightarrow> map_option (\<lambda>(t, r). (txt @ t, r)) (parse_string (drop (4 + n) es)))))
          else if byte_in 0 0x7F c then map_option (\<lambda>(t, r). (c # t, r)) (parse_string cs)
          else if utf8_size s = 0 then map_option (\<lambda>(t, r). (replacement @ t, r)) (parse_string cs)
          else map_option (\<lambda>(t, r). (take (utf8_size s) s @ t, r)) (parse_string (drop (utf8_size s - 1) cs)))"
  by pat_completeness auto
termination
  by (relation "measure length") auto

declare parse_string.simps [simp del]

section \<open>Reading values\<close>

definition skip_ws :: "string \<Rightarrow> string" where
  "skip_ws s = dropWhile (\<lambda>c. c \<in> {CHR 0x20, CHR 0x09, CHR 0x0A, CHR 0x0D}) s"

lemma skip_ws_length: "length (skip_ws s) \<le> length s" "skip_ws s = c # r \<Longrightarrow> length r < length s"
  using length_dropWhile_le [of "\<lambda>c. c \<in> {CHR 0x20, CHR 0x09, CHR 0x0A, CHR 0x0D}" s] by (auto simp: skip_ws_def)

definition is_digit :: "char \<Rightarrow> bool" where
  "is_digit c \<longleftrightarrow> digit_val c \<noteq> None"

definition digits :: "string \<Rightarrow> string \<times> string" where
  "digits s = (takeWhile is_digit s, dropWhile is_digit s)"

text \<open>The literal of a number at the front: sign, integer part without leading zeros, fraction, exponent.\<close>

definition int_part :: "string \<Rightarrow> (string \<times> string) option" where
  "int_part s =
     (case s of
        [] \<Rightarrow> None
      | c # cs \<Rightarrow>
          if c = CHR ''0'' then Some (''0'', cs)
          else if is_digit c then Some (digits s)
          else None)"

definition frac_part :: "string \<Rightarrow> (string \<times> string) option" where
  "frac_part s =
     (if s \<noteq> [] \<and> hd s = CHR ''.'' then
        (case digits (tl s) of (ds, r) \<Rightarrow> if ds = [] then None else Some (CHR ''.'' # ds, r))
      else Some ([], s))"

definition exp_part :: "string \<Rightarrow> (string \<times> string) option" where
  "exp_part s =
     (if s \<noteq> [] \<and> hd s \<in> {CHR ''e'', CHR ''E''} then
        (let sign = (if tl s \<noteq> [] \<and> hd (tl s) \<in> {CHR ''+'', CHR ''-''} then [hd (tl s)] else []) in
         case digits (drop (1 + length sign) s) of
           (ds, r) \<Rightarrow> if ds = [] then None else Some (hd s # sign @ ds, r))
      else Some ([], s))"

definition parse_number :: "string \<Rightarrow> (string \<times> string) option" where
  "parse_number s =
     (let neg = (s \<noteq> [] \<and> hd s = CHR ''-'') in
      case int_part (if neg then tl s else s) of
        None \<Rightarrow> None
      | Some (i, r1) \<Rightarrow>
          (case frac_part r1 of
             None \<Rightarrow> None
           | Some (f, r2) \<Rightarrow>
               (case exp_part r2 of
                  None \<Rightarrow> None
                | Some (e, r3) \<Rightarrow> Some ((if neg then ''-'' else []) @ i @ f @ e, r3))))"

definition parse_word :: "string \<Rightarrow> (json \<times> string) option" where
  "parse_word s =
     (if HasPrefix s ''null'' then Some (JNull, drop 4 s)
      else if HasPrefix s ''true'' then Some (JBool True, drop 4 s)
      else if HasPrefix s ''false'' then Some (JBool False, drop 5 s)
      else map_option (\<lambda>(n, r). (JNum n, r)) (parse_number s))"

definition maxNestingDepth :: int where
  "maxNestingDepth = 10000"

text \<open>
  The lengths that the element and member loops compare are those of the text before and after a
  value: a value is never empty, so the comparison holds whenever a value was read.
\<close>

function parse_value :: "int \<Rightarrow> string \<Rightarrow> (json \<times> string) option"
  and parse_elems :: "int \<Rightarrow> string \<Rightarrow> (json list \<times> string) option"
  and parse_members :: "int \<Rightarrow> string \<Rightarrow> ((string \<times> json) list \<times> string) option"
where
  "parse_value d s =
     (case skip_ws s of
        [] \<Rightarrow> None
      | c # r \<Rightarrow>
          if c = CHR 0x22 then map_option (\<lambda>(t, q). (JStr t, q)) (parse_string r)
          else if c = CHR ''['' then
            (if d \<ge> maxNestingDepth then None
             else if skip_ws r \<noteq> [] \<and> hd (skip_ws r) = CHR '']'' then Some (JArr [], tl (skip_ws r))
             else map_option (\<lambda>(vs, q). (JArr vs, q)) (parse_elems (d + 1) r))
          else if c = CHR ''{'' then
            (if d \<ge> maxNestingDepth then None
             else if skip_ws r \<noteq> [] \<and> hd (skip_ws r) = CHR ''}'' then Some (JObj [], tl (skip_ws r))
             else map_option (\<lambda>(ms, q). (JObj ms, q)) (parse_members (d + 1) r))
          else parse_word (c # r))"
| "parse_elems d s =
     (case parse_value d s of
        None \<Rightarrow> None
      | Some (v, r) \<Rightarrow>
          if \<not> length r < length s then None
          else (case skip_ws r of
                  [] \<Rightarrow> None
                | c # q \<Rightarrow>
                    if c = CHR '','' then map_option (\<lambda>(vs, z). (v # vs, z)) (parse_elems d q)
                    else if c = CHR '']'' then Some ([v], q)
                    else None))"
| "parse_members d s =
     (case skip_ws s of
        [] \<Rightarrow> None
      | b # r0 \<Rightarrow>
          if b \<noteq> CHR 0x22 then None
          else (case parse_string r0 of
                  None \<Rightarrow> None
                | Some (k, r1) \<Rightarrow>
                    (case skip_ws r1 of
                       [] \<Rightarrow> None
                     | e # r2 \<Rightarrow>
                         if e \<noteq> CHR '':'' \<or> \<not> length r2 < length s then None
                         else (case parse_value d r2 of
                                 None \<Rightarrow> None
                               | Some (v, r3) \<Rightarrow>
                                   if \<not> length r3 < length s then None
                                   else (case skip_ws r3 of
                                           [] \<Rightarrow> None
                                         | c # q \<Rightarrow>
                                             if c = CHR '','' then map_option (\<lambda>(ms, z). ((k, v) # ms, z)) (parse_members d q)
                                             else if c = CHR ''}'' then Some ([(k, v)], q)
                                             else None)))))"
  by pat_completeness auto
termination
proof (relation "measure (\<lambda>x. case x of Inl (d, s) \<Rightarrow> 2 * length s
    | Inr (Inl (d, s)) \<Rightarrow> 2 * length s + 1 | Inr (Inr (d, s)) \<Rightarrow> 2 * length s + 1)")
qed (auto dest!: skip_ws_length(2))

declare parse_value.simps [simp del] parse_elems.simps [simp del] parse_members.simps [simp del]

text \<open>\<open>checkValid\<close> and the value: nothing but white space may follow.\<close>

definition json_parse :: "string \<Rightarrow> json option" where
  "json_parse s =
     (case parse_value 0 s of
        None \<Rightarrow> None
      | Some (v, r) \<Rightarrow> if skip_ws r = [] then Some v else None)"

section \<open>Round trip\<close>

text \<open>Values whose strings need no escape and whose numbers are naturals; all that the program sends.\<close>

definition safe_text :: "string \<Rightarrow> bool" where
  "safe_text s \<longleftrightarrow> (\<forall>c \<in> set s. json_safe c)"

fun json_ok :: "json \<Rightarrow> bool" where
  "json_ok JNull = True"
| "json_ok (JBool b) = True"
| "json_ok (JNum n) \<longleftrightarrow> (\<exists>k. n = dec k)"
| "json_ok (JStr s) \<longleftrightarrow> safe_text s"
| "json_ok (JArr vs) \<longleftrightarrow> (\<forall>v \<in> set vs. json_ok v)"
| "json_ok (JObj ms) \<longleftrightarrow> (\<forall>(k, v) \<in> set ms. safe_text k \<and> json_ok v)"

fun json_depth :: "json \<Rightarrow> nat" where
  "json_depth (JArr vs) = Suc (Max (insert 0 (json_depth ` set vs)))"
| "json_depth (JObj ms) = Suc (Max (insert 0 ((\<lambda>(k, v). json_depth v) ` set ms)))"
| "json_depth _ = 0"

definition follows :: "string \<Rightarrow> bool" where
  "follows rest \<longleftrightarrow> rest = [] \<or> hd rest \<in> {CHR '','', CHR '']'', CHR ''}''}"

lemma safe_char: "json_safe c \<Longrightarrow> c \<noteq> CHR 0x22 \<and> c \<noteq> CHR 0x5C \<and> byte_in 0 0x7F c \<and> \<not> byte_in 0 0x1F c"
  by (auto simp: json_safe_def byte_in_def)

lemma safe_text_Cons [simp]: "safe_text (c # s) \<longleftrightarrow> json_safe c \<and> safe_text s"
  by (simp add: safe_text_def)

lemma escape_safe: "safe_text s \<Longrightarrow> escape s = s"
proof (induction s)
  case (Cons c s)
  then show ?case
    using safe_char [of c] by (subst escape.simps) (simp add: escape_ascii_def)
qed (simp add: escape.simps)

lemma parse_string_safe: "safe_text s \<Longrightarrow> parse_string (s @ CHR 0x22 # rest) = Some (s, rest)"
proof (induction s)
  case (Cons c s)
  then show ?case
    using safe_char [of c] by (subst append_Cons, subst parse_string.simps) simp
qed (simp add: parse_string.simps)

lemma skip_ws_stop: "s = [] \<or> hd s \<notin> {CHR 0x20, CHR 0x09, CHR 0x0A, CHR 0x0D} \<Longrightarrow> skip_ws s = s"
  by (cases s) (auto simp: skip_ws_def)

lemma follows_stop: "follows rest \<Longrightarrow> skip_ws rest = rest"
  by (rule skip_ws_stop) (auto simp: follows_def)

subsection \<open>Numbers\<close>

lemma is_digit_dec: "c \<in> set (dec n) \<Longrightarrow> is_digit c"
  using dec_digits [of c n] by (auto simp: is_digit_def)

lemma dec_hd_zero: "hd (dec n) = CHR ''0'' \<Longrightarrow> n = 0"
proof (induction n rule: dec.induct)
  case (1 n)
  show ?case
  proof (cases "n < 10")
    case True
    then have "digit n = CHR ''0''"
      using "1.prems" by (simp add: dec_one)
    moreover have "digit_val CHR ''0'' = Some 0"
      by code_simp
    ultimately show ?thesis
      using digit_val_digit [OF True] by simp
  next
    case False
    then have "dec n = dec (n div 10) @ [digit (n mod 10)]"
      by (subst dec.simps) simp
    with "1.prems" have "hd (dec (n div 10)) = CHR ''0''"
      by simp
    from "1.IH" [OF False this] False show ?thesis by simp
  qed
qed

lemma not_digit: "\<not> is_digit CHR '',''" "\<not> is_digit CHR '']''" "\<not> is_digit CHR ''}''"
  by code_simp+

lemma digits_dec: "follows rest \<Longrightarrow> digits (dec n @ rest) = (dec n, rest)"
  using is_digit_dec [of _ n] not_digit
  by (cases rest) (auto simp: digits_def follows_def takeWhile_append dropWhile_append)

lemma dec_zero: "dec 0 = ''0''"
  by code_simp

lemma int_part_dec:
  assumes "follows rest"
  shows "int_part (dec n @ rest) = Some (dec n, rest)"
proof (cases "dec n")
  case (Cons c cs)
  show ?thesis
  proof (cases "n = 0")
    case True
    then show ?thesis by (simp add: int_part_def dec_zero)
  next
    case False
    then have "c \<noteq> CHR ''0''" "is_digit c"
      using dec_hd_zero [of n] is_digit_dec [of c n] Cons by auto
    with Cons digits_dec [OF assms, of n] show ?thesis
      by (simp add: int_part_def)
  qed
qed simp

lemma hd_dec: "\<exists>d < 10. hd (dec n) = digit d"
  by (rule dec_digits [of _ n], rule hd_in_set) simp

lemma digit_other: "d < 10 \<Longrightarrow> digit d \<notin> set ''-ntf[]{},'' \<union> {CHR 0x20, CHR 0x09, CHR 0x0A, CHR 0x0D, CHR 0x22}"
proof -
  assume "d < 10"
  then have "d \<in> set [0..<10]"
    by simp
  moreover have "\<forall>d \<in> set [0..<10]. digit d \<notin> set (''-ntf[]{},'' @ [CHR 0x20, CHR 0x09, CHR 0x0A, CHR 0x0D, CHR 0x22])"
    by code_simp
  ultimately show ?thesis by auto
qed

lemma parse_word_dec:
  assumes "follows rest"
  shows "parse_word (dec n @ rest) = Some (JNum (dec n), rest)"
proof -
  obtain d where d: "d < 10" "hd (dec n @ rest) = digit d"
    using hd_dec [of n] by auto
  then have hd: "hd (dec n @ rest) \<notin> set ''-ntf''"
    using digit_other [OF d(1)] by auto
  have "\<not> HasPrefix (dec n @ rest) w" if "w = ''null'' \<or> w = ''true'' \<or> w = ''false''" for w
    using that hd by (cases "dec n @ rest") (auto simp: HasPrefix_def)
  moreover have "frac_part rest = Some ([], rest)" "exp_part rest = Some ([], rest)"
    using assms by (auto simp: frac_part_def exp_part_def follows_def)
  ultimately show ?thesis
    using hd int_part_dec [OF assms, of n] by (simp add: parse_word_def parse_number_def Let_def)
qed

subsection \<open>Values\<close>

lemma json_text_hd:
  "json_ok v \<Longrightarrow> json_text v \<noteq> [] \<and> hd (json_text v) \<notin> {CHR 0x20, CHR 0x09, CHR 0x0A, CHR 0x0D, CHR '']'', CHR ''}'', CHR '',''}"
proof (cases v)
  case (JNum n)
  assume "json_ok v"
  then obtain k where k: "n = dec k"
    using JNum by auto
  obtain d where "d < 10" "hd (dec k) = digit d"
    using hd_dec by blast
  then show ?thesis
    using digit_other [of d] JNum k by auto
qed (auto simp: quoted_def)

lemma parse_elems_text:
  assumes "\<And>v rest. v \<in> set vs \<Longrightarrow> follows rest \<Longrightarrow> parse_value d (json_text v @ rest) = Some (v, rest)"
    and "\<And>v. v \<in> set vs \<Longrightarrow> json_ok v" "vs \<noteq> []"
  shows "parse_elems d (Join (map json_text vs) '','' @ '']'' @ rest) = Some (vs, rest)"
  using assms
proof (induction vs)
  case (Cons v vs)
  have ne: "json_text v \<noteq> []"
    using json_text_hd Cons.prems(2) by auto
  show ?case
  proof (cases vs)
    case Nil
    have "parse_value d (json_text v @ '']'' @ rest) = Some (v, '']'' @ rest)"
      using Cons.prems(1) by (simp add: follows_def)
    with Nil ne show ?thesis
      by (subst parse_elems.simps) (simp add: skip_ws_stop)
  next
    case (Cons w ws)
    let ?more = "Join (map json_text vs) '','' @ '']'' @ rest"
    have "parse_value d (json_text v @ '','' @ ?more) = Some (v, '','' @ ?more)"
      using Cons.prems(1) by (simp add: follows_def)
    moreover have "parse_elems d ?more = Some (vs, rest)"
      using Cons.IH Cons.prems(1,2) Cons by auto
    moreover have "Join (map json_text (v # vs)) '','' @ '']'' @ rest = json_text v @ '','' @ ?more"
      by (simp add: Cons)
    ultimately show ?thesis
      using ne by (subst parse_elems.simps) (simp add: skip_ws_stop)
  qed
qed simp

lemma parse_members_text:
  assumes "\<And>k v rest. (k, v) \<in> set ms \<Longrightarrow> follows rest \<Longrightarrow> parse_value d (json_text v @ rest) = Some (v, rest)"
    and "\<And>k v. (k, v) \<in> set ms \<Longrightarrow> safe_text k" "ms \<noteq> []"
  shows "parse_members d (Join (map (\<lambda>(k, v). quoted k @ '':'' @ json_text v) ms) '','' @ ''}'' @ rest) = Some (ms, rest)"
  using assms
proof (induction ms)
  case (Cons m ms)
  obtain k v where m: "m = (k, v)"
    by (cases m)
  have k: "safe_text k"
    using Cons.prems(2) [of k v] by (simp add: m)
  have step: "parse_members d (quoted k @ '':'' @ json_text v @ c # q) =
      (if c = CHR '','' then map_option (\<lambda>(ms, z). ((k, v) # ms, z)) (parse_members d q)
       else Some ([(k, v)], q))" if "c = CHR '','' \<or> c = CHR ''}''" for c q
  proof -
    have "parse_value d (json_text v @ c # q) = Some (v, c # q)"
      by (rule Cons.prems(1) [of k v]) (use m that in \<open>auto simp: follows_def\<close>)
    then show ?thesis
      using that parse_string_safe [OF k, of "CHR '':'' # json_text v @ c # q"]
      by (subst parse_members.simps) (auto simp: quoted_def escape_safe [OF k] skip_ws_stop)
  qed
  note IH = Cons.IH and prems = Cons.prems
  show ?case
  proof (cases ms)
    case Nil
    then show ?thesis
      using step [of "CHR ''}''" rest] m by simp
  next
    case (Cons m' ms')
    let ?more = "Join (map (\<lambda>(k, v). quoted k @ '':'' @ json_text v) ms) '','' @ ''}'' @ rest"
    have "parse_members d ?more = Some (ms, rest)"
      by (rule IH) (auto simp: Cons intro: prems(1,2))
    then show ?thesis
      using step [of "CHR '',''" ?more] m by (simp add: Cons)
  qed
qed simp

lemma json_depth_arr: "v \<in> set vs \<Longrightarrow> Suc (json_depth v) \<le> json_depth (JArr vs)"
  by (auto simp: Max_ge_iff)

lemma json_depth_obj: "(k, v) \<in> set ms \<Longrightarrow> Suc (json_depth v) \<le> json_depth (JObj ms)"
  by (simp add: Max_ge_iff) (metis (no_types, lifting) case_prod_conv dual_order.refl)

text \<open>The first character decides which kind of value is read.\<close>

lemma parse_value_word:
  "s \<noteq> [] \<Longrightarrow> hd s \<notin> {CHR 0x20, CHR 0x09, CHR 0x0A, CHR 0x0D, CHR 0x22, CHR ''['', CHR ''{''} \<Longrightarrow> parse_value d s = parse_word s"
  by (subst parse_value.simps) (cases s; simp add: skip_ws_stop)

lemma parse_value_arr:
  assumes "\<And>v r. v \<in> set vs \<Longrightarrow> follows r \<Longrightarrow> parse_value (d + 1) (json_text v @ r) = Some (v, r)"
    and "\<And>v. v \<in> set vs \<Longrightarrow> json_ok v" "d < maxNestingDepth"
  shows "parse_value d (json_text (JArr vs) @ rest) = Some (JArr vs, rest)"
proof (cases vs)
  case Nil
  then show ?thesis
    using assms(3) by (subst parse_value.simps) (simp add: skip_ws_stop)
next
  case (Cons w ws)
  let ?body = "Join (map json_text vs) '','' @ '']'' @ rest"
  have "parse_elems (d + 1) ?body = Some (vs, rest)"
    using assms(1,2) Cons by (intro parse_elems_text) auto
  moreover have "?body \<noteq> []" "hd ?body \<notin> {CHR 0x20, CHR 0x09, CHR 0x0A, CHR 0x0D, CHR '']''}"
    using json_text_hd [of w] assms(2) Cons by (cases ws; auto)+
  ultimately show ?thesis
    using assms(3) by (subst parse_value.simps) (simp add: skip_ws_stop)
qed

lemma parse_value_obj:
  assumes "\<And>k v r. (k, v) \<in> set ms \<Longrightarrow> follows r \<Longrightarrow> parse_value (d + 1) (json_text v @ r) = Some (v, r)"
    and "\<And>k v. (k, v) \<in> set ms \<Longrightarrow> safe_text k" "d < maxNestingDepth"
  shows "parse_value d (json_text (JObj ms) @ rest) = Some (JObj ms, rest)"
proof (cases ms)
  case Nil
  then show ?thesis
    using assms(3) by (subst parse_value.simps) (simp add: skip_ws_stop)
next
  case (Cons m ms')
  let ?body = "Join (map (\<lambda>(k, v). quoted k @ '':'' @ json_text v) ms) '','' @ ''}'' @ rest"
  have "parse_members (d + 1) ?body = Some (ms, rest)"
    using assms(1,2) Cons by (intro parse_members_text) auto
  moreover have "?body \<noteq> []" "hd ?body = CHR 0x22"
    using Cons by (cases ms'; cases m; auto simp: quoted_def)+
  ultimately show ?thesis
    using assms(3) by (subst parse_value.simps) (simp add: skip_ws_stop)
qed

lemma parse_value_text:
  "json_ok v \<Longrightarrow> d + int (json_depth v) \<le> maxNestingDepth \<Longrightarrow> follows rest \<Longrightarrow>
     parse_value d (json_text v @ rest) = Some (v, rest)"
proof (induction v arbitrary: d rest)
  case JNull
  then show ?case by (subst parse_value_word) (simp_all add: parse_word_def HasPrefix_def)
next
  case (JBool b)
  then show ?case by (subst parse_value_word) (simp_all add: parse_word_def HasPrefix_def)
next
  case (JNum n)
  then obtain k where k: "n = dec k"
    by auto
  obtain e where "e < 10" "hd (dec k @ rest) = digit e"
    using hd_dec [of k] by auto
  with digit_other [of e] show ?case
    using parse_word_dec [OF JNum.prems(3), of k] by (subst parse_value_word) (auto simp: k)
next
  case (JStr s)
  then show ?case
    using parse_string_safe [of s rest] by (subst parse_value.simps) (simp add: quoted_def escape_safe skip_ws_stop)
next
  case (JArr vs)
  have "parse_value (d + 1) (json_text v @ r) = Some (v, r)" if "v \<in> set vs" "follows r" for v r
    using JArr.IH [OF that(1)] JArr.prems json_depth_arr [OF that(1)] that by (simp del: json_depth.simps)
  with JArr.prems show ?case
    by (intro parse_value_arr) auto
next
  case (JObj ms)
  have "parse_value (d + 1) (json_text v @ r) = Some (v, r)" if "(k, v) \<in> set ms" "follows r" for k v r
    using JObj.IH [OF that(1), of v] JObj.prems json_depth_obj [OF that(1)] that
    by (fastforce simp del: json_depth.simps)
  with JObj.prems show ?case
    by (intro parse_value_obj) auto
qed

lemma json_parse_text:
  "json_ok v \<Longrightarrow> int (json_depth v) \<le> maxNestingDepth \<Longrightarrow> json_parse (json_text v) = Some v"
  using parse_value_text [of v 0 "[]"] by (simp add: json_parse_def follows_def skip_ws_def)

end
