(* ===== verification/Control.thy ===== *)
theory Control
  imports Json Manager
begin

text \<open>
  \<open>internal/control/control.go\<close>: the JSON codec of control messages. Decoding follows
  \<open>encoding/json\<close> member by member: names are matched without regard to case, unknown members
  are skipped, \<open>null\<close> leaves a field alone, a member of the wrong type is an error, and a repeated
  array is decoded into the elements of the previous one.
\<close>

section \<open>Bytes and text\<close>

definition text_bytes :: "string \<Rightarrow> bytes" where
  "text_bytes s = map (\<lambda>c. of_nat (of_char c)) s"

definition bytes_text :: "bytes \<Rightarrow> string" where
  "bytes_text bs = map (\<lambda>b. char_of (unat b)) bs"

lemma bytes_text_text_bytes [simp]: "bytes_text (text_bytes s) = s"
proof -
  have "unat (of_nat (of_char c) :: byte) = of_char c" for c
    by (simp add: unat_of_nat)
  then show ?thesis
    by (simp add: bytes_text_def text_bytes_def comp_def)
qed

lemma length_text_bytes [simp]: "length (text_bytes s) = length s"
  by (simp add: text_bytes_def)

section \<open>Encode\<close>

definition info_json :: "CandidateInfo \<Rightarrow> json" where
  "info_json ci = JObj [(''kind'', JStr (ci_Kind ci)), (''addr'', JStr (ci_Addr ci))]"

text \<open>\<open>omitempty\<close>: no member for an empty list.\<close>

definition message_json :: "control_Message \<Rightarrow> json" where
  "message_json msg =
     JObj ([(''type'', JStr (msg_Type msg)), (''gen'', JNum (dec (unat (msg_Generation msg))))] @
       (if msg_Candidates msg = [] then [] else [(''candidates'', JArr (map info_json (msg_Candidates msg)))]))"

definition control_Encode :: "control_Message \<Rightarrow> bytes" where
  "control_Encode msg = text_bytes (json_text (message_json msg))"

section \<open>Decode\<close>

text \<open>
  Names are compared after folding: ASCII letters to upper case, and the two characters beyond
  ASCII that fold to an ASCII letter (U+017F and U+212A).
\<close>

definition upper_char :: "char \<Rightarrow> char" where
  "upper_char c = (let n = of_char c :: nat in if 97 \<le> n \<and> n \<le> 122 then char_of (n - 32) else c)"

function fold_name :: "string \<Rightarrow> string" where
  "fold_name s =
     (case s of
        [] \<Rightarrow> []
      | c # cs \<Rightarrow>
          if HasPrefix s [CHR 0xC5, CHR 0xBF] then CHR ''S'' # fold_name (drop 1 cs)
          else if HasPrefix s [CHR 0xE2, CHR 0x84, CHR 0xAA] then CHR ''K'' # fold_name (drop 2 cs)
          else upper_char c # fold_name cs)"
  by pat_completeness auto
termination
  by (relation "measure length") auto

declare fold_name.simps [simp del]

definition named :: "string \<Rightarrow> string \<Rightarrow> bool" where
  "named key name \<longleftrightarrow> fold_name key = fold_name name"

fun set_string :: "json \<Rightarrow> string \<Rightarrow> string option" where
  "set_string (JStr s) old = Some s"
| "set_string JNull old = Some old"
| "set_string _ old = None"

fun set_uint32 :: "json \<Rightarrow> u32 \<Rightarrow> u32 option" where
  "set_uint32 (JNum n) old = map_option of_int (ParseUint 32 n)"
| "set_uint32 JNull old = Some old"
| "set_uint32 _ old = None"

definition zero_info :: CandidateInfo where
  "zero_info = \<lparr>ci_Kind = [], ci_Addr = []\<rparr>"

fun info_members :: "(string \<times> json) list \<Rightarrow> CandidateInfo \<Rightarrow> CandidateInfo option" where
  "info_members [] ci = Some ci"
| "info_members ((k, v) # ms) ci =
     (if named k ''kind'' then
        (case set_string v (ci_Kind ci) of None \<Rightarrow> None | Some s \<Rightarrow> info_members ms (ci\<lparr>ci_Kind := s\<rparr>))
      else if named k ''addr'' then
        (case set_string v (ci_Addr ci) of None \<Rightarrow> None | Some s \<Rightarrow> info_members ms (ci\<lparr>ci_Addr := s\<rparr>))
      else info_members ms ci)"

fun set_info :: "json \<Rightarrow> CandidateInfo \<Rightarrow> CandidateInfo option" where
  "set_info (JObj ms) ci = info_members ms ci"
| "set_info JNull ci = Some ci"
| "set_info _ ci = None"

text \<open>
  A slice that is decoded into: its backing array and its length. Elements beyond the length keep
  what an earlier array has left in them.
\<close>

record info_slice =
  sl_array :: "CandidateInfo list"
  sl_len :: nat

definition nil_slice :: info_slice where
  "nil_slice = \<lparr>sl_array = [], sl_len = 0\<rparr>"

fun set_elems :: "json list \<Rightarrow> nat \<Rightarrow> CandidateInfo list \<Rightarrow> CandidateInfo list option" where
  "set_elems [] i arr = Some arr"
| "set_elems (v # vs) i arr =
     (let arr' = (if i < length arr then arr else arr @ [zero_info]) in
      case set_info v (arr' ! i) of
        None \<Rightarrow> None
      | Some ci \<Rightarrow> set_elems vs (Suc i) (arr'[i := ci]))"

fun set_slice :: "json \<Rightarrow> info_slice \<Rightarrow> info_slice option" where
  "set_slice (JArr vs) sl =
     (if vs = [] then Some nil_slice
      else map_option (\<lambda>arr. \<lparr>sl_array = arr, sl_len = length vs\<rparr>) (set_elems vs 0 (sl_array sl)))"
| "set_slice JNull sl = Some nil_slice"
| "set_slice _ sl = None"

record message_state =
  ms_Type :: string
  ms_Generation :: u32
  ms_Candidates :: info_slice

fun message_members :: "(string \<times> json) list \<Rightarrow> message_state \<Rightarrow> message_state option" where
  "message_members [] st = Some st"
| "message_members ((k, v) # ms) st =
     (if named k ''type'' then
        (case set_string v (ms_Type st) of None \<Rightarrow> None | Some s \<Rightarrow> message_members ms (st\<lparr>ms_Type := s\<rparr>))
      else if named k ''gen'' then
        (case set_uint32 v (ms_Generation st) of None \<Rightarrow> None | Some g \<Rightarrow> message_members ms (st\<lparr>ms_Generation := g\<rparr>))
      else if named k ''candidates'' then
        (case set_slice v (ms_Candidates st) of None \<Rightarrow> None | Some sl \<Rightarrow> message_members ms (st\<lparr>ms_Candidates := sl\<rparr>))
      else message_members ms st)"

definition message_of :: "message_state \<Rightarrow> control_Message" where
  "message_of st =
     \<lparr>msg_Type = ms_Type st, msg_Generation = ms_Generation st,
      msg_Candidates = take (sl_len (ms_Candidates st)) (sl_array (ms_Candidates st))\<rparr>"

definition zero_message :: message_state where
  "zero_message = \<lparr>ms_Type = [], ms_Generation = 0, ms_Candidates = nil_slice\<rparr>"

definition control_Decode :: "bytes \<Rightarrow> control_Message option" where
  "control_Decode data =
     (case json_parse (bytes_text data) of
        None \<Rightarrow> None
      | Some (JObj ms) \<Rightarrow> map_option message_of (message_members ms zero_message)
      | Some JNull \<Rightarrow> Some (message_of zero_message)
      | Some _ \<Rightarrow> None)"

section \<open>Round trip\<close>

definition message_safe :: "control_Message \<Rightarrow> bool" where
  "message_safe msg \<longleftrightarrow>
     safe_text (msg_Type msg) \<and> (\<forall>ci \<in> set (msg_Candidates msg). safe_text (ci_Kind ci) \<and> safe_text (ci_Addr ci))"

lemma names_safe: "safe_text ''type''" "safe_text ''gen''" "safe_text ''candidates''" "safe_text ''kind''" "safe_text ''addr''"
  by code_simp+

lemma names_differ:
  "named ''type'' ''type''" "\<not> named ''gen'' ''type''" "named ''gen'' ''gen''"
  "\<not> named ''candidates'' ''type''" "\<not> named ''candidates'' ''gen''" "named ''candidates'' ''candidates''"
  "named ''kind'' ''kind''" "\<not> named ''addr'' ''kind''" "named ''addr'' ''addr''"
  by code_simp+

lemma message_json_ok: "message_safe msg \<Longrightarrow> json_ok (message_json msg)"
  by (auto simp: message_json_def info_json_def message_safe_def names_safe simp del: safe_text_Cons)

lemma message_json_depth: "json_depth (message_json msg) \<le> 3"
proof -
  have info: "json_depth (info_json ci) = 1" for ci
    by (simp add: info_json_def)
  have "json_depth (JArr (map info_json cis)) \<le> 2" for cis
    by (simp add: comp_def info image_comp)
  then show ?thesis
    by (simp add: message_json_def)
qed

lemma set_elems_infos:
  "set_elems (map info_json cis) (length arr) arr = Some (arr @ cis)"
proof (induction cis arbitrary: arr)
  case (Cons ci cis)
  have "set_info (info_json ci) zero_info = Some ci"
    by (cases ci) (simp add: info_json_def names_differ zero_info_def)
  then show ?case
    using Cons [of "arr @ [ci]"] by simp
qed simp

lemma message_members_json:
  "control_Decode (text_bytes t) = Some msg" if "json_parse t = Some (message_json msg)"
proof -
  have "unat (msg_Generation msg) < 2 ^ 32"
    using unsigned_less [of "msg_Generation msg"] by simp
  then have "ParseUint 32 (dec (unat (msg_Generation msg))) = Some (uint (msg_Generation msg))"
    by (simp only: ParseUint_dec uint_nat)
  then show ?thesis
    using set_elems_infos [of "msg_Candidates msg" "[]"]
    by (simp add: control_Decode_def that message_json_def names_differ zero_message_def message_of_def nil_slice_def)
qed

lemma control_roundtrip: "message_safe msg \<Longrightarrow> control_Decode (control_Encode msg) = Some msg"
  unfolding control_Encode_def
  using message_json_ok message_json_depth [of msg]
  by (intro message_members_json json_parse_text) (simp_all add: maxNestingDepth_def)

text \<open>What a repeated member leaves: the second array is decoded over the first.\<close>

lemma repeated_candidates_merge:
  "map_option message_of (message_members
      [(''candidates'', JArr [info_json ci]), (''candidates'', JArr [JObj [(''addr'', JStr b)]])] zero_message) =
   Some \<lparr>msg_Type = [], msg_Generation = 0, msg_Candidates = [ci\<lparr>ci_Addr := b\<rparr>]\<rparr>"
  by (simp add: message_of_def zero_message_def nil_slice_def zero_info_def info_json_def names_differ)

section \<open>Candidates are safe\<close>

lemma safe_text_append [simp]: "safe_text (s @ t) \<longleftrightarrow> safe_text s \<and> safe_text t" "safe_text []"
  by (auto simp: safe_text_def)

lemma safe_digit:
  assumes "d < 10"
  shows "json_safe (digit d)"
proof -
  have "\<forall>d \<in> set [0..<10]. json_safe (digit d)"
    by code_simp
  with assms show ?thesis by simp
qed

lemma safe_dec: "safe_text (dec n)"
  by (auto simp: safe_text_def dest!: dec_digits intro: safe_digit)

lemma safe_hex_digit:
  assumes "0 \<le> k" "k < 16"
  shows "json_safe (hex_digit k)"
proof (cases "k < 10")
  case True
  with assms show ?thesis by (simp add: hex_digit_def safe_digit)
next
  case False
  have "\<forall>n \<in> set [10..<16]. json_safe (char_of (87 + n))"
    by code_simp
  moreover have "nat k \<in> set [10..<16]"
    using assms False by auto
  ultimately show ?thesis
    using False by (simp only: hex_digit_def if_False)
qed

lemma safe_hex: "0 \<le> n \<Longrightarrow> n < 65536 \<Longrightarrow> safe_text (hex n)"
  by (auto simp: hex_def intro!: safe_hex_digit)

lemma safe_punctuation: "json_safe CHR '':''" "json_safe CHR ''.''" "json_safe CHR ''[''" "json_safe CHR '']''"
  "safe_text ''invalid AddrPort''" "safe_text ''::ffff:''"
  by code_simp+

lemma safe_hex_groups: "\<forall>g \<in> set gs. 0 \<le> g \<and> g < 65536 \<Longrightarrow> safe_text (hex_groups gs)"
  by (induction gs rule: hex_groups.induct) (auto simp: safe_hex safe_punctuation)

lemma addr6_groups_range: "g \<in> set (addr6_groups a) \<Longrightarrow> 0 \<le> g \<and> g < 65536"
proof -
  have "uint (x AND 0xffff) < 65536" for x :: u128
  proof -
    have "x AND 0xffff = take_bit 16 x"
      by (simp add: take_bit_eq_mask mask_eq_exp_minus_1)
    moreover have "uint (take_bit 16 x) < 2 ^ 16"
      by (simp only: unsigned_take_bit_eq take_bit_int_less_exp)
    ultimately show ?thesis by simp
  qed
  then show "g \<in> set (addr6_groups a) \<Longrightarrow> 0 \<le> g \<and> g < 65536"
    by (auto simp: addr6_groups_def)
qed

lemma safe_addr4: "safe_text (addr4_String a)"
  by (simp add: addr4_String_def safe_dec safe_punctuation)

lemma safe_AddrPort:
  assumes "\<not> hasZone (ap_addr a)"
  shows "safe_text (AddrPort_String a)"
proof (cases "ap_addr a")
  case (Addr6 x z)
  have "safe_text (hex_groups (take i (addr6_groups x)))" "safe_text (hex_groups (drop i (addr6_groups x)))" for i
    using addr6_groups_range by (blast intro: safe_hex_groups dest: in_set_takeD in_set_dropD)+
  moreover have "safe_text (hex_groups (addr6_groups x))"
    using addr6_groups_range by (blast intro: safe_hex_groups)
  ultimately show ?thesis
    using assms Addr6 safe_punctuation safe_addr4 safe_dec
    by (auto simp: AddrPort_String_def Let_def split: prod.split)
next
  case AddrZero
  then show ?thesis
    using safe_punctuation(5) by (simp only: AddrPort_String_def addr.simps)
qed (simp add: AddrPort_String_def safe_addr4 safe_dec safe_punctuation)

lemma safe_kind: "safe_text (Kind_String k)"
proof -
  have "safe_text ''embedded''" "safe_text ''stuned''" "safe_text ''h3proxy''" "safe_text ''unknown''"
    by code_simp+
  then show ?thesis
    by (cases k) auto
qed

lemma embedded_zone: "c \<in> set (embedded_candidates interfaces m) \<Longrightarrow> \<not> hasZone (ap_addr (cd_Addr c))"
proof -
  have "AddrFromSlice b = Some x \<Longrightarrow> \<not> hasZone (Unmap x)" for b x
    by (auto simp: AddrFromSlice_def AddrFrom4_def AddrFrom16_def split: if_splits)
  then show "c \<in> set (embedded_candidates interfaces m) \<Longrightarrow> \<not> hasZone (ap_addr (cd_Addr c))"
    by (auto simp: embedded_candidates_def CollectEmbedded_def embedded_candidate_def Let_def
        split: option.splits if_splits)
qed

lemma safe_candidates:
  assumes "sendCandidates interfaces query m = Some msg" "\<And>srv a. query srv = Some a \<Longrightarrow> \<not> hasZone (ap_addr a)"
  shows "message_safe msg"
proof -
  have "safe_text (AddrPort_String (cd_Addr c))"
    if "c \<in> set (embedded_candidates interfaces m) \<union> set (stun_candidates query m)" for c
    using that assms(2) by (intro safe_AddrPort) (auto simp: stun_candidates_def dest: embedded_zone split: option.splits)
  moreover have "safe_text MsgTypeCandidates"
    by code_simp
  ultimately show ?thesis
    using assms(1) by (auto simp: sendCandidates_def message_safe_def candidate_info_def safe_kind Let_def split: if_splits)
qed

subsection \<open>How long they are\<close>

lemma length_dec: "n < 10 ^ k \<Longrightarrow> 0 < k \<Longrightarrow> length (dec n) \<le> k"
proof (induction n arbitrary: k rule: dec.induct)
  case (1 n)
  show ?case
  proof (cases "n < 10")
    case False
    with 1 obtain j where j: "k = Suc j" "0 < j"
      by (cases k; cases "k - 1") auto
    with 1 False have "length (dec (n div 10)) \<le> j"
      by (auto simp: less_mult_imp_div_less)
    with False j show ?thesis by (subst dec.simps) simp
  qed (use 1 in \<open>simp add: dec_one\<close>)
qed

lemma length_addr4: "length (addr4_String a) \<le> 15"
proof -
  have "unat (x AND 255) < 10 ^ 3" for x :: u32
    using word_and_le1 [of x 255] by (simp add: word_le_nat_alt)
  then have "length (dec (unat (x AND 255))) \<le> 3" for x :: u32
    by (rule length_dec) simp
  from this [of "drop_bit 24 a"] this [of "drop_bit 16 a"] this [of "drop_bit 8 a"] this [of a] show ?thesis
    by (simp add: addr4_String_def)
qed

lemma length_hex_groups: "length (hex_groups gs) \<le> 5 * length gs"
  by (induction gs rule: hex_groups.induct) (simp_all add: hex_def)

lemma length_AddrPort:
  assumes "\<not> hasZone (ap_addr a)"
  shows "length (AddrPort_String a) \<le> 90"
proof -
  have "unat (ap_port a) < 2 ^ 16"
    using unsigned_less [of "ap_port a"] by simp
  then have "unat (ap_port a) < 10 ^ 5"
    by simp
  then have port: "length (dec (unat (ap_port a))) \<le> 5"
    by (rule length_dec) simp
  show ?thesis
  proof (cases "ap_addr a")
    case (Addr6 x z)
    have groups: "length (hex_groups gs) \<le> 40" if "length gs \<le> 8" for gs
      using length_hex_groups [of gs] that by simp
    have eight: "length (addr6_groups x) = 8"
      by (simp add: addr6_groups_def)
    obtain st len where run: "zero_run (addr6_groups x) = (st, len)"
      by fastforce
    have "length (Addr_String (Addr6 x [])) \<le> 82"
      using length_addr4 [of "ucast x"] groups [of "addr6_groups x"] groups [of "take st (addr6_groups x)"]
        groups [of "drop (st + len) (addr6_groups x)"] eight by (simp add: run Let_def)
    with port Addr6 assms show ?thesis
      by (simp add: AddrPort_String_def del: Addr_String.simps)
  next
    case (Addr4 x)
    with port length_addr4 [of x] show ?thesis by (simp add: AddrPort_String_def)
  qed (simp add: AddrPort_String_def)
qed

lemma length_Join: "\<forall>t \<in> set ts. length t \<le> n \<Longrightarrow> length (Join ts '','') \<le> length ts * (n + 1)"
  by (induction ts "'',''" rule: Join.induct) auto

lemma length_message:
  assumes "message_safe msg" "msg_Type msg = MsgTypeCandidates"
    and "\<forall>ci \<in> set (msg_Candidates msg). length (ci_Kind ci) \<le> 8 \<and> length (ci_Addr ci) \<le> 90"
  shows "length (control_Encode msg) \<le> 60 + 124 * length (msg_Candidates msg)"
proof -
  have "unat (msg_Generation msg) < 2 ^ 32"
    using unsigned_less [of "msg_Generation msg"] by simp
  then have "unat (msg_Generation msg) < 10 ^ 10"
    by simp
  then have gen: "length (dec (unat (msg_Generation msg))) \<le> 10"
    by (rule length_dec) simp
  have "length (json_text (info_json ci)) \<le> 123" if "ci \<in> set (msg_Candidates msg)" for ci
    using that assms(1,3) by (auto simp: info_json_def quoted_def escape_safe names_safe message_safe_def simp del: safe_text_Cons)
  then have "length (Join (map (json_text \<circ> info_json) (msg_Candidates msg)) '','') \<le> length (msg_Candidates msg) * 124"
    using length_Join [of "map (json_text \<circ> info_json) (msg_Candidates msg)" 123] by simp
  moreover have "safe_text ''candidates''"
    by (simp only: names_safe)
  ultimately show ?thesis
    using gen assms(2)
    by (simp add: control_Encode_def message_json_def quoted_def escape_safe names_safe MsgTypeCandidates_def del: safe_text_Cons)
qed

lemma length_candidates:
  assumes "sendCandidates interfaces query m = Some msg" "\<And>srv a. query srv = Some a \<Longrightarrow> \<not> hasZone (ap_addr a)"
    and "length (embedded_candidates interfaces m @ stun_candidates query m) \<le> 500"
  shows "length (control_Encode msg) \<le> 65536"
proof -
  have "length (AddrPort_String (cd_Addr c)) \<le> 90"
    if "c \<in> set (embedded_candidates interfaces m) \<union> set (stun_candidates query m)" for c
    using that assms(2) by (intro length_AddrPort) (auto simp: stun_candidates_def dest: embedded_zone split: option.splits)
  moreover have "length (Kind_String k) \<le> 8" for k
    by (cases k) simp_all
  ultimately have "length (control_Encode msg) \<le> 60 + 124 * length (msg_Candidates msg)"
    using assms(1) by (intro length_message safe_candidates [OF assms(1,2)])
      (auto simp: sendCandidates_def candidate_info_def Let_def split: if_splits)
  with assms(1,3) show ?thesis
    by (auto simp: sendCandidates_def Let_def split: if_splits)
qed

section \<open>Control messages on a tunnel\<close>

text \<open>The end of \<open>sendCandidates\<close>: the message is encoded and written as a capsule.\<close>

definition sendCandidates_to ::
  "iface list option \<Rightarrow> (string \<Rightarrow> addrport option) \<Rightarrow> 'w write_fn \<Rightarrow> 'p Manager \<Rightarrow> 'w \<Rightarrow> capsule_err option \<times> 'w" where
  "sendCandidates_to interfaces query wr m w =
     (case sendCandidates interfaces query m of
        None \<Rightarrow> (None, w)
      | Some msg \<Rightarrow> tunnel_WriteControl wr w (control_Encode msg))"

text \<open>
  \<open>controlReadLoop\<close> on the messages that are queued: what it hands to \<open>validateCandidates\<close>, in
  order, until \<open>ReadControl\<close> waits or fails.
\<close>

function controlReadLoop :: "peer_id \<Rightarrow> RelayTunnelConn \<Rightarrow> (peer_id \<times> control_Message) list \<times> RelayTunnelConn" where
  "controlReadLoop pid rc =
     (case tunnel_ReadControl rc of
        (ControlMsg payload, rc') \<Rightarrow>
          (case controlReadLoop pid rc' of
             (vs, rc'') \<Rightarrow>
               ((case handleControl control_Decode \<lparr>cm_SrcPeerID = pid, cm_Payload = payload\<rparr> of
                   None \<Rightarrow> vs
                 | Some v \<Rightarrow> v # vs), rc''))
      | (_, rc') \<Rightarrow> ([], rc'))"
  by pat_completeness auto
termination
  by (relation "measure (\<lambda>(pid, rc). case cc_ctrlCh (rt_capsule rc) of None \<Rightarrow> 0 | Some ch \<Rightarrow> length (chan_buf ch))")
    (auto simp: tunnel_ReadControl_def try_recv_def split: option.splits list.splits if_splits)

declare controlReadLoop.simps [simp del]

lemma controlReadLoop_queue:
  assumes "cc_ctrlCh (rt_capsule rc) = Some ch" "\<not> chan_closed ch"
  shows "fst (controlReadLoop pid rc) =
    List.map_filter (\<lambda>payload. handleControl control_Decode \<lparr>cm_SrcPeerID = pid, cm_Payload = payload\<rparr>) (chan_buf ch)"
  using assms
proof (induction "chan_buf ch" arbitrary: ch rc)
  case Nil
  then show ?case
    by (subst controlReadLoop.simps) (simp add: tunnel_ReadControl_def try_recv_def map_filter_simps)
next
  case (Cons b bs)
  let ?ch = "ch\<lparr>chan_buf := bs\<rparr>"
  let ?rc = "rc\<lparr>rt_capsule := (rt_capsule rc)\<lparr>cc_ctrlCh := Some ?ch\<rparr>\<rparr>"
  have "tunnel_ReadControl rc = (ControlMsg b, ?rc)"
    using Cons.prems Cons.hyps(2) [symmetric] by (simp add: tunnel_ReadControl_def try_recv_def)
  moreover have "fst (controlReadLoop pid ?rc) =
      List.map_filter (\<lambda>payload. handleControl control_Decode \<lparr>cm_SrcPeerID = pid, cm_Payload = payload\<rparr>) bs"
    using Cons.hyps(1) [of ?ch ?rc] Cons.prems by simp
  ultimately show ?case
    using Cons.hyps(2) [symmetric]
    by (subst controlReadLoop.simps) (auto simp: map_filter_simps split: prod.split option.split)
qed

end
