(* ===== verification/Schedules.thy ===== *)
theory Schedules
  imports Panics Control
begin

text \<open>
  The properties of the running manager: what holds in every state that a configured manager can
  reach, and schedules that lead to states one would not expect.
\<close>

section \<open>Reachable states\<close>

text \<open>A manager as the daemon builds it: \<open>New\<close>, then \<open>RegisterPeer\<close> with peers that have no connection.\<close>

inductive configured :: "('p \<Rightarrow> conn_ref option) \<Rightarrow> 'p Manager \<Rightarrow> bool"
  for active :: "'p \<Rightarrow> conn_ref option"
  where
  conf_new: "configured active (manager_New cr priv url insecure stun overlay role)"
| conf_peer: "configured active m \<Longrightarrow> active p = None \<Longrightarrow> RegisterPeer pub p url m = Inr m' \<Longrightarrow> configured active m'"

definition mgr_reachable :: "'p world \<Rightarrow> ('p \<Rightarrow> conn_ref option) \<Rightarrow> goroutine list \<Rightarrow> 'p Manager \<Rightarrow> bool" where
  "mgr_reachable w active ts m' \<longleftrightarrow>
     (\<exists>m port urls. configured active m \<and> m_role m \<noteq> None \<and> set urls = dom (m_proxies m) \<and> distinct urls \<and>
        pool_runs (mgr_act w) (manager_Run port urls m) (ts, m'))"

text \<open>What registration leaves.\<close>

definition fresh_entries :: "('p \<Rightarrow> conn_ref option) \<Rightarrow> 'p Manager \<Rightarrow> bool" where
  "fresh_entries active m \<longleftrightarrow>
     (\<forall>pid e. m_peers m pid = Some e \<longrightarrow> pe_relayConn e = None \<and> \<not> pe_hasDirectPath e \<and> \<not> pe_retryingConn e \<and>
        active (pe_peer e) = None)"

definition all_signals_open :: "'p Manager \<Rightarrow> bool" where
  "all_signals_open m \<longleftrightarrow> (\<forall>url p. m_proxies m url = Some p \<longrightarrow> \<not> sig_closed (m_store m) (connectedCh p))"

lemma open_getOrCreate:
  assumes "getOrCreateProxy url m = (p, m')" "sig_ok m" "all_signals_open m"
  shows "all_signals_open m'"
  using assms
  by (auto simp: getOrCreateProxy_def NewProxy_def new_signal_def all_signals_open_def sig_ok_def split: option.splits if_splits)

lemma numbers_getOrCreate: "getOrCreateProxy url m = (p, m') \<Longrightarrow> no_own_sessions m \<Longrightarrow> no_own_sessions m'"
  by (auto simp: getOrCreateProxy_def NewProxy_def new_signal_def no_own_sessions_def split: option.splits if_splits)

lemma configured_props:
  "configured active m \<Longrightarrow> mgr_pool m \<and> sig_ok m \<and> all_signals_open m \<and> fresh_entries active m \<and> no_own_sessions m"
proof (induction rule: configured.induct)
  case (conf_new cr priv url insecure stun overlay role)
  define m0 :: "'a Manager" where "m0 = manager_New cr priv [] insecure stun overlay role"
  have base: "mgr_pool m0" "sig_ok m0" "all_signals_open m0" "fresh_entries active m0" "no_own_sessions m0"
    by (auto simp: m0_def manager_New_def mgr_pool_def pool_ok_empty sig_ok_def all_signals_open_def fresh_entries_def
        no_own_sessions_def)
  obtain p m1 where g: "getOrCreateProxy url m0 = (p, m1)"
    by fastforce
  have "manager_New cr priv url insecure stun overlay role = (if url \<noteq> [] then m1 else m0)"
    using g by (auto simp: manager_New_def m0_def Let_def)
  then show ?case
    using base getOrCreateProxy_step [OF g] open_getOrCreate [OF g] getOrCreateProxy_frame [OF g] numbers_getOrCreate [OF g]
    by (auto simp: pool_step_ok_def fresh_entries_def)
next
  case (conf_peer m p pub url m')
  define m0 where "m0 = m\<lparr>m_peers := (m_peers m)(PeerIDFromPublicKey pub \<mapsto> \<lparr>pe_peer = p, pe_relayURL = url,
      pe_relayConn = None, pe_hasDirectPath = False, pe_retryingConn = False\<rparr>)\<rparr>"
  have base: "mgr_pool m0" "sig_ok m0" "all_signals_open m0" "fresh_entries active m0" "no_own_sessions m0"
    using conf_peer by (auto simp: m0_def mgr_pool_def sig_ok_def all_signals_open_def signal_open_def fresh_entries_def
        no_own_sessions_def)
  obtain q m1 where g: "getOrCreateProxy url m0 = (q, m1)"
    by fastforce
  have "m' = (if url \<noteq> [] then m1 else m0)"
    using conf_peer(3) g by (auto simp: RegisterPeer_def m0_def Let_def split: option.splits)
  then show ?case
    using base getOrCreateProxy_step [OF g] open_getOrCreate [OF g] getOrCreateProxy_frame [OF g] numbers_getOrCreate [OF g]
    by (auto simp: pool_step_ok_def fresh_entries_def)
qed

text \<open>The start of a run, and every later state.\<close>

lemma reachable_runs:
  assumes "mgr_reachable w active ts m"
  obtains m0 ts0 where "pool_runs (mgr_act w) (ts0, m0) (ts, m)" "mgr_inv ts0 m0" "fresh_entries active m0" "no_own_sessions m0"
    "\<forall>t \<in> set ts0. \<not> opens_path t \<and> carried t = None \<and> opens_for_peer t \<and> (\<forall>pid. \<not> retries pid t)"
proof -
  obtain m1 port urls where c: "configured active m1" "m_role m1 \<noteq> None" "set urls = dom (m_proxies m1)" "distinct urls"
    "pool_runs (mgr_act w) (manager_Run port urls m1) (ts, m)"
    using assms by (auto simp: mgr_reachable_def)
  obtain ts0 m0 where r: "manager_Run port urls m1 = (ts0, m0)"
    by fastforce
  have m0: "m0 = m1\<lparr>m_ctx := Some False, m_directLn := port\<rparr>"
    and ts0: "ts0 = GMain # (if port = None then [] else [GDirect DirectAccept]) @ [GTunnel AcceptLoop, GProbe ControlLoop] @
      map (\<lambda>url. GRelay url ConnIdle (LoopStart True 1000)) urls"
    using r by (simp_all add: manager_Run_def)
  note props = configured_props [OF c(1)]
  have "relay_urls ts0 = urls"
    by (simp add: ts0 relay_urls_def comp_def concat_map_singleton)
  moreover have "safe t m0" if "t \<in> set ts0" for t
    using that props c(3) by (auto simp: ts0 m0 all_signals_open_def signal_open_def split: if_splits)
  ultimately have "mgr_inv ts0 m0"
    using props c(2,4) by (auto simp: mgr_inv_def m0 mgr_pool_def sig_ok_def)
  moreover have "fresh_entries active m0" "no_own_sessions m0"
    using props by (simp_all add: fresh_entries_def no_own_sessions_def m0)
  moreover have "\<forall>t \<in> set ts0. \<not> opens_path t \<and> carried t = None \<and> opens_for_peer t \<and> (\<forall>pid. \<not> retries pid t)"
    by (auto simp: ts0 split: if_splits)
  ultimately show ?thesis
    using c(5) r that by simp
qed

lemma reachable_inv: "mgr_reachable w active ts m \<Longrightarrow> mgr_inv ts m"
  by (erule reachable_runs) (rule mgr_consistent.run)

interpretation registration_fixed: pool_invariant "mgr_act w" "\<lambda>ts m. peer_urls m = D \<and> fixed_part m = F"
  for w :: "'p world" and D :: "peer_id \<Rightarrow> string option" and F :: "string option \<times> u16 option \<times> bytes"
  by unfold_locales (use mgr_act_peer_urls mgr_act_fixed in metis)

text \<open>
  What the goroutines of a running manager do, one of them or several, is within what the theory
  \<open>Retry\<close> allows the others to do at each point of a retry loop.
\<close>

lemma others_keep:
  assumes "mgr_inv ts m" "pool_runs (mgr_act w) (ts, m) (ts', m')"
  shows "mgr_live m' \<and> same_registration m m'"
proof -
  have "peer_urls m' = peer_urls m \<and> fixed_part m' = fixed_part m"
    using registration_fixed.run [OF assms(2)] by blast
  moreover have "mgr_inv ts' m'"
    using mgr_consistent.run [OF assms(2,1)] .
  ultimately show ?thesis
    by (auto simp: mgr_live_def mgr_inv_def same_registration_def fixed_part_def peer_urls_def fun_eq_iff)
qed

interpretation peers_fixed: pool_invariant "mgr_act w" "\<lambda>ts m. dom (m_peers m) = D"
  for w :: "'p world" and D :: "peer_id set"
  by unfold_locales (use mgr_act_dom in metis)

interpretation role_fixed: pool_invariant "mgr_act w" "\<lambda>ts m. m_role m = r"
  for w :: "'p world" and r :: "string option"
  by unfold_locales (use mgr_act_role in metis)

text \<open>A schedule, built up from the front: the next event goes to some goroutine that is there.\<close>

lemma exec_member:
  assumes "t \<in> set ts" "act e t s = Goes new s'"
    and "\<And>ts'. set new \<subseteq> set ts' \<Longrightarrow> set ts - {t} \<subseteq> set ts' \<Longrightarrow> \<exists>sched. map snd sched = es \<and> pool_exec act sched ts' s' = out"
  shows "\<exists>sched. map snd sched = e # es \<and> pool_exec act sched ts s = out"
proof -
  obtain ts1 ts2 where ts: "ts = ts1 @ t # ts2"
    using split_list [OF assms(1)] by blast
  obtain sched where "map snd sched = es" "pool_exec act sched (ts1 @ new @ ts2) s' = out"
    using assms(3) [of "ts1 @ new @ ts2"] by (auto simp: ts)
  then show ?thesis
    by (intro exI [of _ "(length ts1, e) # sched"]) (simp add: ts assms(2))
qed

lemma exec_panics:
  assumes "t \<in> set ts" "act e t s = Panics"
  shows "\<exists>sched. map snd sched = [e] \<and> pool_exec act sched ts s = Panics"
proof -
  obtain ts1 ts2 where ts: "ts = ts1 @ t # ts2"
    using split_list [OF assms(1)] by blast
  then show ?thesis
    by (intro exI [of _ "[(length ts1, e)]"]) (simp add: ts assms(2))
qed

section \<open>A client to run\<close>

abbreviation peer7 :: peer_id where "peer7 \<equiv> PeerIDFromPublicKey [7]"

definition sample_addr :: addrport where "sample_addr = \<lparr>ap_addr = Addr4 5, ap_port = 6\<rparr>"

text \<open>The codec of the control messages is that of theory \<open>Control\<close>.\<close>

definition sample_world :: "sample_peer world" where
  "sample_world = \<lparr>w_mion = sample_mion, w_crypto = sample_crypto, w_decode = control_Decode\<rparr>"

definition sample_start :: "goroutine list \<times> sample_peer Manager" where
  "sample_start = manager_Run (Some 4433) [''https://relay''] sample_manager"

definition sample_exec :: "(nat \<times> event) list \<Rightarrow> (goroutine, sample_peer Manager) outcome" where
  "sample_exec sched = pool_exec (mgr_act sample_world) sched (fst sample_start) (snd sample_start)"

text \<open>The relay comes up; then a retry goroutine of the peer opens a session.\<close>

definition relay_up :: "(nat \<times> event) list" where
  "relay_up = [(4, Go), (4, RelayIn (Answer (Inr \<lparr>rd_data = [], rd_end = EOF\<rparr>))), (4, RelayIn Turn),
     (4, SeesConnected), (4, MapOrder [peer7]), (4, Go), (5, Go)]"

definition session_begins :: "(nat \<times> event) list" where
  "session_begins = [(4, Go), (4, Go), (4, Go), (4, Go)]"

definition session_ends :: "(nat \<times> event) list" where
  "session_ends = [(4, HandshakeEnds (Some [[7]])), (4, Go), (4, Go)]"

text \<open>A direct connection comes in and becomes the path (two positions before the retry goroutine).\<close>

definition direct_in :: "(nat \<times> event) list" where
  "direct_in = [(1, Inbound peer7), (2, Go), (2, Go)]"

text \<open>A control envelope with one candidate, as \<open>control.Encode\<close> writes it.\<close>

definition candidates_message :: "addrport \<Rightarrow> control_Message" where
  "candidates_message addr =
     \<lparr>msg_Type = MsgTypeCandidates, msg_Generation = 1,
      msg_Candidates = [\<lparr>ci_Kind = Kind_String KindStuned, ci_Addr = AddrPort_String addr\<rparr>]\<rparr>"

definition candidates_envelope :: "peer_id \<Rightarrow> peer_id \<Rightarrow> addrport \<Rightarrow> envelope" where
  "candidates_envelope src dst addr =
     \<lparr>Version = Version1, StreamType = StreamTypeControl, SrcPeerID = src, DstPeerID = dst, EnvSessionID = 0,
      Payload = control_Encode (candidates_message addr)\<rparr>"

lemma candidates_decoded:
  assumes "Is4 (ap_addr addr)"
  shows "control_Decode (control_Encode (candidates_message addr)) = Some (candidates_message addr)"
proof -
  have "safe_text MsgTypeCandidates"
    unfolding MsgTypeCandidates_def by (rule names_safe)
  moreover have "\<not> hasZone (ap_addr addr)"
    using assms by (cases "ap_addr addr") auto
  ultimately have "message_safe (candidates_message addr)"
    using safe_kind [of KindStuned] by (simp add: message_safe_def candidates_message_def safe_AddrPort del: Kind_String.simps)
  then show ?thesis by (rule control_roundtrip)
qed

lemma candidates_message_sel [simp]:
  "msg_Type (candidates_message addr) = MsgTypeCandidates"
  "msg_Candidates (candidates_message addr) = [\<lparr>ci_Kind = Kind_String KindStuned, ci_Addr = AddrPort_String addr\<rparr>]"
  by (simp_all add: candidates_message_def)

text \<open>An identity that is not registered, and a registered one whose probe is about to begin.\<close>

definition stranger :: peer_id where
  "stranger = (if peer7 = peer_id_of [1] then peer_id_of [2] else peer_id_of [1])"

definition probe_begins :: "(nat \<times> event) list" where
  "probe_begins =
     [(5, RelayIn (Arrives (candidates_envelope peer7 (self_id sample_crypto [9]) sample_addr))), (3, Go), (4, At 0), (5, At 0)]"

lemma stranger_neq [simp]: "stranger \<noteq> peer7" "peer7 \<noteq> stranger"
proof -
  have "peer_id_of [1] \<noteq> peer_id_of [2]"
    by code_simp
  then show "stranger \<noteq> peer7" "peer7 \<noteq> stranger"
    by (auto simp: stranger_def)
qed

lemma sample_manager_record:
  "sample_manager = \<lparr>m_selfID = PeerIDFromPublicKey (cr_Public sample_crypto [9]), m_selfPriv = [9],
     m_insecure = False, m_stunServer = [], m_peers = [peer7 \<mapsto> \<lparr>pe_peer = sample_peer_entry, pe_relayURL = ''https://relay'',
     pe_relayConn = None, pe_hasDirectPath = False, pe_retryingConn = False\<rparr>],
     m_proxies = [''https://relay'' \<mapsto>
     \<lparr>selfID = PeerIDFromPublicKey (cr_Public sample_crypto [9]), relayURL = ''https://relay'', tlsInsecure = False, writer = None,
      sessions = Map.empty, nextSID = 0, connectedCh = 0\<rparr>], m_store = fresh_store\<lparr>sig_next := 1\<rparr>, m_role = Some ''client'', m_ctx = None,
     m_generation = 1, m_validated = (\<lambda>_. []), m_probeCooldown = Map.empty,
     m_directLn = None, m_overlayPrefix = \<lparr>pf_ip = AddrZero, pf_bits = None\<rparr>, m_tunnels = (\<lambda>_. None), m_nextTunnel = 0,
     m_directPeer = (\<lambda>_. None), m_nextDirect = 0, m_closedDirect = []\<rparr>"
  by (simp add: sample_manager_def RegisterPeer_def manager_New_def Let_def getOrCreateProxy_def NewProxy_def
      new_signal_def fresh_store_def fun_eq_iff)

lemma sample_world_sel [simp]:
  "w_mion sample_world = sample_mion" "w_crypto sample_world = sample_crypto" "w_decode sample_world = control_Decode"
  by (simp_all add: sample_world_def)

lemma sample_addr_text [simp]: "ParseAddrPort (AddrPort_String sample_addr) = Some sample_addr"
  "\<not> Is6 (ap_addr sample_addr)"
  by (simp_all add: sample_addr_def ParseAddrPort_String4)

lemma sample_verifies [simp]:
  "makePeerVerifier sample_crypto known [[7]] = (if peer7 \<in> known then None else Some (UnknownPeer peer7))"
  "cr_Parse sample_crypto [7] = Some (Ed25519Key [7])"
  by (simp_all add: makePeerVerifier_def sample_crypto_def)

lemma sample_client_config [simp]:
  "\<exists>cfg. NewClientTLSConfig sample_crypto [9] known = Inr cfg \<and> cfg_VerifyPeerCertificate cfg = makePeerVerifier sample_crypto known"
  by (simp add: NewClientTLSConfig_def)

lemma sample_handshake [simp]:
  assumes "peer7 \<in> dom (m_peers m)" "m_selfPriv m = [9]"
  shows "inner_handshake sample_crypto NewClientTLSConfig (Some [[7]]) m = Inr peer7"
  using assms by (auto simp: inner_handshake_def NewClientTLSConfig_def knownPeerSet_def split: sum.splits)

lemmas exec_simps = manager_Run_def sample_manager_record fresh_store_def
  session_begins_def session_ends_def direct_in_def probe_begins_def
  relay_act_def connect_act_def on_go_def or_cancelled_def ctx_done_def with_proxy_def after_close_def after_handshake_def
  conn_moves_def connect_announce_def relay_is_connected_def relay_connected_def relay_peers_def clear_relay_conns_def
  update_entry_def retry_look_def retry_relay_def getOrCreateProxy_def IsConnected_def connect_begin_def NewSession_def
  new_data_chan_def Let_def install_tunnel_def close_tunnel_def set_conn_def clear_conn_if_def set_direct_def new_direct_def
  sample_mion_def sample_peer_entry_def


lemmas control_simps = candidates_envelope_def dispatchControl_def try_send_def try_recv_def make_chan_def StreamTypeData_def StreamTypeControl_def
  control_act_def handleControl_def validate_candidate_def has_direct_def probe_head_def probe_ok_def probe_succeeded_def
  promote_check_def

lemmas fallback_simps = after_fallback_def fallback_begin_def fallback_take_def fallback_retry_def retry_done_def

text \<open>The state with the relay up, written out.\<close>

definition up_manager :: "sample_peer Manager" where
  "up_manager = sample_manager\<lparr>
     m_peers := [peer7 \<mapsto> \<lparr>pe_peer = sample_peer_entry, pe_relayURL = ''https://relay'', pe_relayConn = None,
       pe_hasDirectPath = False, pe_retryingConn = True\<rparr>],
     m_proxies := [''https://relay'' \<mapsto>
       \<lparr>selfID = PeerIDFromPublicKey (cr_Public sample_crypto [9]), relayURL = ''https://relay'', tlsInsecure = False,
        writer = Some open_stream, sessions = Map.empty, nextSID = 0, connectedCh = 0\<rparr>],
     m_store := fresh_store\<lparr>sig_next := 1, sig_closed := (\<lambda>_. False)(0 := True)\<rparr>,
     m_ctx := Some False, m_directLn := Some 4433, m_generation := 2\<rparr>"

lemma relay_up_exec:
  "sample_exec relay_up = Goes [GMain, GDirect DirectAccept, GTunnel AcceptLoop, GProbe ControlLoop,
     GRetry (RetryStart peer7), GRelay ''https://relay'' ConnReading LoopWait] up_manager"
  by (simp add: sample_exec_def sample_start_def relay_up_def exec_simps up_manager_def fun_eq_iff)

lemma after_relay_up:
  "sample_exec (relay_up @ sched) = pool_exec (mgr_act sample_world) sched [GMain, GDirect DirectAccept, GTunnel AcceptLoop,
     GProbe ControlLoop, GRetry (RetryStart peer7), GRelay ''https://relay'' ConnReading LoopWait] up_manager"
  using relay_up_exec by (simp add: sample_exec_def pool_exec_append)

lemmas up_simps = up_manager_def exec_simps

lemma sample_decoded [simp]:
  "control_Decode (control_Encode (candidates_message sample_addr)) = Some (candidates_message sample_addr)"
  by (rule candidates_decoded) (simp add: sample_addr_def)

lemma probe_run:
  "\<exists>ts m. sample_exec (relay_up @ probe_begins) = Goes ts m \<and> ts ! 5 = GProbe (ProbeFirst peer7 sample_addr 30000) \<and>
     length ts = 8"
  unfolding after_relay_up
  by (simp add: up_simps control_simps)

lemma relayed_run:
  "\<exists>ts m. sample_exec (relay_up @ session_begins @ session_ends) = Goes ts m \<and> GRetry (RetryExit peer7) \<in> set ts \<and>
     (\<exists>e. m_peers m peer7 = Some e \<and> pe_retryingConn e \<and> sp_active (pe_peer e) = Some (RelayConn 0))"
  unfolding after_relay_up
  by (simp add: up_simps)

lemma direct_run:
  "\<exists>ts m. sample_exec (relay_up @ direct_in) = Goes ts m \<and> has_direct peer7 m \<and>
     (\<exists>e. m_peers m peer7 = Some e \<and> sp_active (pe_peer e) = Some (DirectConn 0))"
  unfolding after_relay_up
  by (simp add: up_simps has_direct_def)

text \<open>The state with a direct path, while a retry goroutine is about to look.\<close>

definition direct_manager :: "sample_peer Manager" where
  "direct_manager = up_manager\<lparr>
     m_peers := [peer7 \<mapsto> \<lparr>pe_peer = sample_peer_entry\<lparr>sp_active := Some (DirectConn 0)\<rparr>, pe_relayURL = ''https://relay'',
       pe_relayConn = None, pe_hasDirectPath = True, pe_retryingConn = True\<rparr>],
     m_nextDirect := 1, m_directPeer := [0 \<mapsto> peer7]\<rparr>"

lemma after_direct_in:
  "sample_exec (relay_up @ ((4, Go) # direct_in) @ sched) = pool_exec (mgr_act sample_world) sched
     [GMain, GDirect DirectAccept, GDirect (DirectForward peer7 0), GTunnel AcceptLoop, GProbe ControlLoop,
      GRetry (RetryLook peer7 1000), GRelay ''https://relay'' ConnReading LoopWait] direct_manager"
  unfolding after_relay_up by (simp add: pool_exec_append direct_manager_def up_simps fun_eq_iff)

definition stuck_manager :: "sample_peer Manager" where
  "stuck_manager = direct_manager\<lparr>
     m_peers := [peer7 \<mapsto> \<lparr>pe_peer = sample_peer_entry, pe_relayURL = ''https://relay'',
       pe_relayConn = None, pe_hasDirectPath = False, pe_retryingConn = False\<rparr>]\<rparr>"

lemma sample_configured: "configured sp_active sample_manager"
  by (rule conf_peer [OF conf_new _ sample_manager_eq]) (simp add: sample_peer_entry_def)

lemma sample_reaches:
  assumes "sample_exec sched = Goes ts m"
  shows "mgr_reachable sample_world sp_active ts m"
  unfolding mgr_reachable_def
  using sample_configured pool_exec_runs [OF assms [unfolded sample_exec_def]]
  by (intro exI [of _ sample_manager] exI [of _ "Some 4433"] exI [of _ "[''https://relay'']"])
    (simp add: sample_start_def sample_proxy_eq)

section \<open>Properties\<close>

text \<open>
  C4: the only panics. In every reachable state of a running manager (with mion), whatever the
  network does and however the goroutines interleave, no action of a goroutine panics: no channel is
  closed twice, nothing is sent on a closed channel (but where it is recovered), no nil is
  dereferenced. There are exactly two exceptions: \<open>tryPromotePath\<close> for an identity that is not
  registered, and a probe whose deadline has passed before its first attempt, which is taken for a
  success without a result.
\<close>

theorem manager_panics_only:
  assumes "mgr_reachable w active ts m" and "t \<in> set ts" and "mgr_act w e t m = Panics"
  shows "(\<exists>pid. t = GDirect (Promote pid) \<and> pid \<notin> knownPeerSet m) \<or>
    (\<exists>pid addr deadline now. t = GProbe (ProbeFirst pid addr deadline) \<and> e = At now \<and> deadline \<le> now)"
  using only_panics [OF assms(3) reachable_inv [OF assms(1)] assms(2)] by (simp add: knownPeerSet_def)

theorem manager_panics_only_witness:
  "\<exists>ts m. sample_exec (relay_up @ probe_begins) = Goes ts m \<and> mgr_act sample_world (At 30000) (ts ! 5) m = Panics \<and>
     (\<exists>pid addr deadline. ts ! 5 = GProbe (ProbeFirst pid addr deadline) \<and> deadline \<le> 30000)"
proof -
  obtain ts m where run: "sample_exec (relay_up @ probe_begins) = Goes ts m"
    and t: "ts ! 5 = GProbe (ProbeFirst peer7 sample_addr 30000)" "length ts = 8"
    using probe_run by blast
  have "ts ! 5 \<in> set ts"
    using t(2) by simp
  moreover have panic: "mgr_act sample_world (At 30000) (ts ! 5) m = Panics"
    by (simp add: t(1) probe_head_def)
  ultimately show ?thesis
    using manager_panics_only [OF sample_reaches [OF run], of "ts ! 5" "At 30000"] t(1) run by auto
qed

text \<open>
  C5: one reconnection at a time. A peer's \<open>retryingConn\<close> flag is set exactly while one goroutine
  is reconnecting it, and there is never a second one.
\<close>

theorem one_retry_per_peer:
  assumes "mgr_reachable w active ts m" and "m_peers m pid = Some entry"
  shows "length (filter (retries pid) ts) = (if pe_retryingConn entry then 1 else 0)"
proof -
  obtain m0 ts0 where r: "pool_runs (mgr_act w) (ts0, m0) (ts, m)" "fresh_entries active m0"
    "\<forall>t \<in> set ts0. \<not> retries pid t"
    using reachable_runs [OF assms(1)] by metis
  have "pid \<in> dom (m_peers m0)"
    using peers_fixed.run [OF r(1) refl] assms(2) by auto
  moreover have "length (filter (retries pid) ts0) = of_bool (retrying pid m0)"
    using r(2,3) by (auto simp: fresh_entries_def retrying_def filter_empty_conv split: option.splits)
  ultimately have "length (filter (retries pid) ts) = of_bool (retrying pid m)"
    using retry_count.counted.run [OF r(1)] by blast
  then show ?thesis
    using assms(2) by (simp add: retrying_def of_bool_def)
qed

theorem one_retry_per_peer_witness:
  "\<exists>ts m. sample_exec (relay_up @ session_begins @ session_ends) = Goes ts m \<and>
     length (filter (retries peer7) ts) = 1"
proof -
  obtain ts m e where "sample_exec (relay_up @ session_begins @ session_ends) = Goes ts m"
    "m_peers m peer7 = Some e" "pe_retryingConn e"
    using relayed_run by blast
  with one_retry_per_peer [OF sample_reaches, of _ ts m peer7 e] show ?thesis by auto
qed

text \<open>
  C11: a direct path is watched. While a peer is marked as having a direct path there is a goroutine
  that serves the connection and will take the mark back when it fails, so the mark cannot stay set
  for ever on a dead connection.
\<close>

theorem direct_path_watched:
  assumes "mgr_reachable w active ts m" and "has_direct pid m"
  shows "\<exists>t \<in> set ts. watches pid t"
proof -
  obtain m0 ts0 where r: "pool_runs (mgr_act w) (ts0, m0) (ts, m)" "mgr_inv ts0 m0" "fresh_entries active m0"
    using reachable_runs [OF assms(1)] by metis
  have "m_role m0 \<noteq> None \<and> (\<forall>pid. has_direct pid m0 \<longrightarrow> (\<exists>t \<in> set ts0. watches pid t))"
    using r(2,3) by (auto simp: mgr_inv_def fresh_entries_def has_direct_def split: option.splits)
  from direct_watch.run [OF r(1) this] assms(2) show ?thesis by blast
qed

theorem direct_path_watched_witness:
  "\<exists>ts m. sample_exec (relay_up @ direct_in) = Goes ts m \<and> (\<exists>t \<in> set ts. watches peer7 t)"
  using direct_run direct_path_watched [OF sample_reaches] by blast

text \<open>
  C13: only clients open paths. A manager in the proxy role does probe the addresses of its peers, but
  it never opens a relay session to a peer and never dials a direct CONNECT-IP connection: no
  goroutine of such a manager is at any point of those operations, and the session counter of every
  relay connection is still at zero.
\<close>

theorem proxy_role_opens_no_path:
  assumes "mgr_reachable w active ts m" and "m_role m \<noteq> Some ''client''"
  shows "(\<forall>t \<in> set ts. \<not> opens_path t) \<and> (\<forall>url p. m_proxies m url = Some p \<longrightarrow> nextSID p = 0)"
proof -
  obtain m0 ts0 where r: "pool_runs (mgr_act w) (ts0, m0) (ts, m)" "mgr_inv ts0 m0" "no_own_sessions m0"
    "\<forall>t \<in> set ts0. \<not> opens_path t"
    using reachable_runs [OF assms(1)] by metis
  have "m_role m = m_role m0"
    using role_fixed.run [OF r(1) refl] by simp
  then have "(m_role m0 \<noteq> Some ''client'' \<and> m_role m0 \<noteq> None \<and> no_own_sessions m0) \<and> (\<forall>t \<in> set ts0. \<not> opens_path t)"
    using r(2-4) assms(2) by (simp add: mgr_inv_def)
  from proxy_passive.all.run [OF r(1) this] show ?thesis
    by (auto simp: no_own_sessions_def)
qed

text \<open>A proxy whose relay is up and that has probed an address of its peer with success.\<close>

definition proxy_manager :: "sample_peer Manager" where
  "proxy_manager = sample_manager\<lparr>m_role := Some ''proxy''\<rparr>"

definition proxy_exec :: "(nat \<times> event) list \<Rightarrow> (goroutine, sample_peer Manager) outcome" where
  "proxy_exec sched =
     (case manager_Run (Some 4433) [''https://relay''] proxy_manager of
        (ts, m) \<Rightarrow> pool_exec (mgr_act sample_world) sched ts m)"

definition proxy_probes :: "(nat \<times> event) list" where
  "proxy_probes =
     [(4, Go), (4, RelayIn (Answer (Inr \<lparr>rd_data = [], rd_end = EOF\<rparr>))), (4, RelayIn Turn), (4, SeesConnected), (4, MapOrder [peer7]),
      (4, RelayIn (Arrives (candidates_envelope peer7 (self_id sample_crypto [9]) sample_addr))), (3, Go), (4, At 0), (5, At 0),
      (5, At 1), (5, ProbeEnds (Some \<lparr>vt_RemoteAddr = sample_addr, vt_PeerID = peer7, vt_RTT = 1\<rparr>))]"

lemma proxy_configured: "configured sp_active proxy_manager"
proof -
  have "RegisterPeer [7] sample_peer_entry ''https://relay''
      (manager_New sample_crypto [9] [] False [] \<lparr>pf_ip = AddrZero, pf_bits = None\<rparr> (Some ''proxy'')) = Inr proxy_manager"
    by (simp add: proxy_manager_def sample_manager_def RegisterPeer_def manager_New_def Let_def getOrCreateProxy_def
        NewProxy_def new_signal_def)
  from conf_peer [OF conf_new _ this] show ?thesis
    by (simp add: sample_peer_entry_def)
qed

lemma proxy_probes_run:
  "\<exists>ts m. proxy_exec proxy_probes = Goes ts m \<and> m_role m = Some ''proxy'' \<and> m_validated m peer7 \<noteq> [] \<and>
     GRelay ''https://relay'' ConnReading LoopWait \<in> set ts \<and> m_proxies m ''https://relay'' \<noteq> None"
  by (simp add: proxy_exec_def proxy_manager_def proxy_probes_def exec_simps control_simps)

theorem proxy_role_opens_no_path_witness:
  "\<exists>ts m p. proxy_exec proxy_probes = Goes ts m \<and> m_validated m peer7 \<noteq> [] \<and> (\<forall>t \<in> set ts. \<not> opens_path t) \<and>
     m_proxies m ''https://relay'' = Some p \<and> nextSID p = 0"
proof -
  obtain ts m p where run: "proxy_exec proxy_probes = Goes ts m" and m: "m_role m = Some ''proxy''" "m_validated m peer7 \<noteq> []"
    "m_proxies m ''https://relay'' = Some p"
    using proxy_probes_run by blast
  have "pool_runs (mgr_act sample_world) (manager_Run (Some 4433) [''https://relay''] proxy_manager) (ts, m)"
    using run by (auto simp: proxy_exec_def intro: pool_exec_runs split: prod.splits)
  then have "mgr_reachable sample_world sp_active ts m"
    unfolding mgr_reachable_def using proxy_configured
    by (intro exI [of _ proxy_manager] exI [of _ "Some 4433"] exI [of _ "[''https://relay'']"])
      (simp add: proxy_manager_def sample_proxy_eq)
  from proxy_role_opens_no_path [OF this] run m show ?thesis by auto
qed

text \<open>
  C7: packets go to authenticated nodes. The connection through which mion sends a peer's packets
  is, if it is direct, one whose other end has proved to be that peer, and if it is a relay tunnel,
  one that was opened under that peer's name by the other end or by this node and whose other end
  has proved to be one of the registered peers.
\<close>

theorem paths_are_authenticated:
  assumes "mgr_reachable w active ts m" and "mion_peer (w_mion w) active"
    and "m_peers m pid = Some entry" and "active (pe_peer entry) = Some conn"
  shows "case conn of
      DirectConn d \<Rightarrow> m_directPeer m d = Some pid
    | RelayConn t \<Rightarrow> \<exists>tn. m_tunnels m t = Some tn \<and> nc_peerID (tn_conn tn) = pid \<and> tn_cert tn \<in> knownPeerSet m"
proof -
  obtain m0 ts0 where r: "pool_runs (mgr_act w) (ts0, m0) (ts, m)" "fresh_entries active m0"
    "\<forall>t \<in> set ts0. carried t = None \<and> opens_for_peer t"
    using reachable_runs [OF assms(1)] by metis
  have "paths_ok active m0 \<and> (\<forall>t \<in> set ts0. carries_own t m0)"
    using r(2,3) by (auto simp: paths_ok_def fresh_entries_def carries_own_def)
  from pool_local.local_run [OF authenticated_invariant [OF assms(2)] r(1)] this have "conn_for pid conn m"
    using assms(3,4) by (auto simp: paths_ok_def)
  then show ?thesis
    by (auto simp: conn_for_def tunnel_for_def direct_for_def knownPeerSet_def split: conn_ref.splits)
qed

theorem paths_are_authenticated_witness:
  "\<exists>ts m e tn. sample_exec (relay_up @ session_begins @ session_ends) = Goes ts m \<and> m_peers m peer7 = Some e \<and>
     sp_active (pe_peer e) = Some (RelayConn 0) \<and> m_tunnels m 0 = Some tn \<and> tn_cert tn \<in> knownPeerSet m"
proof -
  obtain ts m e where run: "sample_exec (relay_up @ session_begins @ session_ends) = Goes ts m"
    and e: "m_peers m peer7 = Some e" "sp_active (pe_peer e) = Some (RelayConn 0)"
    using relayed_run by blast
  have "mion_peer (w_mion sample_world) sp_active"
    by simp
  from paths_are_authenticated [OF sample_reaches [OF run] this e] run e show ?thesis
    by auto
qed

text \<open>
  C34: a stranger can stop a client. In any reachable state of a running client with a direct
  listener, its relay connection up and its control queue empty, let the relay hand over a control
  envelope of any identity that is not registered, with one IPv4 candidate as \<open>control.Encode\<close> writes
  it. \<open>controlLoop\<close> does not check the sender; the address is probed and answers as that identity;
  \<open>tryPromotePath\<close> reads the entry of the unknown peer before it tests the lookup, and the program
  panics. Nothing else has to happen: these are all the events of the run.
\<close>

theorem stranger_crashes_client:
  assumes "mgr_reachable w active ts m" and "w_decode w = control_Decode"
    and "GRelay url ConnReading l \<in> set ts" and "m_proxies m url = Some p" and "GProbe ControlLoop \<in> set ts"
    and "m_role m = Some ''client''" and "m_ctx m = Some False" and "m_directLn m \<noteq> None"
    and "chan_buf (controlCh (m_store m)) = []" and "chan_cap (controlCh (m_store m)) = 64"
    and "pid \<notin> knownPeerSet m" and "Is4 (ap_addr addr)" and "m_probeCooldown m addr = None"
  shows "\<exists>sched. map snd sched =
      [RelayIn (Arrives (candidates_envelope pid (m_selfID m) addr)), Go, At now, At now, At now, ProbeEnds (Some vt), Go] \<and>
    pool_exec (mgr_act w) sched ts m = Panics"
proof -
  define q where "q = controlCh (m_store m)"
  have q: "chan_buf q = []" "chan_cap q = 64" "\<not> chan_closed q"
    using assms(9,10) reachable_inv [OF assms(1)]
    by (simp_all add: q_def mgr_inv_def mgr_pool_def pool_ok_def store_ok_def)
  define cm where "cm = \<lparr>cm_SrcPeerID = pid, cm_Payload = control_Encode (candidates_message addr)\<rparr>"
  define m1 where "m1 = m\<lparr>m_proxies := (m_proxies m)(url \<mapsto> p), m_store := (m_store m)\<lparr>controlCh := q\<lparr>chan_buf := [cm]\<rparr>\<rparr>\<rparr>"
  define m2 where "m2 = m1\<lparr>m_store := (m_store m1)\<lparr>controlCh := q\<rparr>\<rparr>"
  have peers: "m_peers m2 pid = None" "\<not> has_direct pid m2"
    using assms(11) by (auto simp: m2_def m1_def knownPeerSet_def has_direct_def split: option.splits)
  have m2: "m_role m2 = Some ''client''" "m_ctx m2 = Some False" "m_directLn m2 \<noteq> None" "m_probeCooldown m2 addr = None"
    using assms(6-8,13) by (simp_all add: m2_def m1_def)
  have arrives: "mgr_act w (RelayIn (Arrives (candidates_envelope pid (m_selfID m) addr))) (GRelay url ConnReading l) m =
      Goes [GRelay url ConnReading l] m1"
    using assms(4) q
    by (simp add: relay_act_def connect_act_def conn_moves_def candidates_envelope_def dispatchControl_def try_send_def
        StreamTypeData_def StreamTypeControl_def m1_def cm_def q_def)
  have handled: "mgr_act w Go (GProbe ControlLoop) m1 =
      Goes [GProbe ControlLoop, GProbe (Validate pid (msg_Candidates (candidates_message addr)))] m2"
    using assms(2,7) candidates_decoded [OF assms(12)] q
    by (simp add: or_cancelled_def on_go_def try_recv_def m1_def m2_def cm_def control_act_def handleControl_def)
  have validated: "mgr_act w (At now) (GProbe (Validate pid (msg_Candidates (candidates_message addr)))) m2 =
      Goes [GProbe (Validate pid []), GProbe (Probe pid addr)] m2"
    using assms(12) m2 peers AddrPort_text [of addr]
    by (cases "ap_addr addr") (simp_all add: validate_candidate_def candidates_message_def)
  have first: "mgr_act w (At now) (GProbe (Probe pid addr)) m2 = Goes [GProbe (ProbeFirst pid addr (now + 30000))] m2"
    using m2 by simp
  have attempt: "mgr_act w (At now) (GProbe (ProbeFirst pid addr (now + 30000))) m2 = Goes [GProbe (Probing pid addr (now + 30000))] m2"
    using m2 peers by (simp add: probe_head_def ctx_done_def)
  have answered: "mgr_act w (ProbeEnds (Some vt)) (GProbe (Probing pid addr (now + 30000))) m2 =
      Goes [GDirect (Promote pid)] (probe_succeeded pid addr vt m2)"
    using m2 by (simp add: probe_ok_def probe_succeeded_def)
  have panics: "mgr_act w Go (GDirect (Promote pid)) (probe_succeeded pid addr vt m2) = Panics"
    using m2 peers by (simp add: on_go_def promote_check_def probe_succeeded_def)
  note runs = exec_member [where act = "mgr_act w"]
  show ?thesis
    by (rule runs [OF assms(3) arrives], rule runs [OF _ handled], use assms(5) in force,
        rule runs [OF _ validated], force, rule runs [OF _ first], force,
        rule runs [OF _ attempt], force, rule runs [OF _ answered], force,
        rule exec_panics [where act = "mgr_act w", OF _ panics], force)
qed

theorem stranger_crashes_client_witness:
  "\<exists>sched. sample_exec (relay_up @ sched) = Panics \<and> stranger \<notin> knownPeerSet sample_manager \<and>
     map snd sched = [RelayIn (Arrives (candidates_envelope stranger (m_selfID up_manager) sample_addr)), Go, At 0, At 0, At 0,
       ProbeEnds (Some \<lparr>vt_RemoteAddr = sample_addr, vt_PeerID = stranger, vt_RTT = 1\<rparr>), Go]"
proof -
  let ?ts = "[GMain, GDirect DirectAccept, GTunnel AcceptLoop, GProbe ControlLoop,
     GRetry (RetryStart peer7), GRelay ''https://relay'' ConnReading LoopWait]"
  let ?vt = "\<lparr>vt_RemoteAddr = sample_addr, vt_PeerID = stranger, vt_RTT = 1\<rparr>"
  have up: "m_proxies up_manager ''https://relay'' = Some (the (m_proxies up_manager ''https://relay''))"
    "m_role up_manager = Some ''client''" "m_ctx up_manager = Some False" "m_directLn up_manager \<noteq> None"
    "chan_buf (controlCh (m_store up_manager)) = []" "chan_cap (controlCh (m_store up_manager)) = 64"
    "stranger \<notin> knownPeerSet up_manager" "m_probeCooldown up_manager sample_addr = None" "Is4 (ap_addr sample_addr)"
    by (simp_all add: up_manager_def fresh_store_def knownPeerSet_def sample_addr_def)
  have members: "GRelay ''https://relay'' ConnReading LoopWait \<in> set ?ts" "GProbe ControlLoop \<in> set ?ts"
    by simp_all
  from stranger_crashes_client [OF sample_reaches [OF relay_up_exec] sample_world_sel(3) members(1) up(1) members(2) up(2-7,9,8),
      of 0 ?vt]
  obtain sched where sched: "map snd sched = [RelayIn (Arrives (candidates_envelope stranger (m_selfID up_manager) sample_addr)),
      Go, At 0, At 0, At 0, ProbeEnds (Some ?vt), Go]" "pool_exec (mgr_act sample_world) sched ?ts up_manager = Panics"
    by (elim exE conjE) (rule that)
  have "sample_exec (relay_up @ sched) = Panics"
    unfolding after_relay_up by (rule sched(2))
  with sched(1) show ?thesis
    by (intro exI [of _ sched]) (simp add: knownPeerSet_def)
qed

text \<open>
  C35: a wakeup can be lost. A retry goroutine decides to stop because there is a direct path, the
  path fails, the fallback sees the flag of that goroutine still set and starts no other one, and
  then the flag is cleared: the peer has no path, nobody tries to get one, and the relay connection
  is up, so nothing happens until it is lost.
\<close>

theorem lost_wakeup:
  "sample_exec (relay_up @ ((4, Go) # direct_in) @ [(5, Go), (2, ConnFails), (2, Go), (2, Go), (2, Go), (2, Go), (4, Go)]) =
     Goes [GMain, GDirect DirectAccept, GTunnel AcceptLoop, GProbe ControlLoop, GRelay ''https://relay'' ConnReading LoopWait] stuck_manager \<and>
   \<not> has_path peer7 stuck_manager \<and> \<not> retrying peer7 stuck_manager \<and> m_ctx stuck_manager = Some False \<and>
   relay_is_connected ''https://relay'' stuck_manager"
  unfolding after_direct_in
  by (simp add: stuck_manager_def direct_manager_def up_simps fallback_simps has_path_def retrying_def fun_eq_iff)

text \<open>
  C36: a relay session can push a live direct path aside. A direct connection becomes the path while
  the handshake of a relay session is under way; when the handshake ends, the session becomes the
  path, and when the session fails the peer has no connection at all, although the direct connection
  lives and the peer is marked as having a direct path, which keeps everybody from promoting it.
\<close>

theorem relay_overrides_direct:
  "\<exists>ts m e. sample_exec (relay_up @ session_begins @ direct_in @ [(5, HandshakeEnds (Some [[7]])), (5, Go), (5, Go), (5, ConnFails)]) =
     Goes ts m \<and> m_peers m peer7 = Some e \<and> sp_active (pe_peer e) = None \<and> pe_hasDirectPath e \<and>
     GDirect (DirectForward peer7 0) \<in> set ts"
  unfolding after_relay_up
  by (simp add: up_simps)

text \<open>
  C37: the end of a replaced direct connection takes the mark of its successor. The peer comes back
  with a second direct connection, which becomes the path; when the first one is found dead, its
  goroutine starts the fallback of the peer although the path is not its own.
\<close>

theorem stale_direct_demotes:
  "\<exists>ts m e. sample_exec (relay_up @ direct_in @ direct_in @ [(3, ConnFails), (3, Go)]) =
     Goes ts m \<and> m_peers m peer7 = Some e \<and> sp_active (pe_peer e) = Some (DirectConn 1) \<and> \<not> pe_hasDirectPath e \<and>
     GDirect (DirectForward peer7 1) \<in> set ts"
  unfolding after_relay_up
  by (simp add: up_simps fallback_simps)

end
