(* ===== verification/Daemon.thy ===== *)
theory Daemon
  imports Config Schedules
begin

text \<open>
  \<open>cmd/malond/main.go\<close>: the start of the daemon, from the configuration file to the manager that is
  run, and the two selects that decide how the process ends. mion, the key derivation of Ed25519 and
  \<open>url.Parse\<close> (the scheme and the host of a URL) are arguments.
\<close>

section \<open>Listen endpoints\<close>

record ListenEndpoint =
  le_Protocol :: string
  le_Host :: string
  le_Port :: int

datatype endpoint_err = InvalidEntry string | UnknownProtocol string string | InvalidEntryAddress string | InvalidPort string

type_synonym url_parse = "string \<Rightarrow> (string \<times> string) option"

definition parse_endpoint :: "url_parse \<Rightarrow> string \<Rightarrow> endpoint_err + ListenEndpoint" where
  "parse_endpoint urlParse entry =
     (case urlParse entry of
        None \<Rightarrow> Inl (InvalidEntry entry)
      | Some (scheme, uhost) \<Rightarrow>
          if scheme = [] \<or> uhost = [] then Inl (InvalidEntry entry)
          else
            (let proto = ToLower scheme in
             if proto \<noteq> ''http2'' \<and> proto \<noteq> ''http3'' then Inl (UnknownProtocol proto entry)
             else case SplitHostPort uhost of
               Inl _ \<Rightarrow> Inl (InvalidEntryAddress entry)
             | Inr (host, portStr) \<Rightarrow>
                 (case Atoi portStr of
                    None \<Rightarrow> Inl (InvalidPort entry)
                  | Some port \<Rightarrow>
                      if port \<le> 0 \<or> port > 65535 then Inl (InvalidPort entry)
                      else Inr \<lparr>le_Protocol = proto, le_Host = host, le_Port = port\<rparr>)))"

fun parse_entries :: "url_parse \<Rightarrow> string list \<Rightarrow> ListenEndpoint list \<Rightarrow> endpoint_err + ListenEndpoint list" where
  "parse_entries urlParse [] ends = Inr ends"
| "parse_entries urlParse (raw # rest) ends =
     (let entry = TrimSpace raw in
      if entry = [] then parse_entries urlParse rest ends
      else case parse_endpoint urlParse entry of
        Inl e \<Rightarrow> Inl e
      | Inr ep \<Rightarrow> parse_entries urlParse rest (ends @ [ep]))"

definition parseMionListenEndpoints :: "url_parse \<Rightarrow> string \<Rightarrow> endpoint_err + ListenEndpoint list" where
  "parseMionListenEndpoints urlParse raw =
     (if TrimSpace raw = [] then Inr [] else parse_entries urlParse (Split CHR '','' raw) [])"

section \<open>Start\<close>

datatype mion_role = RoleClient | RoleProxy

record mion_Config =
  mc_InterfaceName :: string
  mc_PrivateKey :: bytes
  mc_Role :: mion_role
  mc_Address :: prefix
  mc_ListenEndpoints :: "ListenEndpoint list"

text \<open>mion: a new instance or an error, its role, a new peer object, and the registration of one.\<close>

record ('i, 'p) mion_lib =
  ml_New :: "mion_Config \<Rightarrow> 'i option"
  ml_Role :: "'i \<Rightarrow> string"
  ml_Peer :: "bytes \<Rightarrow> prefix list \<Rightarrow> 'p"
  ml_AddPeer :: "'p \<Rightarrow> 'i \<Rightarrow> 'i option"

datatype start_err =
    LoadConfig config_err | PrivateKeyEncoding | PrivateKeyLength nat | BadListenPort endpoint_err | MionNewFailed
  | PeerKeyEncoding | AddPeerFailed | RegisterFailed manager_err

definition config_path :: "string list \<Rightarrow> string" where
  "config_path args = (if length args > 1 then args ! 1 else ''malond.conf'')"

definition private_key :: "(bytes \<Rightarrow> bytes) \<Rightarrow> string \<Rightarrow> start_err + bytes" where
  "private_key newKeyFromSeed s =
     (case DecodeString s of
        None \<Rightarrow> Inl PrivateKeyEncoding
      | Some raw \<Rightarrow>
          if length raw = 32 then Inr (newKeyFromSeed raw)
          else if length raw = 64 then Inr raw
          else Inl (PrivateKeyLength (length raw)))"

fun register_peers ::
  "('i, 'p) mion_lib \<Rightarrow> PeerConfig list \<Rightarrow> 'i \<Rightarrow> 'p Manager \<Rightarrow> start_err + ('i \<times> 'p Manager)" where
  "register_peers lib [] inst m = Inr (inst, m)"
| "register_peers lib (pc # rest) inst m =
     (case DecodeString (PublicKey pc) of
        None \<Rightarrow> Inl PeerKeyEncoding
      | Some pub \<Rightarrow>
          (let p = ml_Peer lib pub (PeerAllowedIPs pc) in
           case ml_AddPeer lib p inst of
             None \<Rightarrow> Inl AddPeerFailed
           | Some inst' \<Rightarrow>
               (case RegisterPeer pub p (PeerRelay pc) m of
                  Inl e \<Rightarrow> Inl (RegisterFailed e)
                | Inr m' \<Rightarrow> register_peers lib rest inst' m')))"

definition malond_start ::
  "crypto_api \<Rightarrow> ('i, 'p) mion_lib \<Rightarrow> (bytes \<Rightarrow> bytes) \<Rightarrow> url_parse \<Rightarrow> Config \<Rightarrow> start_err + ('i \<times> 'p Manager)" where
  "malond_start cr lib newKeyFromSeed urlParse cfg =
     (let i = Interface cfg in
      case private_key newKeyFromSeed (PrivateKey i) of
        Inl e \<Rightarrow> Inl e
      | Inr selfPriv \<Rightarrow>
          (case parseMionListenEndpoints urlParse (ListenPort i) of
             Inl e \<Rightarrow> Inl (BadListenPort e)
           | Inr ends \<Rightarrow>
               (case ml_New lib
                   \<lparr>mc_InterfaceName = ''mion0'', mc_PrivateKey = selfPriv,
                    mc_Role = (if Role i = ''proxy'' then RoleProxy else RoleClient),
                    mc_Address = Address i, mc_ListenEndpoints = ends\<rparr> of
                  None \<Rightarrow> Inl MionNewFailed
                | Some inst \<Rightarrow>
                    register_peers lib (Peers cfg) inst
                      (manager_New cr selfPriv (Relay i) (InsecureSkipVerify i) (STUNServer i) (Address i)
                         (Some (ml_Role lib inst))))))"

definition malond_load ::
  "(string \<Rightarrow> (string \<times> io_err) option) \<Rightarrow> crypto_api \<Rightarrow> ('i, 'p) mion_lib \<Rightarrow> (bytes \<Rightarrow> bytes) \<Rightarrow> url_parse \<Rightarrow>
   string list \<Rightarrow> start_err + ('i \<times> 'p Manager)" where
  "malond_load open cr lib newKeyFromSeed urlParse args =
     (case Load open (config_path args) of
        Inl e \<Rightarrow> Inl (LoadConfig e)
      | Inr cfg \<Rightarrow> malond_start cr lib newKeyFromSeed urlParse cfg)"

section \<open>Running\<close>

text \<open>
  What \<open>main\<close> waits for: the errors that the two goroutines send to \<open>errCh\<close>, a signal, and the
  readiness of the mion client. The first select has a default case for the proxy role, so that it
  is decided by what is there (\<open>None\<close> for nothing); the exit status is the argument of \<open>MainExit\<close>.
\<close>

datatype main_event = MionError | ManagerError | Signal | ClientReady

datatype main_phase = MainWaiting | MainRunning | MainExit nat

definition main_start :: "string \<Rightarrow> main_event option \<Rightarrow> main_phase" where
  "main_start role e =
     (if role = ''proxy'' then
        (case e of Some MionError \<Rightarrow> MainExit 1 | Some Signal \<Rightarrow> MainExit 0 | _ \<Rightarrow> MainRunning)
      else
        (case e of
           Some ClientReady \<Rightarrow> MainRunning
         | Some Signal \<Rightarrow> MainExit 0
         | Some MionError \<Rightarrow> MainExit 1
         | _ \<Rightarrow> MainWaiting))"

definition main_select :: "main_event \<Rightarrow> main_phase" where
  "main_select e =
     (case e of Signal \<Rightarrow> MainExit 0 | MionError \<Rightarrow> MainExit 1 | ManagerError \<Rightarrow> MainExit 1 | ClientReady \<Rightarrow> MainRunning)"

fun main_steps :: "string \<Rightarrow> main_phase \<Rightarrow> main_event list \<Rightarrow> main_phase" where
  "main_steps role ph [] = ph"
| "main_steps role MainWaiting (e # es) = main_steps role (main_start role (Some e)) es"
| "main_steps role MainRunning (e # es) = main_steps role (main_select e) es"
| "main_steps role (MainExit n) (e # es) = MainExit n"

lemma proxy_never_waits: "main_start ''proxy'' e \<noteq> MainWaiting"
  by (simp add: main_start_def split: option.split main_event.split)

lemma client_waits: "role \<noteq> ''proxy'' \<Longrightarrow> main_start role None = MainWaiting"
  by (simp add: main_start_def)

section \<open>Lemmas\<close>

definition endpoint_ok :: "ListenEndpoint \<Rightarrow> bool" where
  "endpoint_ok ep \<longleftrightarrow> le_Protocol ep \<in> {''http2'', ''http3''} \<and> 0 < le_Port ep \<and> le_Port ep \<le> 65535"

lemma parse_endpoint_ok: "parse_endpoint urlParse entry = Inr ep \<Longrightarrow> endpoint_ok ep"
  by (auto simp: parse_endpoint_def endpoint_ok_def Let_def split: option.splits sum.splits if_splits)

lemma parse_entries_ok:
  "\<forall>ep \<in> set ends. endpoint_ok ep \<Longrightarrow> parse_entries urlParse es ends = Inr ends' \<Longrightarrow> \<forall>ep \<in> set ends'. endpoint_ok ep"
  by (induction urlParse es ends rule: parse_entries.induct)
    (auto simp: Let_def split: if_splits sum.splits dest: parse_endpoint_ok)

lemma listen_endpoints_ok: "parseMionListenEndpoints urlParse raw = Inr ends \<Longrightarrow> \<forall>ep \<in> set ends. endpoint_ok ep"
  by (auto simp: parseMionListenEndpoints_def split: if_splits dest: parse_entries_ok [rotated])

definition new_entry :: "('i, 'p) mion_lib \<Rightarrow> PeerConfig \<Rightarrow> bytes \<Rightarrow> 'p peerEntry" where
  "new_entry lib pc pub =
     \<lparr>pe_peer = ml_Peer lib pub (PeerAllowedIPs pc), pe_relayURL = PeerRelay pc, pe_relayConn = None,
      pe_hasDirectPath = False, pe_retryingConn = False\<rparr>"

lemma getOrCreateProxy_dom: "dom (m_proxies (snd (getOrCreateProxy url m))) = insert url (dom (m_proxies m))"
  "m_peers (snd (getOrCreateProxy url m)) = m_peers m" "m_role (snd (getOrCreateProxy url m)) = m_role m"
  by (auto simp: getOrCreateProxy_def split: option.splits prod.splits)

lemma RegisterPeer_effect:
  assumes "RegisterPeer pub (ml_Peer lib pub (PeerAllowedIPs pc)) (PeerRelay pc) m = Inr m'"
  shows "m_peers m (PeerIDFromPublicKey pub) = None" "m_peers m' = (m_peers m)(PeerIDFromPublicKey pub \<mapsto> new_entry lib pc pub)"
    "dom (m_proxies m') = dom (m_proxies m) \<union> ({PeerRelay pc} - {[]})" "m_role m' = m_role m"
proof -
  let ?m = "m\<lparr>m_peers := (m_peers m)(PeerIDFromPublicKey pub \<mapsto> new_entry lib pc pub)\<rparr>"
  show none: "m_peers m (PeerIDFromPublicKey pub) = None"
    using assms by (auto simp: RegisterPeer_def Let_def split: option.splits)
  then have m': "m' = (if PeerRelay pc \<noteq> [] then snd (getOrCreateProxy (PeerRelay pc) ?m) else ?m)"
    using assms by (auto simp: RegisterPeer_def Let_def new_entry_def split: if_splits)
  show "m_peers m' = (m_peers m)(PeerIDFromPublicKey pub \<mapsto> new_entry lib pc pub)" "m_role m' = m_role m"
    by (simp_all add: m' getOrCreateProxy_dom)
  have "dom (m_proxies m') = (if PeerRelay pc \<noteq> [] then insert (PeerRelay pc) (dom (m_proxies m)) else dom (m_proxies m))"
    by (simp add: m' getOrCreateProxy_dom)
  then show "dom (m_proxies m') = dom (m_proxies m) \<union> ({PeerRelay pc} - {[]})"
    by (auto split: if_splits simp del: domIff)
qed

lemma register_peers_effect:
  assumes "register_peers lib pcs inst m = Inr (inst', m')"
  shows "\<exists>pubs. map (\<lambda>pc. DecodeString (PublicKey pc)) pcs = map Some pubs \<and>
      distinct (map PeerIDFromPublicKey pubs) \<and> set (map PeerIDFromPublicKey pubs) \<inter> dom (m_peers m) = {} \<and>
      m_peers m' = m_peers m ++ map_of (zip (map PeerIDFromPublicKey pubs) (map2 (new_entry lib) pcs pubs)) \<and>
      dom (m_proxies m') = dom (m_proxies m) \<union> (PeerRelay ` set pcs - {[]}) \<and> m_role m' = m_role m"
  using assms
proof (induction pcs arbitrary: inst m)
  case (Cons pc pcs)
  then obtain pub inst1 m1 where dec: "DecodeString (PublicKey pc) = Some pub"
    and reg: "RegisterPeer pub (ml_Peer lib pub (PeerAllowedIPs pc)) (PeerRelay pc) m = Inr m1"
    and rest: "register_peers lib pcs inst1 m1 = Inr (inst', m')"
    by (auto simp: Let_def split: option.splits sum.splits)
  note eff = RegisterPeer_effect [OF reg]
  obtain pubs where pubs: "map (\<lambda>pc. DecodeString (PublicKey pc)) pcs = map Some pubs"
      "distinct (map PeerIDFromPublicKey pubs)" "set (map PeerIDFromPublicKey pubs) \<inter> dom (m_peers m1) = {}"
      "m_peers m' = m_peers m1 ++ map_of (zip (map PeerIDFromPublicKey pubs) (map2 (new_entry lib) pcs pubs))"
      "dom (m_proxies m') = dom (m_proxies m1) \<union> (PeerRelay ` set pcs - {[]})" "m_role m' = m_role m1"
    using Cons.IH [OF rest] by (elim exE conjE) (rule that)
  have new: "PeerIDFromPublicKey pub \<notin> PeerIDFromPublicKey ` set pubs"
    using pubs(3) eff(2) by auto
  then have "PeerIDFromPublicKey pub \<notin> dom (map_of (zip (map PeerIDFromPublicKey pubs) (map2 (new_entry lib) pcs pubs)))"
    by (auto simp: dom_map_of_conv_image_fst dest: set_zip_leftD)
  then have peers: "m_peers m' = m_peers m ++ map_of (zip (map PeerIDFromPublicKey (pub # pubs)) (map2 (new_entry lib) (pc # pcs) (pub # pubs)))"
    by (auto simp: pubs(4) eff(2) map_add_def fun_eq_iff split: option.splits)
  show ?case
    by (intro exI [of _ "pub # pubs"] conjI peers) (use pubs dec eff new in auto)
qed simp

lemma register_peers_configured:
  assumes "configured active m" "\<And>pub ips. active (ml_Peer lib pub ips) = None" "register_peers lib pcs inst m = Inr (inst', m')"
  shows "configured active m'"
  using assms(1,3)
proof (induction pcs arbitrary: inst m)
  case (Cons pc pcs)
  then obtain pub inst1 m1 where reg: "RegisterPeer pub (ml_Peer lib pub (PeerAllowedIPs pc)) (PeerRelay pc) m = Inr m1"
    and rest: "register_peers lib pcs inst1 m1 = Inr (inst', m')"
    by (auto simp: Let_def split: option.splits sum.splits)
  show ?case
    by (rule Cons.IH [OF conf_peer [OF Cons.prems(1) assms(2) reg] rest])
qed simp

lemma manager_New_effect:
  "m_peers (manager_New cr priv url insecure stun overlay role) = Map.empty"
  "m_role (manager_New cr priv url insecure stun overlay role) = role"
  "dom (m_proxies (manager_New cr priv url insecure stun overlay role)) = {url} - {[]}"
  by (auto simp: manager_New_def Let_def getOrCreateProxy_dom simp del: dom_eq_empty_conv)

section \<open>Properties\<close>

text \<open>
  C16: a daemon that starts has the manager that its configuration describes. The keys of all peers
  are decodable and pairwise different; the manager knows exactly these peers, each with the relay
  and the allowed prefixes of its section and without a connection; it has a proxy for every relay
  URL of the file and for no other. Every state that \<open>Run\<close> leads to from there is a reachable state
  of the manager.
\<close>

theorem malond_starts_configured:
  assumes "malond_start cr lib newKeyFromSeed urlParse cfg = Inr (inst, m)"
    and "\<And>pub ips. active (ml_Peer lib pub ips) = None"
  shows "(\<exists>pubs. map (\<lambda>pc. DecodeString (PublicKey pc)) (Peers cfg) = map Some pubs \<and>
      distinct (map PeerIDFromPublicKey pubs) \<and>
      m_peers m = map_of (zip (map PeerIDFromPublicKey pubs) (map2 (new_entry lib) (Peers cfg) pubs))) \<and>
    dom (m_proxies m) = insert (Relay (Interface cfg)) (PeerRelay ` set (Peers cfg)) - {[]} \<and>
    (\<forall>w port urls ts m'. set urls = dom (m_proxies m) \<and> distinct urls \<and>
       pool_runs (mgr_act w) (manager_Run port urls m) (ts, m') \<longrightarrow> mgr_reachable w active ts m')"
proof -
  obtain priv inst0 where reg: "register_peers lib (Peers cfg) inst0
      (manager_New cr priv (Relay (Interface cfg)) (InsecureSkipVerify (Interface cfg)) (STUNServer (Interface cfg))
         (Address (Interface cfg)) (Some (ml_Role lib inst0))) = Inr (inst, m)"
    using assms(1) by (auto simp: malond_start_def Let_def split: sum.splits option.splits)
  obtain pubs where pubs: "map (\<lambda>pc. DecodeString (PublicKey pc)) (Peers cfg) = map Some pubs"
      "distinct (map PeerIDFromPublicKey pubs)"
      "m_peers m = map_of (zip (map PeerIDFromPublicKey pubs) (map2 (new_entry lib) (Peers cfg) pubs))"
      "dom (m_proxies m) = {Relay (Interface cfg)} - {[]} \<union> (PeerRelay ` set (Peers cfg) - {[]})" "m_role m \<noteq> None"
    using register_peers_effect [OF reg] unfolding manager_New_effect by auto
  have "configured active m"
    by (rule register_peers_configured [where active = active, OF conf_new _ reg]) (rule assms(2))
  then have "\<forall>w port urls ts m'. set urls = dom (m_proxies m) \<and> distinct urls \<and>
      pool_runs (mgr_act w) (manager_Run port urls m) (ts, m') \<longrightarrow> mgr_reachable w active ts m'"
    using pubs(5) unfolding mgr_reachable_def by blast
  with pubs(1-4) show ?thesis by blast
qed

text \<open>A daemon for the examples: the seed is the key, mion keeps nothing.\<close>

definition sample_lib :: "(unit, sample_peer) mion_lib" where
  "sample_lib =
     \<lparr>ml_New = (\<lambda>_. Some ()), ml_Role = (\<lambda>_. ''client''),
      ml_Peer = (\<lambda>_ ips. \<lparr>sp_active = None, sp_received = 0, sp_allowed = ips\<rparr>), ml_AddPeer = (\<lambda>_ _. Some ())\<rparr>"

definition sample_daemon :: Config where
  "sample_daemon =
     \<lparr>Interface = zero_interface\<lparr>PrivateKey := EncodeToString (replicate 32 9)\<rparr>,
      Peers = [zero_peer\<lparr>PublicKey := EncodeToString [7], PeerRelay := ''https://relay''\<rparr>]\<rparr>"

theorem malond_starts_configured_witness:
  "\<exists>m. malond_start sample_crypto sample_lib (\<lambda>seed. seed) (\<lambda>_. None) sample_daemon = Inr ((), m) \<and>
     dom (m_proxies m) = {''https://relay''}"
proof -
  have list: "parseMionListenEndpoints (\<lambda>_. None) [] = Inr []"
    by (simp add: parseMionListenEndpoints_def TrimSpace_solid)
  have "malond_start sample_crypto sample_lib (\<lambda>seed. seed) (\<lambda>_. None) sample_daemon =
      register_peers sample_lib (Peers sample_daemon) ()
        (manager_New sample_crypto (replicate 32 9) [] False [] zero_prefix (Some ''client''))"
    by (simp add: malond_start_def sample_daemon_def private_key_def list sample_lib_def zero_interface_def)
  also have "\<exists>m. \<dots> = Inr ((), m)"
    by (simp add: sample_daemon_def sample_lib_def RegisterPeer_def Let_def manager_New_effect zero_peer_def
        del: EncodeToString.simps)
  finally obtain m where m: "malond_start sample_crypto sample_lib (\<lambda>seed. seed) (\<lambda>_. None) sample_daemon = Inr ((), m)"
    by blast
  have "sp_active (ml_Peer sample_lib pub ips) = None" for pub ips
    by (simp add: sample_lib_def)
  from malond_starts_configured [OF m, of sp_active, OF this]
  have "dom (m_proxies m) = insert (Relay (Interface sample_daemon)) (PeerRelay ` set (Peers sample_daemon)) - {[]}"
    by blast
  with m show ?thesis
    by (simp add: sample_daemon_def zero_interface_def zero_peer_def)
qed

end
