(* ===== verification/Sequential.thy ===== *)
theory Sequential
  imports Goroutines
begin

text \<open>
  The functions of the manager in the theories \<open>Manager\<close> and \<open>Retry\<close>, which run to completion, and its
  goroutines in the theory \<open>Goroutines\<close>, which others interrupt, are two models of the same code. Here
  the first is shown to refine the second: a call is what its goroutine does under the schedule in
  which it is left alone, panics included, and it leaves behind the goroutines that the code starts.
\<close>

section \<open>Relay sessions\<close>

text \<open>What runs after a session attempt that has made a new tunnel, and after one that has not.\<close>

definition tunnel_goroutines :: "peer_id \<Rightarrow> 'p Manager \<Rightarrow> 'p Manager \<Rightarrow> goroutine list" where
  "tunnel_goroutines pid m m' =
     (if m_nextTunnel m' = m_nextTunnel m then []
      else [GTunnel (RelayForward pid (m_nextTunnel m)), GProbe (ControlRead pid (m_nextTunnel m))])"

lemma tunnel_goroutines_cong: "m_nextTunnel m1 = m_nextTunnel m \<Longrightarrow> tunnel_goroutines pid m1 = tunnel_goroutines pid m"
  by (simp add: tunnel_goroutines_def fun_eq_iff)

lemma set_conn_frame [simp]:
  "m_nextTunnel (set_conn api pid c m) = m_nextTunnel m" "m_role (set_conn api pid c m) = m_role m"
  by (simp_all add: set_conn_def)

text \<open>The end of \<open>connectPeerWithCtx\<close> and \<open>handleIncoming\<close>, from the closing of the old tunnel on.\<close>

lemma close_old_executes:
  assumes "install_tunnel pid c cert m = (t, old, m2)"
  shows "executes (mgr_act w) [GTunnel (CloseOld retry pid t old)] m2
    (case map_option (set_conn (w_mion w) pid (RelayConn t)) (close_tunnel old m2) of
       None \<Rightarrow> Panics
     | Some m' \<Rightarrow> Goes (tunnel_goroutines pid m m' @ (if retry then [GRetry (RetryExit pid)] else [])) m')"
proof (cases "close_tunnel old m2")
  case None
  then show ?thesis
    by - (rule executes_once [where e = Go], simp_all add: on_go_def after_close_def)
next
  case (Some m3)
  have t: "t = m_nextTunnel m" "m_nextTunnel m3 = Suc (m_nextTunnel m)"
    using assms close_tunnel_frame [OF Some] by (auto simp: install_tunnel_def Let_def)
  have "executes (mgr_act w) [GTunnel (Activate retry pid t)] m3
      (Goes (tunnel_goroutines pid m (set_conn (w_mion w) pid (RelayConn t) m3) @
        (if retry then [GRetry (RetryExit pid)] else [])) (set_conn (w_mion w) pid (RelayConn t) m3))"
    by (rule executes_once [where e = Go]) (simp_all add: on_go_def tunnel_goroutines_def t)
  then show ?thesis
    using Some by - (rule executes_only [where e = Go], simp_all add: on_go_def after_close_def)
qed

lemma handleIncoming_executes:
  "executes (mgr_act w) [GTunnel (Incoming c)] m
    (case handleIncoming (w_mion w) (w_crypto w) remote c m of
       None \<Rightarrow> Panics
     | Some m' \<Rightarrow> Goes (tunnel_goroutines (nc_peerID c) m m') m')"
proof (cases "m_peers m (nc_peerID c)")
  case None
  then show ?thesis
    by (cases "close_session c m")
      (auto simp: handleIncoming_def on_go_def after_close_def tunnel_goroutines_def close_session_frame
        intro!: executes_once [where e = Go])
next
  case (Some entry)
  let ?h = "inner_handshake (w_crypto w) NewServerTLSConfig remote m"
  have "executes (mgr_act w) [GTunnel (IncomingHandshake c)] m
    (case handleIncoming (w_mion w) (w_crypto w) remote c m of
       None \<Rightarrow> Panics
     | Some m' \<Rightarrow> Goes (tunnel_goroutines (nc_peerID c) m m') m')"
  proof (cases ?h)
    case (Inl err)
    with Some show ?thesis
      by (cases "close_session c m")
        (auto simp: handleIncoming_def after_handshake_def after_close_def tunnel_goroutines_def close_session_frame
          intro!: executes_once [where e = "HandshakeEnds remote"])
  next
    case (Inr cert)
    obtain t old m2 where inst: "install_tunnel (nc_peerID c) c cert m = (t, old, m2)"
      by (metis prod_cases3)
    show ?thesis
      using close_old_executes [OF inst, of w False] Some Inr
      by - (rule executes_only [where e = "HandshakeEnds remote"], simp_all add: handleIncoming_def after_handshake_def inst
          split: option.splits)
  qed
  with Some show ?thesis
    by - (rule executes_only [where e = Go], simp_all add: on_go_def)
qed

lemma connectPeer_executes:
  "executes (mgr_act w) [GRetry (RetryAttempt pid b)] m
    (case connectPeerWithCtx (w_mion w) (w_crypto w) remote pid m of
       None \<Rightarrow> Panics
     | Some (None, m') \<Rightarrow> Goes (tunnel_goroutines pid m m' @ [GRetry (RetryExit pid)]) m'
     | Some (Some _, m') \<Rightarrow> Goes [GRetry (RetrySleep pid b)] m')"
proof (cases "connect_begin pid m")
  case (Inl err)
  then show ?thesis
    by (auto simp: connectPeerWithCtx_def on_go_def intro!: executes_once [where e = Go])
next
  case (Inr cm)
  then obtain c m1 where opened: "connect_begin pid m = Inr (c, m1)"
    by (cases cm) simp
  let ?h = "inner_handshake (w_crypto w) NewClientTLSConfig remote m1"
  have "executes (mgr_act w) [GRetry (RetryHandshake pid b c)] m1
    (case connectPeerWithCtx (w_mion w) (w_crypto w) remote pid m of
       None \<Rightarrow> Panics
     | Some (None, m') \<Rightarrow> Goes (tunnel_goroutines pid m m' @ [GRetry (RetryExit pid)]) m'
     | Some (Some _, m') \<Rightarrow> Goes [GRetry (RetrySleep pid b)] m')"
  proof (cases ?h)
    case (Inl err)
    with opened show ?thesis
      by (cases "close_session c m1")
        (auto simp: connectPeerWithCtx_def after_handshake_def after_close_def
          intro!: executes_once [where e = "HandshakeEnds remote"])
  next
    case (Inr cert)
    obtain t old m2 where inst: "install_tunnel pid c cert m1 = (t, old, m2)"
      by (metis prod_cases3)
    have "tunnel_goroutines pid m1 = tunnel_goroutines pid m"
      by (rule tunnel_goroutines_cong) (rule connect_begin_frame(3) [OF opened])
    then show ?thesis
      using close_old_executes [OF inst, of w True] opened Inr
      by - (rule executes_only [where e = "HandshakeEnds remote"], simp_all add: connectPeerWithCtx_def after_handshake_def inst
          split: option.splits)
  qed
  with opened show ?thesis
    by - (rule executes_only [where e = Go], simp_all add: on_go_def)
qed

section \<open>Direct paths\<close>

lemma handleDirectConnect_executes:
  "executes (mgr_act w) [GDirect (DirectInbound pid d)] m
    (case handleDirectConnect (w_mion w) pid d m of
       (known, m') \<Rightarrow> Goes (if known then [GDirect (DirectForward pid d)] else []) m')"
proof (cases "m_peers m pid")
  case None
  then show ?thesis
    by - (rule executes_once [where e = Go], simp_all add: handleDirectConnect_def on_go_def)
next
  case (Some entry)
  have "executes (mgr_act w) [GDirect (ActivateDirect pid d)] (set_direct True pid m)
      (Goes [GDirect (DirectForward pid d)] (set_conn (w_mion w) pid (DirectConn d) (set_direct True pid m)))"
    by (rule executes_once [where e = Go]) (simp_all add: on_go_def)
  with Some show ?thesis
    by - (rule executes_only [where e = Go], simp_all add: handleDirectConnect_def on_go_def)
qed

text \<open>What a promotion leaves running.\<close>

definition promoted :: "peer_id \<Rightarrow> nat option \<Rightarrow> goroutine list" where
  "promoted pid d = (case d of None \<Rightarrow> [] | Some d \<Rightarrow> [GDirect (DirectForward pid d)])"

lemma promote_commit_executes:
  "executes (mgr_act w) [GDirect (Dialed pid d)] m
    (case promote_commit pid d m of
       (False, m') \<Rightarrow> Goes [] m'
     | (True, m') \<Rightarrow> Goes [GDirect (DirectForward pid d)] (set_conn (w_mion w) pid (DirectConn d) m'))"
proof -
  obtain won m' where c: "promote_commit pid d m = (won, m')"
    by fastforce
  have "executes (mgr_act w) [GDirect (ActivateDirect pid d)] m'
      (Goes [GDirect (DirectForward pid d)] (set_conn (w_mion w) pid (DirectConn d) m'))"
    by (rule executes_once [where e = Go]) (simp_all add: on_go_def)
  then show ?thesis
    by (cases won) (rule executes_only [where e = Go], simp add: c on_go_def, simp add: c executes_refl)+
qed

lemma tryPromotePath_executes:
  "executes (mgr_act w) [GDirect (Promote pid)] m
    (case tryPromotePath (w_mion w) dialed pid m of
       None \<Rightarrow> Panics
     | Some (d, m') \<Rightarrow> Goes (promoted pid d) m')"
proof (cases "m_directLn m = None \<or> promote_check pid m \<noteq> Some True")
  case True
  then show ?thesis
    by (auto simp: tryPromotePath_def on_go_def promoted_def split: option.split bool.split
        intro!: executes_once [where e = Go])
next
  case False
  obtain d m1 where new: "new_direct pid m = (d, m1)"
    by fastforce
  have "executes (mgr_act w) [GDirect (Dialing pid)] m
      (case tryPromotePath (w_mion w) dialed pid m of None \<Rightarrow> Panics | Some (d, m') \<Rightarrow> Goes (promoted pid d) m')"
  proof (cases dialed)
    case True
    with False show ?thesis
      using promote_commit_executes [of w pid d m1]
      by - (rule executes_only [where e = "DialEnds True"], simp, simp add: new,
          auto simp: tryPromotePath_def new promoted_def split: prod.splits bool.splits)
  qed (use False in \<open>auto simp: tryPromotePath_def promoted_def
      intro!: executes_once [where e = "DialEnds False"]\<close>)
  with False show ?thesis
    by - (rule executes_only [where e = Go], simp_all add: on_go_def)
qed

section \<open>Fallback\<close>

lemma fallback_client_executes:
  "executes (mgr_act w) [GDirect (FallbackTake pid)] m
    (case fallback_take pid m of
       (old, m2) \<Rightarrow>
         (case map_option (fallback_retry pid) (close_tunnel old m2) of
            None \<Rightarrow> Panics
          | Some (start, m') \<Rightarrow> Goes (if start then [GRetry (RetryStart pid)] else []) m'))"
proof -
  obtain old m2 where take: "fallback_take pid m = (old, m2)"
    by fastforce
  have retry: "executes (mgr_act w) [GDirect (FallbackRetry pid)] m3
      (case fallback_retry pid m3 of (start, m') \<Rightarrow> Goes (if start then [GRetry (RetryStart pid)] else []) m')" for m3
    by (cases "fallback_retry pid m3") (rule executes_once [where e = Go], simp_all add: on_go_def)
  have "executes (mgr_act w) [GDirect (FallbackClose pid old)] m2
      (case map_option (fallback_retry pid) (close_tunnel old m2) of
         None \<Rightarrow> Panics
       | Some (start, m') \<Rightarrow> Goes (if start then [GRetry (RetryStart pid)] else []) m')"
  proof (cases "close_tunnel old m2")
    case None
    then show ?thesis
      by - (rule executes_once [where e = Go], simp_all add: on_go_def after_close_def)
  next
    case (Some m3)
    with retry [of m3] show ?thesis
      by - (rule executes_only [where e = Go], simp_all add: on_go_def after_close_def)
  qed
  then show ?thesis
    by - (rule executes_only [where e = Go], simp_all add: take on_go_def)
qed

lemma fallbackToRelay_executes:
  "executes (mgr_act w) [GDirect (Fallback pid)] m
    (case fallbackToRelay (w_mion w) pid m of
       None \<Rightarrow> Panics
     | Some (start, m') \<Rightarrow> Goes (if start then [GRetry (RetryStart pid)] else []) m')"
proof (cases "fallback_begin pid m")
  case (Pair first m1)
  show ?thesis
  proof (cases "first \<and> m_role m1 = Some ''client''")
    case True
    with fallback_client_executes [of w pid m1] Pair show ?thesis
      by - (rule executes_only [where e = Go], simp add: on_go_def after_fallback_def,
          auto simp: fallbackToRelay_def split: prod.split)
  next
    case False
    have proxy: "executes (mgr_act w) [GDirect (FallbackProxy pid)] m1 (Goes [] (fallback_proxy (w_mion w) pid m1))"
      if f: first
    proof -
      obtain entry where entry: "m_peers m1 pid = Some entry"
        using f Pair by (cases "m_peers m pid") (auto simp: fallback_begin_def set_direct_def split: if_splits)
      have restore: "executes (mgr_act w) [GDirect (FallbackRestore pid t)] m1 (Goes [] (set_conn (w_mion w) pid (RelayConn t) m1))" for t
        by (rule executes_once [where e = Go]) (simp_all add: on_go_def)
      show ?thesis
        using entry restore
        by (cases "pe_relayConn entry")
          (rule executes_only [where e = Go], simp add: on_go_def, simp add: fallback_proxy_def executes_refl)+
    qed
    show ?thesis
    proof (cases "first \<and> m_role m1 \<noteq> None")
      case True
      with proxy False Pair show ?thesis
        by - (rule executes_only [where e = Go], auto simp: on_go_def after_fallback_def fallbackToRelay_def split: option.splits)
    next
      case False
      with Pair show ?thesis
        by (cases first) (auto simp: on_go_def after_fallback_def fallbackToRelay_def
            intro!: executes_once [where e = Go])
    qed
  qed
qed

lemma forward_packets_Cons:
  "snd (forward_packets api pid (pkt # pkts) m) = snd (forward_packets api pid pkts (snd (forward_packets api pid [pkt] m)))"
  by (auto simp: forward_packets_def update_entry_def split: option.split prod.split)

lemma forward_packets_frame [simp]: "m_role (snd (forward_packets api pid pkts m)) = m_role m"
  by (simp add: forward_packets_def split: option.split prod.split)

lemma forward_packets_Nil [simp]: "snd (forward_packets api pid [] m) = m"
  by (auto simp: forward_packets_def update_entry_def fun_upd_idem split: option.split)

lemma direct_packets_execute:
  assumes "m_role m \<noteq> None"
  shows "executes (mgr_act w) [GDirect (DirectForward pid d)] m
    (Goes [GDirect (DirectForward pid d)] (snd (forward_packets (w_mion w) pid pkts m)))"
  using assms
proof (induction pkts arbitrary: m)
  case (Cons pkt pkts)
  let ?m = "snd (forward_packets (w_mion w) pid [pkt] m)"
  have "mgr_act w (Packet pkt) (GDirect (DirectForward pid d)) m = Goes [GDirect (DirectForward pid d)] ?m"
    using Cons.prems by auto
  moreover have "executes (mgr_act w) [GDirect (DirectForward pid d)] ?m
      (Goes [GDirect (DirectForward pid d)] (snd (forward_packets (w_mion w) pid (pkt # pkts) m)))"
    using Cons.IH [of ?m] Cons.prems by (simp only: forward_packets_Cons [of _ _ pkt pkts] forward_packets_frame not_False_eq_True)
  ultimately show ?case by (rule executes_only)
qed (simp add: executes_refl)

lemma forwardDirectConnToTUN_executes:
  "executes (mgr_act w) [GDirect (DirectForward pid d)] m
    (case forwardDirectConnToTUN (w_mion w) pid d pkts m of
       None \<Rightarrow> Panics
     | Some (outs, start, m') \<Rightarrow> Goes (if start then [GRetry (RetryStart pid)] else []) m')"
proof (cases "m_role m")
  case None
  then show ?thesis
    by - (rule executes_once [where e = Go], simp_all add: forwardDirectConnToTUN_def)
next
  case (Some role)
  obtain outs m1 where fwd: "forward_packets (w_mion w) pid pkts m = (outs, m1)"
    by fastforce
  have "m_role m1 \<noteq> None"
    using Some forward_packets_frame [of "w_mion w" pid pkts m] fwd by simp
  then have "executes (mgr_act w) [GDirect (DirectForward pid d)] m1
      (case forwardDirectConnToTUN (w_mion w) pid d pkts m of
         None \<Rightarrow> Panics
       | Some (outs, start, m') \<Rightarrow> Goes (if start then [GRetry (RetryStart pid)] else []) m')"
    using fallbackToRelay_executes [of w pid "clear_conn_if (w_mion w) pid (DirectConn d) m1"] Some
    by - (rule executes_only [where e = ConnFails], simp,
        auto simp: forwardDirectConnToTUN_def fwd split: option.splits)
  then show ?thesis
    using direct_packets_execute [of m w pid d pkts] Some fwd by (auto intro: executes_trans)
qed

section \<open>Reconnection\<close>

lemma start_retries_Cons:
  "start_retries (pid # ids) m =
     (case start_retries [pid] m of
        (s1, m1) \<Rightarrow> (case start_retries ids m1 of (s2, m2) \<Rightarrow> (s1 @ s2, m2)))"
  by (simp split: option.split prod.split)

lemma retries_execute:
  "executes (mgr_act w) (ts @ [GRelay url c (LoopRetries ids)]) m
    (case start_retries ids m of
       (started, m') \<Rightarrow> Goes (ts @ map (\<lambda>p. GRetry (RetryStart p)) started @ [GRelay url c LoopWait]) m')"
proof (induction ids arbitrary: ts m)
  case Nil
  have "relay_act Go url c (LoopRetries []) m = Goes [GRelay url c LoopWait] m"
    by (cases c) (simp_all add: relay_act_def connect_act_def on_go_def)
  then show ?case
    using executes_at [of "mgr_act w" Go "GRelay url c (LoopRetries [])" m _ _ ts "[]"] executes_refl by fastforce
next
  case (Cons pid ids)
  obtain s1 m1 where one: "start_retries [pid] m = (s1, m1)"
    by fastforce
  obtain s2 m2 where rest: "start_retries ids m1 = (s2, m2)"
    by fastforce
  let ?start = "\<lambda>p. GRetry (RetryStart p)"
  have "mgr_act w Go (GRelay url c (LoopRetries (pid # ids))) m = Goes (map ?start s1 @ [GRelay url c (LoopRetries ids)]) m1"
    using one by (cases c) (simp_all add: relay_act_def connect_act_def on_go_def del: start_retries.simps)
  moreover have "executes (mgr_act w) (ts @ (map ?start s1 @ [GRelay url c (LoopRetries ids)]) @ []) m1
      (Goes (ts @ map ?start (s1 @ s2) @ [GRelay url c LoopWait]) m2)"
    using Cons [of "ts @ map ?start s1" m1] rest by simp
  ultimately have "executes (mgr_act w) (ts @ [GRelay url c (LoopRetries (pid # ids))]) m
      (Goes (ts @ map ?start (s1 @ s2) @ [GRelay url c LoopWait]) m2)"
    by (rule executes_at)
  then show ?case
    by (simp only: start_retries_Cons [of pid ids] one rest prod.case)
qed

lemma setupRelayPeers_executes:
  assumes "set order = dom (m_peers m)" "distinct order"
  shows "executes (mgr_act w) [GRelay url c LoopConnected] m
    (case setupRelayPeers order url m of
       (started, m') \<Rightarrow> Goes (map (\<lambda>p. GRetry (RetryStart p)) started @ [GRelay url c LoopWait]) m')"
proof -
  have act: "relay_act (MapOrder order) url c LoopConnected m =
      Goes [GRelay url c (if m_role m \<noteq> Some ''client'' then LoopWait else LoopRetries (relay_peers order url m))]
        (clear_relay_conns url m)"
    using assms by (cases c) (simp_all add: relay_act_def connect_act_def)
  have role: "m_role (clear_relay_conns url m) = m_role m"
    by (simp add: clear_relay_conns_def)
  show ?thesis
  proof (cases "m_role m = Some ''client''")
    case True
    then show ?thesis
      using act retries_execute [of w "[]" url c "relay_peers order url m" "clear_relay_conns url m"] role
      by - (rule executes_only [where e = "MapOrder order"], simp, simp add: setupRelayPeers_def relay_peers_def Let_def)
  next
    case False
    then show ?thesis
      using act role by - (rule executes_once [where e = "MapOrder order"], simp_all add: setupRelayPeers_def Let_def)
  qed
qed

text \<open>The reconnection loop, with the answers that its attempts get and nobody else at work.\<close>

definition undisturbed :: "bytes list option list \<Rightarrow> 'p turn list" where
  "undisturbed answers = map alone answers"

lemma undisturbed_simps [simp]:
  "undisturbed [] = []" "undisturbed (a # answers) = alone a # undisturbed answers"
  by (simp_all add: undisturbed_def)

text \<open>What a run of the loop has come to: whether it has returned, the waits and the manager.\<close>

definition loop_view :: "('p retry_end option \<times> int list \<times> 'p Manager) option \<Rightarrow> (bool \<times> int list \<times> 'p Manager) option" where
  "loop_view res = map_option (\<lambda>(fin, waits, m). (fin \<noteq> None, waits, m)) res"

lemma attempt_alone:
  "connectPeerWithCtx api cr answer pid m =
     (case retry_attempt api cr pid (alone answer) m of
        TurnPanics \<Rightarrow> None
      | TurnStops _ m' \<Rightarrow> Some (None, m')
      | TurnWaits m' \<Rightarrow> Some (fst (the (connectPeerWithCtx api cr answer pid m)), m'))"
  "retry_attempt api cr pid (alone answer) m = TurnWaits m' \<Longrightarrow>
     \<exists>err. connectPeerWithCtx api cr answer pid m = Some (Some err, m')"
  by (auto simp: connectPeerWithCtx_def retry_attempt_def alone_def split: sum.splits option.splits prod.splits)

lemma loop_view_simps:
  "loop_view (retry_loop api cr pid b [] m) = Some (False, [], m)"
  "loop_view (retry_loop api cr pid b (undisturbed (a # answers)) m) =
     (let wait = (\<lambda>m'. map_option (\<lambda>(stop, waits, m''). (stop, b # waits, m''))
            (loop_view (retry_loop api cr pid (next_backoff retry_maxBackoff b) (undisturbed answers) m')))
      in if m_ctx m = None then None
         else case retry_check pid m of
           (RetryStop, m1) \<Rightarrow> Some (True, [], m1)
         | (RetryWait, m1) \<Rightarrow> wait m1
         | (RetryConnect, m1) \<Rightarrow>
             (case connectPeerWithCtx api cr a pid m1 of
                None \<Rightarrow> None
              | Some (None, m2) \<Rightarrow> Some (True, [], m2)
              | Some (Some _, m2) \<Rightarrow> wait m2))"
proof -
  have wait: "loop_view (map_option (\<lambda>(fin, waits, m''). (fin, b # waits, m'')) res) =
      map_option (\<lambda>(stop, waits, m''). (stop, b # waits, m'')) (loop_view res)" for res :: "('a retry_end option \<times> int list \<times> 'a Manager) option"
    by (auto simp: loop_view_def option.map_comp comp_def split: prod.splits intro: option.map_cong)
  have ended_view: "loop_view None = None" "loop_view (Some (Some why, waits, m')) = Some (True, waits, m')"
    for why waits and m' :: "'a Manager"
    by (simp_all add: loop_view_def)
  have exit_alone: "tu_others (alone a) AtExit m' = m'" for m' :: "'a Manager"
    by (simp add: alone_def)
  show "loop_view (retry_loop api cr pid b (undisturbed (a # answers)) m) =
     (let wait = (\<lambda>m'. map_option (\<lambda>(stop, waits, m''). (stop, b # waits, m''))
            (loop_view (retry_loop api cr pid (next_backoff retry_maxBackoff b) (undisturbed answers) m')))
      in if m_ctx m = None then None
         else case retry_check pid m of
           (RetryStop, m1) \<Rightarrow> Some (True, [], m1)
         | (RetryWait, m1) \<Rightarrow> wait m1
         | (RetryConnect, m1) \<Rightarrow>
             (case connectPeerWithCtx api cr a pid m1 of
                None \<Rightarrow> None
              | Some (None, m2) \<Rightarrow> Some (True, [], m2)
              | Some (Some _, m2) \<Rightarrow> wait m2))"
    using attempt_alone [where api = api and cr = cr and answer = a and pid = pid and m = "snd (retry_check pid m)"]
    by (auto simp: retry_turn_alone wait exit_alone ended_view Let_def
        split: prod.splits retry_decision.splits turn_result.splits)
qed (simp add: loop_view_def)

lemma connectPeer_keeps:
  assumes "connectPeerWithCtx api cr remote pid m = Some (Some err, m')"
  shows "m_nextTunnel m' = m_nextTunnel m"
proof -
  have opened: "m_nextTunnel m1 = m_nextTunnel m" if "connect_begin pid m = Inr (c, m1)" for c m1
    using connect_begin_frame(3) [OF that] .
  show ?thesis
    using assms
    by (auto simp: connectPeerWithCtx_def split: sum.splits prod.splits dest!: opened close_session_frame)
qed

definition retry_outcome :: "peer_id \<Rightarrow> int \<Rightarrow> goroutine list \<Rightarrow> 'p Manager \<Rightarrow> (bool \<times> int list \<times> 'p Manager) option \<Rightarrow> 'p result" where
  "retry_outcome pid b rest m res =
     (case res of
        None \<Rightarrow> Panics
      | Some (stop, waits, m') \<Rightarrow>
          Goes (if stop then tunnel_goroutines pid m m' @ rest
                else [GRetry (RetryLook pid (fold (\<lambda>_. next_backoff retry_maxBackoff) waits b))]) m')"

lemma retry_outcome_wait:
  assumes "m_nextTunnel m1 = m_nextTunnel m"
  shows "retry_outcome pid b rest m (map_option (\<lambda>(stop, waits, m'). (stop, b # waits, m')) res) =
    retry_outcome pid (next_backoff retry_maxBackoff b) rest m1 res"
  using assms by (auto simp: retry_outcome_def tunnel_goroutines_def split: option.split prod.split)

lemma retry_sleep_executes:
  assumes "executes (mgr_act w) [GRetry (RetryLook pid (next_backoff retry_maxBackoff b))] m out"
  shows "executes (mgr_act w) [GRetry (RetrySleep pid b)] m out"
  using assms by - (rule executes_only [where e = Go], simp_all add: or_cancelled_def on_go_def)

lemma retry_look_frame: "retry_relay url m = (up, m1) \<Longrightarrow> m_nextTunnel m1 = m_nextTunnel m"
  by (auto simp: retry_relay_def split: prod.splits if_splits dest: getOrCreateProxy_frame)

lemma retry_attempt_executes:
  assumes "\<And>m2. executes (mgr_act w) [GRetry (RetryLook pid (next_backoff retry_maxBackoff b))] m2
      (retry_outcome pid (next_backoff retry_maxBackoff b) [GRetry (RetryExit pid)] m2 (next m2))"
    and "m_nextTunnel m1 = m_nextTunnel m"
  shows "executes (mgr_act w) [GRetry (RetryAttempt pid b)] m1
    (retry_outcome pid b [GRetry (RetryExit pid)] m
      (case connectPeerWithCtx (w_mion w) (w_crypto w) remote pid m1 of
         None \<Rightarrow> None
       | Some (None, m2) \<Rightarrow> Some (True, [], m2)
       | Some (Some _, m2) \<Rightarrow> map_option (\<lambda>(stop, waits, m'). (stop, b # waits, m')) (next m2)))"
proof (cases "connectPeerWithCtx (w_mion w) (w_crypto w) remote pid m1")
  case None
  then show ?thesis
    using connectPeer_executes [of w pid b m1 remote] by (simp add: retry_outcome_def)
next
  case (Some res)
  obtain err m2 where res: "res = (err, m2)"
    by fastforce
  show ?thesis
  proof (cases err)
    case None
    then show ?thesis
      using connectPeer_executes [of w pid b m1 remote] Some res tunnel_goroutines_cong [OF assms(2)]
      by (simp add: retry_outcome_def)
  next
    case (Some x)
    with res \<open>_ = Some res\<close> have run: "connectPeerWithCtx (w_mion w) (w_crypto w) remote pid m1 = Some (Some x, m2)"
      by simp
    have frame: "m_nextTunnel m2 = m_nextTunnel m"
      using connectPeer_keeps [OF run] assms(2) by simp
    have "executes (mgr_act w) [GRetry (RetryAttempt pid b)] m1 (Goes [GRetry (RetrySleep pid b)] m2)"
      using connectPeer_executes [of w pid b m1 remote] by (simp add: run)
    from executes_trans [OF this retry_sleep_executes [OF assms(1) [of m2]]] show ?thesis
      by (simp add: run retry_outcome_wait [OF frame])
  qed
qed

lemma retry_loop_executes:
  "executes (mgr_act w) [GRetry (RetryLook pid b)] m
    (retry_outcome pid b [GRetry (RetryExit pid)] m (loop_view (retry_loop (w_mion w) (w_crypto w) pid b (undisturbed answers) m)))"
proof (induction answers arbitrary: b m)
  case Nil
  then show ?case
    by (simp add: loop_view_def retry_outcome_def executes_refl)
next
  case (Cons a answers)
  let ?next = "\<lambda>m'. loop_view (retry_loop (w_mion w) (w_crypto w) pid (next_backoff retry_maxBackoff b) (undisturbed answers) m')"
  show ?case
  proof (cases "m_ctx m = None \<or> retry_look pid m = None")
    case True
    then show ?thesis
      by (auto simp: loop_view_simps retry_check_def retry_outcome_def tunnel_goroutines_def on_go_def
          simp del: undisturbed_simps retry_loop.simps intro!: executes_once [where e = Go])
  next
    case False
    then obtain url x where url: "retry_look pid m = Some url" "m_ctx m = Some x"
      by auto
    obtain up m1 where relay: "retry_relay url m = (up, m1)"
      by fastforce
    note frame = retry_look_frame [OF relay]
    have "executes (mgr_act w) [GRetry (if up then RetryAttempt pid b else RetrySleep pid b)] m1
      (retry_outcome pid b [GRetry (RetryExit pid)] m (loop_view (retry_loop (w_mion w) (w_crypto w) pid b (undisturbed (a # answers)) m)))"
      using retry_attempt_executes [of w pid b ?next m1 m a, OF Cons.IH frame]
        retry_sleep_executes [OF Cons.IH, of b m1]
      by (cases up) (simp_all add: loop_view_simps Let_def retry_check_def url relay retry_outcome_wait [OF frame]
          del: undisturbed_simps retry_loop.simps)
    then have "executes (mgr_act w) [GRetry (RetryRelay pid b url)] m
      (retry_outcome pid b [GRetry (RetryExit pid)] m (loop_view (retry_loop (w_mion w) (w_crypto w) pid b (undisturbed (a # answers)) m)))"
      by - (rule executes_only [where e = Go], simp_all add: relay on_go_def del: undisturbed_simps retry_loop.simps)
    then show ?thesis
      by - (rule executes_only [where e = Go], simp_all add: url on_go_def del: undisturbed_simps retry_loop.simps)
  qed
qed

lemma retryConnectPeer_executes:
  "executes (mgr_act w) [GRetry (RetryStart pid)] m
    (retry_outcome pid 1000 [] m (loop_view (retryConnectPeer (w_mion w) (w_crypto w) pid (undisturbed answers) m)))"
proof -
  have exit: "executes (mgr_act w) (ts @ [GRetry (RetryExit pid)]) m1 (Goes ts (retry_done pid m1))" for ts m1
    using executes_at [of "mgr_act w" Go "GRetry (RetryExit pid)" m1 "[]" "retry_done pid m1" ts "[]"]
    by (simp add: on_go_def executes_refl)
  have frame: "m_nextTunnel (retry_done pid m1) = m_nextTunnel m1" for m1 :: "'a Manager"
    by (simp add: retry_done_def)
  show ?thesis
  proof (cases "m_role m \<noteq> None \<and> m_role m \<noteq> Some ''client''")
    case True
    then have "executes (mgr_act w) [GRetry (RetryStart pid)] m (Goes [GRetry (RetryExit pid)] m)"
      by - (rule executes_once [where e = Go], auto simp: on_go_def)
    from executes_trans [OF this exit [of "[]" m, simplified]] True show ?thesis
      by (simp add: retryConnectPeer_def loop_view_def retry_outcome_def tunnel_goroutines_def frame)
  next
    case False
    let ?loop = "retry_loop (w_mion w) (w_crypto w) pid 1000 (undisturbed answers) m"
    have start: "executes (mgr_act w) [GRetry (RetryStart pid)] m (retry_outcome pid 1000 [GRetry (RetryExit pid)] m (loop_view ?loop))"
      using retry_loop_executes [of w pid 1000 m answers] False
      by - (rule executes_only [where e = Go], auto simp: on_go_def)
    show ?thesis
    proof (cases "\<exists>why waits m'. ?loop = Some (Some why, waits, m')")
      case True
      then obtain why waits m' where loop: "?loop = Some (Some why, waits, m')"
        by blast
      with start have "executes (mgr_act w) [GRetry (RetryStart pid)] m
          (Goes (tunnel_goroutines pid m m' @ [GRetry (RetryExit pid)]) m')"
        by (simp add: loop_view_def retry_outcome_def)
      from executes_trans [OF this exit] False loop show ?thesis
        by (auto simp: retryConnectPeer_def loop_view_def retry_outcome_def tunnel_goroutines_def frame)
    qed (use start False in \<open>auto simp: retryConnectPeer_def loop_view_def retry_outcome_def split: option.splits\<close>)
  qed
qed

text \<open>
  So each of these functions has a schedule of its goroutine alone that ends in the same state, panics
  exactly when the function does, and leaves running the goroutines that the code starts.
\<close>

lemmas calls_are_runs = handleIncoming_executes connectPeer_executes handleDirectConnect_executes
  tryPromotePath_executes forwardDirectConnToTUN_executes fallbackToRelay_executes setupRelayPeers_executes
  retryConnectPeer_executes

end
