(* ===== verification/Spec2Isabelle.thy ===== *)
theory Spec2Isabelle
  imports RelayDaemon Stun Direct Daemon Control Sequential
begin

text \<open>
  A verification development for MALON, an overlay network in Go: nodes exchange IP packets over a
  relay and, where NAT permits, over direct QUIC paths between them.

  \<^bold>\<open>The program.\<close> A relay server (\<open>internal/relay\<close>) keeps one HTTP/2 CONNECT stream per node and
  forwards \<^emph>\<open>envelopes\<close> (\<open>internal/envelope\<close>) by destination identity. In a node, an internal proxy
  per relay (\<open>internal/h2proxy/proxy.go\<close>) multiplexes sessions over the stream; a session
  (\<open>envelope_conn.go\<close>) carries an inner mTLS connection (\<open>internal/auth\<close>), and on it \<^emph>\<open>capsules\<close>
  (\<open>capsule.go\<close>, \<open>relay_conn.go\<close>) separate IP packets from control messages. Control messages
  (\<open>internal/control\<close>) carry candidate addresses (\<open>internal/candidate\<close>, \<open>internal/stun\<close>); the other
  node probes them (\<open>internal/h3path\<close>) and, if a probe succeeds, a direct session is dialled and
  accepted (\<open>internal/direct\<close>). The transport manager (\<open>internal/manager\<close>) owns all of this: it runs
  the goroutines that connect, retry, promote a peer to a direct path and fall back to the relay. The
  daemon (\<open>cmd/malond\<close>) builds it from a configuration file (\<open>config\<close>).

  \<^bold>\<open>The theories\<close>, in the order in which they build on each other:

  \<^item> \<open>Prelude\<close>, \<open>GoChan\<close>, \<open>Base64\<close>, \<open>Sha256\<close>, \<open>Netip\<close>, \<open>GoText\<close>, \<open>Json\<close>: what the program uses of Go and its
    standard library. Machine integers are words of their width; channels, readers and writers are
    records; text is a list of characters below 256. Contracts are locales: \<open>io_writer\<close> (what
    \<open>io.Writer\<close> promises) and \<open>drop_tail_queue\<close> (a buffered channel with non-blocking sends), both
    interpreted on the model's own definitions.
  \<^item> \<open>Identity\<close> (\<open>identity.go\<close>), \<open>Envelope\<close> (\<open>envelope.go\<close>), \<open>Capsule\<close> (\<open>capsule.go\<close>): data formats, with
    round trips, exact acceptance, behaviour on cut streams, and bounds.
  \<^item> \<open>H2Proxy\<close> (\<open>proxy.go\<close>, \<open>envelope_conn.go\<close>): the state of a proxy is the record \<open>InternalProxy\<close> with a
    store of channels, since session entries and connections share them by reference. \<open>Connect\<close> is a
    machine (\<open>connect_next\<close>) with one step per critical section or channel operation, and \<open>h2_step\<close> lets
    other goroutines open, use and close sessions between them: no channel panic leaves the proxy,
    the clean-up closes the sessions; \<open>dispatchData\<close> and \<open>readLoop\<close> are its runs that nobody interrupts, and
    reading is shown to be a byte stream.
  \<^item> \<open>Relay\<close> (\<open>relay.go\<close>): the handler run to completion, and the step relation \<open>relay_step\<close> in which handlers
    interleave between single \<open>Write\<close> calls; isolation of destinations in every interleaving, whole
    frames when writers do not overlap, and the two schedules in which the code goes wrong.
    \<open>RelayDaemon\<close> has the start of the server and \<open>cmd/malon-relayd\<close>.
  \<^item> \<open>Auth\<close> (\<open>auth.go\<close>, \<open>SelfSignedCert\<close>), \<open>Candidate\<close> (\<open>candidate.go\<close>), \<open>Tunnel\<close> (\<open>relay_conn.go\<close>,
    \<open>forwardConnToTUN\<close> and the source filter of \<open>manager.go\<close>).
  \<^item> \<open>Manager\<close> and \<open>Retry\<close> (\<open>manager.go\<close>): the state \<open>Manager\<close> with its entries per peer; each critical section is one
    function, and the functions of the file are composed of them. A session attempt is all or
    nothing, and the fallback to the relay is described branch by branch; the retry loop, with other
    goroutines acting at every point where it holds no lock (\<open>retry_point\<close>), ends once relay and peer are there.
  \<^item> \<open>Interleave\<close>, \<open>Goroutines\<close>, \<open>Coordination\<close>, \<open>Panics\<close>, \<open>Schedules\<close>: goroutines as values whose single actions
    interleave arbitrarily. The locales \<open>pool_invariant\<close>, \<open>pool_local\<close> and \<open>pool_count\<close> lift an invariant of
    single actions to all runs and are interpreted on \<open>mgr_act\<close>, the actions of the manager:
    at most one retry per peer, a watched direct path, a proxy role that opens no path, authenticated
    paths, and the only two panics; \<open>Schedules\<close> also shows how a message of an unregistered node, as
    \<open>Control\<close> encodes it, leads to one of them, and has the runs that leave a peer without a path.
  \<^item> \<open>Sequential\<close>: lemmas that tie functions of \<open>Manager\<close> and \<open>Retry\<close> to \<open>Goroutines\<close>: each is the run of its
    goroutine that nobody interrupts.
  \<^item> \<open>Stun\<close> (\<open>stun.go\<close>): what a server sees depends on the local socket, and each of the two queries
    reports it for the socket it uses.
  \<^item> \<open>Direct\<close> (\<open>listener.go\<close>, \<open>dial.go\<close>, \<open>h3path.go\<close>, \<open>probeAcceptLoop\<close>), \<open>Config\<close> (\<open>config.go\<close>),
    \<open>Daemon\<close> (\<open>cmd/malond/main.go\<close>): a daemon that starts has exactly the manager of its
    configuration file, so that the results on reachable states apply to it.
  \<^item> \<open>Control\<close> (\<open>control.go\<close>, the end of \<open>sendCandidates\<close> and \<open>controlReadLoop\<close>): the JSON codec of control messages, its
    round trip, and the size of the messages that the program sends.
  \<^item> This theory: IP packets written on a tunnel at one node reach the TUN device of the addressed node
    (\<open>Capsule\<close>, \<open>Tunnel\<close>, \<open>H2Proxy\<close>, \<open>Envelope\<close>, \<open>Relay\<close>, with TLS as a parameter); bytes written on a session
    arrive; and the candidates of one node are what the other probes, through \<open>Candidate\<close>, \<open>Control\<close>,
    \<open>Capsule\<close> and \<open>Manager\<close>.

  \<^bold>\<open>Conventions.\<close> Errors are values of sum types, one constructor per error return; \<open>None\<close> stands for a
  panic or, where the text says so, for waiting forever. Loops over input are total functions,
  proved to terminate by the length of what is left; the retry loop, which waits for the
  environment, takes the sequence of what it meets as an argument, and its theorem states that it ends.
  There is no fuel. Operating system, network, mion, TLS and X.509, QUIC, HTTP, CONNECT-IP, the STUN and TOML
  libraries and \<open>url.Parse\<close> are arguments of the definitions; what the program relies on is stated as named
  predicates (\<open>x509_library\<close>, \<open>mion_peer\<close>, \<open>quic_library\<close>, \<open>template_library\<close>, \<open>tls_stream\<close>,
  \<open>binding_service\<close>), each with an instance.

  \<^bold>\<open>Not modelled.\<close> Logging outside the relay, \<open>cmd/malon\<close> and
  the packages \<open>ipc\<close>, \<open>netclass\<close>, \<open>pathstate\<close> (no code), the type \<open>duration\<close> of \<open>config\<close> (unused).
  Real time appears only as the deadlines that the code computes.
\<close>

section \<open>From one node to another through the relay\<close>

text \<open>A sender that writes the messages \<open>bs\<close> one after the other.\<close>

fun conn_Writes :: "bytes list \<Rightarrow> EnvelopeNetConn \<Rightarrow> InternalProxy \<Rightarrow> InternalProxy" where
  "conn_Writes [] c p = p"
| "conn_Writes (b # bs) c p = conn_Writes bs c (snd (conn_Write b c p))"

definition data_envelope :: "peer_id \<Rightarrow> EnvelopeNetConn \<Rightarrow> bytes \<Rightarrow> envelope" where
  "data_envelope self c b =
     \<lparr>Version = Version1, StreamType = StreamTypeData, SrcPeerID = self, DstPeerID = nc_peerID c,
      EnvSessionID = nc_sessionID c, Payload = b\<rparr>"

lemma data_envelope_sel [simp]:
  "DstPeerID (data_envelope self c b) = nc_peerID c" "SrcPeerID (data_envelope self c b) = self"
  "EnvSessionID (data_envelope self c b) = nc_sessionID c" "Payload (data_envelope self c b) = b"
  "StreamType (data_envelope self c b) = StreamTypeData"
  "for_session (nc_sessionID c) (data_envelope self c b)"
  by (simp_all add: data_envelope_def for_session_def)

lemma conn_Writes_sent:
  "writer p = Some w \<Longrightarrow> st_broken w = None \<Longrightarrow>
     writer (conn_Writes bs c p) =
       Some (w\<lparr>st_sent := st_sent w @ envelope_wire (map (data_envelope (selfID p) c) bs)\<rparr>)"
  by (induction bs arbitrary: p w)
    (simp_all add: conn_Write_def writeEnvelope_def Encode_stream data_envelope_def)

text \<open>The first envelope of an unknown session opens it; the following ones are queued in it.\<close>

lemma incoming_session:
  assumes "h2_inv p st" "sessions p (EnvSessionID env) = None" "chan_room (acceptCh st) > 0"
    and "StreamType env = StreamTypeData"
  shows "\<exists>st'. dispatch env p st = Some (incoming_proxy env p st, st') \<and>
    chan_buf (acceptCh st') = chan_buf (acceptCh st) @ [incoming_conn env p st] \<and>
    ch_data st' (ch_next st) = chan_push (Payload env) (make_chan 64)"
  using assms h2_inv_shared(2) [OF assms(1)]
  by (auto simp: dispatch_def dispatchData_new chanq.push_contents incoming_store_def safeSend_eq new_data_chan_def
      take_Cons' Suc_le_eq)

lemma queued_session:
  assumes "sessions p sid = Some s" "\<forall>env \<in> set envs. for_session sid env"
  shows "\<exists>st'. dispatch_all envs p st = Some (p, st') \<and> acceptCh st' = acceptCh st \<and>
    ch_data st' (se_ch s) = fold chan_push (map Payload envs) (ch_data st (se_ch s))"
  using assms(2)
proof (induction envs arbitrary: st)
  case (Cons env envs)
  have "dispatch env p st = Some (p, safeSend (se_ch s) (Payload env) st)"
    using Cons.prems assms(1) by (simp add: dispatch_def dispatchData_known for_session_def)
  then show ?case
    using Cons.IH [of "safeSend (se_ch s) (Payload env) st"] Cons.prems by (auto simp: safeSend_eq)
qed simp

lemma fold_chan_push_closed [simp]: "chan_closed (fold chan_push xs c) = chan_closed c"
  by (induction xs arbitrary: c) simp_all

lemma relayed_dispatch:
  assumes "h2_inv p st" "sessions p (nc_sessionID c) = None" "chan_room (acceptCh st) > 0"
    and "bs \<noteq> []" "length bs \<le> 64"
  shows "\<exists>p' st' c'. dispatch_all (map (data_envelope A c) bs) p st = Some (p', st') \<and>
    chan_buf (acceptCh st') = chan_buf (acceptCh st) @ [c'] \<and> nc_peerID c' = A \<and>
    nc_sessionID c' = nc_sessionID c \<and> nc_readDeadline c' = None \<and>
    conn_stream c' st' = concat bs \<and> \<not> chan_closed (ch_data st' (nc_recvCh c'))"
proof -
  obtain b bs' where bs: "bs = b # bs'"
    using assms(4) by (cases bs) auto
  let ?env = "data_envelope A c b"
  obtain st1 where st1: "dispatch ?env p st = Some (incoming_proxy ?env p st, st1)"
    "chan_buf (acceptCh st1) = chan_buf (acceptCh st) @ [incoming_conn ?env p st]"
    "ch_data st1 (ch_next st) = chan_push b (make_chan 64)"
    using incoming_session [OF assms(1), of ?env] assms(2,3) by auto
  have "sessions (incoming_proxy ?env p st) (nc_sessionID c) =
      Some \<lparr>se_ch = ch_next st, se_peerID = A, se_once = False\<rparr>"
    by (simp add: incoming_proxy_def)
  from queued_session [OF this, of "map (data_envelope A c) bs'" st1]
  obtain st2 where st2: "dispatch_all (map (data_envelope A c) bs') (incoming_proxy ?env p st) st1 =
      Some (incoming_proxy ?env p st, st2)" "acceptCh st2 = acceptCh st1"
    "ch_data st2 (ch_next st) = fold chan_push bs (make_chan 64)"
    by (auto simp: st1(3) bs comp_def)
  have "conn_stream (incoming_conn ?env p st) st2 = concat bs"
    using assms(5) by (simp add: conn_stream_def incoming_conn_def st2(3) chanq.push_all)
  with st1 st2 show ?thesis
    by (intro exI [of _ "incoming_proxy ?env p st"] exI [of _ st2] exI [of _ "incoming_conn ?env p st"])
      (simp add: bs incoming_conn_def)
qed

text \<open>The whole way of a session: sender, relay, receiver.\<close>

lemma session_delivers:
  assumes "writer pA = Some open_stream" and "nc_peerID c = B" and "selfID pA \<noteq> B"
    and "bs \<noteq> []" and "length bs \<le> 64" and "\<forall>b \<in> set bs. length b < 2 ^ 32"
    and "writer (conn_Writes bs c pA) = Some tunnelA"
    and "streams r B = Some w" and "writers r w = open_stream"
    and "relay_handleHTTP wA True \<lparr>rq_Method = ''CONNECT'', rq_PeerID = PeerID_String (selfID pA),
           rq_Body = \<lparr>rd_data = st_sent tunnelA, rd_end = EOF\<rparr>\<rparr> r = (status, logs, r')"
    and "h2_inv pB stB" and "sessions pB (nc_sessionID c) = None" and "chan_room (acceptCh stB) > 0"
  shows "\<exists>pB' stB' c'. readLoop \<lparr>rd_data = st_sent (writers r' w), rd_end = EOF\<rparr> pB stB =
      Some (ReadHeader EOF, pB', stB') \<and>
    chan_buf (acceptCh stB') = chan_buf (acceptCh stB) @ [c'] \<and> nc_peerID c' = selfID pA \<and>
    conn_drain n now c' stB' = (concat bs, ReadBlocks)"
proof -
  let ?envs = "map (data_envelope (selfID pA) c) bs"
  have sent: "st_sent tunnelA = envelope_wire ?envs"
    using conn_Writes_sent [OF assms(1), of bs c] assms(7) by (simp add: open_stream_def)
  have "\<forall>env \<in> set ?envs. wire_envelope env"
    using assms(6) by (simp add: wire_envelope_def)
  note dec = decode_stream_all [OF this, of EOF]
  have "filter (addressed (register (selfID pA) wA r) w) ?envs = ?envs"
    using assms(2,3,8,9) by (auto simp: addressed_def register_def open_stream_def filter_id_conv)
  then have relayed: "st_sent (writers r' w) = envelope_wire ?envs"
    using handleHTTP_sent [OF assms(10), of w] dec assms(9) by (simp add: sent open_stream_def)
  obtain pB' stB' c' where d: "dispatch_all ?envs pB stB = Some (pB', stB')"
    and c': "chan_buf (acceptCh stB') = chan_buf (acceptCh stB) @ [c']" "nc_peerID c' = selfID pA"
      "nc_readDeadline c' = None" "conn_stream c' stB' = concat bs" "\<not> chan_closed (ch_data stB' (nc_recvCh c'))"
    using relayed_dispatch [OF assms(11-13,4,5)] by blast
  have "readLoop \<lparr>rd_data = st_sent (writers r' w), rd_end = EOF\<rparr> pB stB = Some (ReadHeader EOF, pB', stB')"
    by (simp add: readLoop_dispatch_all relayed dec d)
  with c' show ?thesis
    using conn_drain_all [OF c'(3), of n now stB'] by auto
qed

section \<open>From one node to another through a tunnel\<close>

text \<open>A control message behind packets on a tunnel: the forwarding loop leaves it in the control channel.\<close>

lemma control_behind_packets:
  assumes "capsule_WriteControl stream_write w payload = (None, w')" "st_sent w = capsule_wire (map IPPacket pkts)"
    and "length payload \<le> 65536" "\<forall>p \<in> set pkts. length p \<le> min 65536 mtu"
    and "NewRelayTunnelConnWithMTLS conn (Some \<lparr>rd_data = st_sent w', rd_end = e\<rparr>) = Inr rc"
    and "forwardConnToTUN api (Some mtu) ref rc p = (outs, p', rc')"
  shows "\<exists>ch. cc_ctrlCh (rt_capsule rc') = Some ch \<and> \<not> chan_closed ch \<and> chan_buf ch = [payload]"
proof -
  let ?cs = "map IPPacket pkts @ [Capsule.Control payload]"
  have "st_sent w' = capsule_wire ?cs"
    using tunnel.WriteControl_ok [OF assms(1)] assms(2) by (simp add: capsule_wire_def)
  then have rc: "rt_capsule rc = \<lparr>cc_rd = \<lparr>rd_data = capsule_wire ?cs, rd_end = e\<rparr>, cc_ctrlCh = Some (make_chan 16)\<rparr>"
    using assms(5) by (auto simp: NewRelayTunnelConnWithMTLS_def newCapsuleConn_def)
  have fits: "\<forall>c \<in> set ?cs. capsule_fits mtu c"
    using assms(3,4) by auto
  have "controls_of (map IPPacket pkts @ cs) = controls_of cs" for cs
    by (induction pkts) simp_all
  with capsule_drain_wire [OF fits, of "make_chan 16" "rt_capsule rc" "\<lparr>rd_data = [], rd_end = e\<rparr>"]
  have "cc_ctrlCh (rt_capsule rc') = Some (chan_push payload (make_chan 16))"
    using assms(6) by (auto simp: rc forwardConnToTUN_def forward_loop_drain split: prod.splits)
  then show ?thesis
    by (simp add: chanq.push_contents)
qed

text \<open>Packets that mion hands to a tunnel, one after the other, until a write fails.\<close>

fun tunnel_WritePackets :: "'w write_fn \<Rightarrow> bytes list \<Rightarrow> 'w \<Rightarrow> capsule_err option \<times> 'w" where
  "tunnel_WritePackets wr [] w = (None, w)"
| "tunnel_WritePackets wr (pkt # pkts) w =
     (case tunnel_WritePacket wr w pkt of
        (Some e, w') \<Rightarrow> (Some e, w')
      | (None, w') \<Rightarrow> tunnel_WritePackets wr pkts w')"

lemma WritePackets_wire:
  "tunnel_WritePackets stream_write pkts w = (None, w') \<Longrightarrow> st_sent w' = st_sent w @ capsule_wire (map IPPacket pkts)"
proof (induction pkts arbitrary: w)
  case (Cons pkt pkts)
  then obtain w1 where "capsule_WritePacket stream_write w pkt = (None, w1)"
    "tunnel_WritePackets stream_write pkts w1 = (None, w')"
    by (auto simp: tunnel_WritePacket_def split: prod.splits option.splits)
  with tunnel.WritePacket_ok Cons.IH show ?case
    by (fastforce simp: capsule_wire_def)
qed (simp add: capsule_wire_def)

lemma packets_of_IPPackets [simp]: "packets_of (map IPPacket pkts) = pkts"
  by (induction pkts) simp_all

lemma tunnel_forwards:
  assumes "mion_peer api active" "\<forall>p \<in> set pkts. length p \<le> min 65536 mtu"
    and "NewRelayTunnelConnWithMTLS conn (Some \<lparr>rd_data = capsule_wire (map IPPacket pkts), rd_end = e\<rparr>) = Inr rc"
  shows "\<exists>p' rc'. forwardConnToTUN api (Some mtu) ref rc p = (filter (admitted (AllowedIPs api p)) pkts, p', rc')"
proof -
  have fits: "\<forall>c \<in> set (map IPPacket pkts). capsule_fits mtu c"
    using assms(2) by auto
  from capsule_drain_wire [OF fits, of "make_chan 16" "rt_capsule rc" "\<lparr>rd_data = [], rd_end = e\<rparr>"] assms(3)
  obtain err c where "capsule_drain mtu (rt_capsule rc) = (pkts, err, c)"
    by (auto simp: NewRelayTunnelConnWithMTLS_def newCapsuleConn_def)
  then show ?thesis
    by (simp add: forwardConnToTUN_def forward_loop_drain forward_all_filter [OF assms(1)])
qed

text \<open>
  The TLS connection between the two ends of a session, as one direction sees it: the messages that it
  writes for a plaintext, its handshake included, and the plaintext that the other end gets from the
  bytes it reads.
\<close>

definition tls_stream :: "(bytes \<Rightarrow> bytes list) \<Rightarrow> (bytes \<Rightarrow> bytes) \<Rightarrow> bool" where
  "tls_stream seal unseal \<longleftrightarrow> (\<forall>t. unseal (concat (seal t)) = t)"

section \<open>Two nodes\<close>

definition sample_sender :: InternalProxy where
  "sample_sender =
     \<lparr>selfID = peer_id_of [1], relayURL = ''https://relay'', tlsInsecure = False, writer = Some open_stream,
      sessions = Map.empty, nextSID = 1, connectedCh = 0\<rparr>"

definition sample_netconn :: EnvelopeNetConn where
  "sample_netconn =
     \<lparr>nc_proxy = ''https://relay'', nc_sessionID = 1, nc_peerID = peer_id_of [2], nc_recvCh = 0,
      nc_readBuf = [], nc_readDeadline = None\<rparr>"

lemma sample_sides:
  "selfID sample_sender = peer_id_of [1]" "selfID sample_sender \<noteq> peer_id_of [2]"
  "writer sample_sender = Some open_stream" "nc_peerID sample_netconn = peer_id_of [2]"
  "h2_inv (fst sample_proxy) (snd sample_proxy)"
  "sessions (fst sample_proxy) (nc_sessionID sample_netconn) = None" "chan_room (acceptCh (snd sample_proxy)) > 0"
proof -
  show "h2_inv (fst sample_proxy) (snd sample_proxy)"
    using h2_reach_inv [of any_time ConnIdle "fst sample_proxy" "snd sample_proxy"] sample_session_facts(1) [of any_time] by simp
  show "writer sample_sender = Some open_stream" "nc_peerID sample_netconn = peer_id_of [2]"
    by (simp_all add: sample_sender_def sample_netconn_def)
qed code_simp+

section \<open>Properties\<close>

text \<open>
  C1: packets cross the overlay. Node \<open>A\<close> writes IP packets on its tunnel to \<open>B\<close>; they are framed as
  capsules, carried by TLS on a session, wrapped in envelopes, forwarded by the relay, sorted out by
  \<open>B\<close>'s proxy, offered as a connection of \<open>A\<close>, and read by the forwarding loop of \<open>B\<close>: the TUN device of \<open>B\<close>
  gets exactly the packets whose source address \<open>A\<close> is allowed, unmodified and in order. TLS is
  only assumed to deliver the plaintext.
\<close>

theorem packets_end_to_end:
  assumes "tls_stream seal unseal" and "mion_peer api active"
    and "tunnel_WritePackets stream_write pkts open_stream = (None, tlsA)"
    and "\<forall>p \<in> set pkts. length p \<le> min 65536 mtu"
    and "bs = seal (st_sent tlsA)"
    and "writer pA = Some open_stream" and "nc_peerID c = B" and "selfID pA \<noteq> B"
    and "bs \<noteq> []" and "length bs \<le> 64" and "\<forall>b \<in> set bs. length b < 2 ^ 32"
    and "writer (conn_Writes bs c pA) = Some tunnelA"
    and "streams r B = Some w" and "writers r w = open_stream"
    and "relay_handleHTTP wA True \<lparr>rq_Method = ''CONNECT'', rq_PeerID = PeerID_String (selfID pA),
           rq_Body = \<lparr>rd_data = st_sent tunnelA, rd_end = EOF\<rparr>\<rparr> r = (status, logs, r')"
    and "h2_inv pB stB" and "sessions pB (nc_sessionID c) = None" and "chan_room (acceptCh stB) > 0"
  shows "\<exists>pB' stB' c' bytes rc p' rc'. readLoop \<lparr>rd_data = st_sent (writers r' w), rd_end = EOF\<rparr> pB stB =
      Some (ReadHeader EOF, pB', stB') \<and>
    chan_buf (acceptCh stB') = chan_buf (acceptCh stB) @ [c'] \<and> nc_peerID c' = selfID pA \<and>
    conn_drain n now c' stB' = (bytes, ReadBlocks) \<and>
    NewRelayTunnelConnWithMTLS c' (Some \<lparr>rd_data = unseal bytes, rd_end = e\<rparr>) = Inr rc \<and>
    forwardConnToTUN api (Some mtu) ref rc p = (filter (admitted (AllowedIPs api p)) pkts, p', rc')"
proof -
  obtain pB' stB' c' where session: "readLoop \<lparr>rd_data = st_sent (writers r' w), rd_end = EOF\<rparr> pB stB =
      Some (ReadHeader EOF, pB', stB')" "chan_buf (acceptCh stB') = chan_buf (acceptCh stB) @ [c']"
    "nc_peerID c' = selfID pA" "conn_drain n now c' stB' = (concat bs, ReadBlocks)"
    using session_delivers [OF assms(6-18), of n now] by blast
  have unsealed: "unseal (concat bs) = capsule_wire (map IPPacket pkts)"
    using assms(1,5) WritePackets_wire [OF assms(3)] by (simp add: tls_stream_def open_stream_def)
  obtain rc where rc: "NewRelayTunnelConnWithMTLS c' (Some \<lparr>rd_data = unseal (concat bs), rd_end = e\<rparr>) = Inr rc"
    by (simp add: NewRelayTunnelConnWithMTLS_def)
  from tunnel_forwards [OF assms(2,4) rc [unfolded unsealed]] session rc show ?thesis by blast
qed

theorem packets_end_to_end_witness:
  "\<exists>tlsA tunnelA status logs r' pB' stB' c' bytes rc p' rc'.
     tunnel_WritePackets stream_write [sample_packet 1, sample_packet 2] open_stream = (None, tlsA) \<and>
     writer (conn_Writes [st_sent tlsA] sample_netconn sample_sender) = Some tunnelA \<and>
     relay_handleHTTP 0 True \<lparr>rq_Method = ''CONNECT'', rq_PeerID = PeerID_String (peer_id_of [1]),
       rq_Body = \<lparr>rd_data = st_sent tunnelA, rd_end = EOF\<rparr>\<rparr>
       \<lparr>streams = [peer_id_of [2] \<mapsto> 5], writers = \<lambda>_. open_stream\<rparr> = (status, logs, r') \<and>
     readLoop \<lparr>rd_data = st_sent (writers r' 5), rd_end = EOF\<rparr> (fst sample_proxy) (snd sample_proxy) =
       Some (ReadHeader EOF, pB', stB') \<and>
     conn_drain 0 0 c' stB' = (bytes, ReadBlocks) \<and>
     NewRelayTunnelConnWithMTLS c' (Some \<lparr>rd_data = bytes, rd_end = EOF\<rparr>) = Inr rc \<and>
     forwardConnToTUN sample_mion (Some 1500) (RelayConn 0) rc
       \<lparr>sp_active = None, sp_received = 0, sp_allowed = [PrefixFrom (AddrFrom4 [10, 0, 0, 2]) 32]\<rparr> = ([sample_packet 2], p', rc')"
proof -
  let ?r = "\<lparr>streams = [peer_id_of [2] \<mapsto> 5], writers = \<lambda>_. open_stream\<rparr>"
  let ?pkts = "[sample_packet 1, sample_packet 2]"
  let ?p = "\<lparr>sp_active = None, sp_received = 0, sp_allowed = [PrefixFrom (AddrFrom4 [10, 0, 0, 2]) 32]\<rparr>"
  have tls: "tls_stream (\<lambda>t. [t]) (\<lambda>t. t)"
    by (simp add: tls_stream_def)
  obtain tlsA where wr: "tunnel_WritePackets stream_write ?pkts open_stream = (None, tlsA)"
    by (simp add: tunnel_WritePacket_def capsule_WritePacket_def stream_write_def open_stream_def)
  have "length (capsule_wire (map IPPacket ?pkts)) = 44"
    by code_simp
  then have sent: "length (st_sent tlsA) < 2 ^ 32"
    using WritePackets_wire [OF wr] by (simp add: open_stream_def)
  obtain tunnelA where t: "writer (conn_Writes [st_sent tlsA] sample_netconn sample_sender) = Some tunnelA"
    using conn_Writes_sent [of sample_sender open_stream "[st_sent tlsA]" sample_netconn]
    by (auto simp: sample_sender_def open_stream_def simp del: conn_Writes.simps)
  obtain status logs r' where h: "relay_handleHTTP 0 True \<lparr>rq_Method = ''CONNECT'',
      rq_PeerID = PeerID_String (selfID sample_sender), rq_Body = \<lparr>rd_data = st_sent tunnelA, rd_end = EOF\<rparr>\<rparr> ?r =
      (status, logs, r')"
    by (metis surj_pair)
  have adm: "filter (admitted (AllowedIPs sample_mion ?p)) ?pkts = [sample_packet 2]"
    by code_simp
  have pkts: "\<forall>p \<in> set ?pkts. length p \<le> min 65536 1500"
    by (simp add: sample_packet_def)
  have bs: "[st_sent tlsA] \<noteq> []" "length [st_sent tlsA] \<le> 64" "\<forall>b \<in> set [st_sent tlsA]. length b < 2 ^ 32"
    "streams ?r (peer_id_of [2]) = Some 5" "writers ?r 5 = open_stream"
    using sent by simp_all
  from packets_end_to_end [OF tls sample_mion_peer wr pkts refl sample_sides(3,4,2) bs(1-3) t bs(4,5) h sample_sides(5-7),
      where n = 0 and now = 0 and e = EOF and ref = "RelayConn 0" and p = ?p]
  show ?thesis
    using wr t h unfolding adm sample_sides(1) by blast
qed

text \<open>
  C2: a session works end to end. Node \<open>A\<close> has a tunnel to the relay and writes the messages
  \<open>bs\<close> on a session to the connected node \<open>B\<close>; the relay serves \<open>A\<close>'s tunnel; \<open>B\<close> reads its own.
  If the session's number is new to \<open>B\<close>, exactly one connection is offered to \<open>B\<close>'s manager, it
  names \<open>A\<close> as the peer, and reading it with any buffer size gives the bytes of \<open>bs\<close>, all of them
  and in order (up to the 64 messages that a session holds before its reader runs).
\<close>

theorem session_end_to_end:
  assumes "writer pA = Some open_stream" and "nc_peerID c = B" and "selfID pA \<noteq> B"
    and "bs \<noteq> []" and "length bs \<le> 64" and "\<forall>b \<in> set bs. length b < 2 ^ 32"
    and "writer (conn_Writes bs c pA) = Some tunnelA"
    and "streams r B = Some w" and "writers r w = open_stream"
    and "relay_handleHTTP wA True \<lparr>rq_Method = ''CONNECT'', rq_PeerID = PeerID_String (selfID pA),
           rq_Body = \<lparr>rd_data = st_sent tunnelA, rd_end = EOF\<rparr>\<rparr> r = (status, logs, r')"
    and "h2_inv pB stB" and "sessions pB (nc_sessionID c) = None" and "chan_room (acceptCh stB) > 0"
  shows "\<exists>pB' stB' c'. readLoop \<lparr>rd_data = st_sent (writers r' w), rd_end = EOF\<rparr> pB stB =
      Some (ReadHeader EOF, pB', stB') \<and>
    chan_buf (acceptCh stB') = chan_buf (acceptCh stB) @ [c'] \<and> nc_peerID c' = selfID pA \<and>
    conn_drain n now c' stB' = (concat bs, ReadBlocks)"
  using assms by (rule session_delivers)

theorem session_end_to_end_witness:
  "\<exists>tunnelA status logs r' pB' stB' c'. writer (conn_Writes [[1, 2], [3]] sample_netconn sample_sender) = Some tunnelA \<and>
     relay_handleHTTP 0 True \<lparr>rq_Method = ''CONNECT'', rq_PeerID = PeerID_String (peer_id_of [1]),
       rq_Body = \<lparr>rd_data = st_sent tunnelA, rd_end = EOF\<rparr>\<rparr>
       \<lparr>streams = [peer_id_of [2] \<mapsto> 5], writers = \<lambda>_. open_stream\<rparr> = (status, logs, r') \<and>
     readLoop \<lparr>rd_data = st_sent (writers r' 5), rd_end = EOF\<rparr> (fst sample_proxy) (snd sample_proxy) =
       Some (ReadHeader EOF, pB', stB') \<and>
     conn_drain 0 0 c' stB' = ([1, 2, 3], ReadBlocks)"
proof -
  let ?r = "\<lparr>streams = [peer_id_of [2] \<mapsto> 5], writers = \<lambda>_. open_stream\<rparr>"
  obtain tunnelA where t: "writer (conn_Writes [[1, 2], [3]] sample_netconn sample_sender) = Some tunnelA"
    using conn_Writes_sent [of sample_sender open_stream "[[1, 2], [3]]" sample_netconn]
    by (auto simp: sample_sender_def open_stream_def simp del: conn_Writes.simps)
  obtain status logs r' where h: "relay_handleHTTP 0 True \<lparr>rq_Method = ''CONNECT'',
      rq_PeerID = PeerID_String (selfID sample_sender), rq_Body = \<lparr>rd_data = st_sent tunnelA, rd_end = EOF\<rparr>\<rparr> ?r =
      (status, logs, r')"
    by (metis surj_pair)
  have bs: "[[1, 2], [3]] \<noteq> ([] :: bytes list)" "length ([[1, 2], [3]] :: bytes list) \<le> 64"
    "\<forall>b \<in> set ([[1, 2], [3]] :: bytes list). length b < 2 ^ 32"
    "streams ?r (peer_id_of [2]) = Some 5" "writers ?r 5 = open_stream"
    by simp_all
  from session_end_to_end [OF sample_sides(3,4,2) bs(1-3) t bs(4,5) h sample_sides(5-7), of 0 0] t h show ?thesis
    by (auto simp: sample_sender_def)
qed

text \<open>
  C3: what one node offers is what the other probes. Node \<open>A\<close> collects its addresses and the one that the
  STUN server saw, and writes them on a tunnel on which packets were sent before; node \<open>B\<close> has the
  tunnel with the same bytes and reads it. Then \<open>B\<close> handles exactly one control message of \<open>A\<close>, and if it
  has a direct listener, no direct path to \<open>A\<close> and no address in cooldown, it probes exactly the
  IPv4 addresses that were offered, each with its port, in that order. Up to 500 addresses always fit in
  the capsule.
\<close>

theorem candidates_cross_the_tunnel:
  assumes "m_role mA \<noteq> None"
    and "offered = embedded_candidates interfaces mA @ stun_candidates query mA" and "offered \<noteq> []"
    and "\<And>srv a. query srv = Some a \<Longrightarrow> \<not> hasZone (ap_addr a)"
    and "sendCandidates_to interfaces query stream_write mA w = (None, w')"
    and "st_sent w = capsule_wire (map IPPacket pkts)" and "\<forall>p \<in> set pkts. length p \<le> min 65536 mtu"
    and "length offered \<le> 500"
    and "NewRelayTunnelConnWithMTLS conn (Some \<lparr>rd_data = st_sent w', rd_end = e\<rparr>) = Inr rc"
    and "forwardConnToTUN api (Some mtu) ref rc p = (outs, p', rc')"
    and "m_ctx mB \<noteq> None" and "m_directLn mB \<noteq> None" and "m_probeCooldown mB = Map.empty"
    and "\<not> has_direct (m_selfID mA) mB"
  shows "\<exists>msg. fst (controlReadLoop (m_selfID mA) rc') = [(m_selfID mA, msg)] \<and>
    validateCandidates now (m_selfID mA) msg mB = filter (\<lambda>a. Is4 (ap_addr a)) (map cd_Addr offered)"
proof -
  obtain msg where msg: "sendCandidates interfaces query mA = Some msg" "msg_Type msg = MsgTypeCandidates"
    using assms(1-3) by (auto simp: sendCandidates_def Let_def)
  have decoded: "control_Decode (control_Encode msg) = Some msg"
    using control_roundtrip [OF safe_candidates [OF msg(1) assms(4)]] .
  have "capsule_WriteControl stream_write w (control_Encode msg) = (None, w')"
    using assms(5) by (simp add: sendCandidates_to_def tunnel_WriteControl_def msg(1))
  moreover have "length (control_Encode msg) \<le> 65536"
    using length_candidates [OF msg(1) assms(4)] assms(2,8) by simp
  ultimately have "\<exists>ch. cc_ctrlCh (rt_capsule rc') = Some ch \<and> \<not> chan_closed ch \<and> chan_buf ch = [control_Encode msg]"
    using control_behind_packets [OF _ assms(6) _ assms(7,9,10)] by blast
  then have "fst (controlReadLoop (m_selfID mA) rc') = [(m_selfID mA, msg)]"
    by (auto simp: controlReadLoop_queue map_filter_simps handleControl_def decoded msg(2))
  then show ?thesis
    using candidates_exchanged [OF msg(1) assms(11-14), of now] by (simp add: assms(2))
qed

theorem candidates_cross_the_tunnel_witness:
  "\<exists>w' rc outs p' rc' msg.
     sendCandidates_to None (\<lambda>_. Some \<lparr>ap_addr = Addr4 5, ap_port = 6\<rparr>) stream_write sample_manager open_stream = (None, w') \<and>
     NewRelayTunnelConnWithMTLS sample_netconn (Some \<lparr>rd_data = st_sent w', rd_end = EOF\<rparr>) = Inr rc \<and>
     forwardConnToTUN sample_mion (Some 1500) (RelayConn 0) rc \<lparr>sp_active = None, sp_received = 0, sp_allowed = []\<rparr> =
       (outs, p', rc') \<and>
     fst (controlReadLoop (m_selfID sample_manager) rc') = [(m_selfID sample_manager, msg)] \<and>
     validateCandidates 0 (m_selfID sample_manager) msg (sample_manager\<lparr>m_ctx := Some False, m_directLn := Some 4433\<rparr>) =
       [\<lparr>ap_addr = Addr4 5, ap_port = 6\<rparr>]"
proof -
  let ?q = "\<lambda>_. Some \<lparr>ap_addr = Addr4 5, ap_port = 6\<rparr>"
  let ?mB = "sample_manager\<lparr>m_ctx := Some False, m_directLn := Some 4433\<rparr>"
  let ?offered = "embedded_candidates None sample_manager @ stun_candidates ?q sample_manager"
  have offered: "map cd_Addr ?offered = [\<lparr>ap_addr = Addr4 5, ap_port = 6\<rparr>]" "?offered \<noteq> []" "length ?offered \<le> 500"
    by (simp_all add: embedded_candidates_def stun_candidates_def)
  obtain w' where w': "sendCandidates_to None ?q stream_write sample_manager open_stream = (None, w')"
    by (cases "sendCandidates None ?q sample_manager")
      (auto simp: sendCandidates_to_def tunnel_WriteControl_def capsule_WriteControl_def stream_write_def open_stream_def)
  obtain rc where rc: "NewRelayTunnelConnWithMTLS sample_netconn (Some \<lparr>rd_data = st_sent w', rd_end = EOF\<rparr>) = Inr rc"
    by (simp add: NewRelayTunnelConnWithMTLS_def)
  obtain outs p' rc' where run: "forwardConnToTUN sample_mion (Some 1500) (RelayConn 0) rc
      \<lparr>sp_active = None, sp_received = 0, sp_allowed = []\<rparr> = (outs, p', rc')"
    by (metis prod_cases3)
  have "\<not> has_direct (m_selfID sample_manager) ?mB"
    by (simp add: has_direct_def split: option.split)
  then have "\<exists>msg. fst (controlReadLoop (m_selfID sample_manager) rc') = [(m_selfID sample_manager, msg)] \<and>
      validateCandidates 0 (m_selfID sample_manager) msg ?mB = filter (\<lambda>a. Is4 (ap_addr a)) (map cd_Addr ?offered)"
    by (intro candidates_cross_the_tunnel [OF _ refl offered(2) _ w' _ _ offered(3) rc run, where pkts = "[]"])
      (auto simp: open_stream_def capsule_wire_def)
  with w' rc run show ?thesis
    unfolding offered(1) by auto
qed

end
